(* ===== verification/Prelude.thy ===== *)
theory Prelude imports Main "HOL-Library.Word" "HOL-Library.Sublist" begin

text \<open>
  Shared vocabulary of the development.

  \<^item> Programs with state and exceptions. A C++ member function that may throw is a function from
    a state to a pair of an outcome and a state. The state is returned on the exceptional path too,
    since a C++ exception keeps every write made before it.
  \<^item> Bytes. The program's \<^verbatim>\<open>char\<close> is a signed byte on the targets of the Makefile; the
    model stores bytes as values of type \<^typ>\<open>char\<close> and reads them through \<open>schar\<close> wherever
    the code converts one to an \<^verbatim>\<open>int\<close>.
  \<^item> Machine integers of fixed width, as \<^typ>\<open>int\<close> with the wrap-around written out.
  \<^item> The collections of simplification and introduction rules the component theories extend.
\<close>

named_theorems prog_simps \<open>unfolding rules of the program combinators\<close>
named_theorems keeps_intros \<open>introduction rules for preserved state predicates\<close>

section \<open>Outcomes\<close>

text \<open>
  \<open>NoData\<close> and \<open>InvalidData\<close> are the two classes of namespace \<^verbatim>\<open>error\<close> and
  \<open>Thrown\<close> the plain \<^verbatim>\<open>Exception\<close> of the macro \<^verbatim>\<open>THROW\<close>. The last two outcomes are not C++
  exceptions: \<open>Deadlock\<close> is a thread blocked forever on a mutex, \<open>Fault\<close> an access outside
  the memory an object owns. No handler of the program catches them.
\<close>

datatype exn = NoData | InvalidData | Thrown string | Deadlock | Fault

definition is_exception :: "exn \<Rightarrow> bool" where
  "is_exception e = (e \<noteq> Deadlock \<and> e \<noteq> Fault)"

text \<open>A thread that is blocked forever does not leave the scopes it is in: it keeps the mutexes it holds.\<close>

definition stuck :: "exn + 'a \<Rightarrow> bool" where
  "stuck r = (case r of Inl e \<Rightarrow> e = Deadlock | Inr _ \<Rightarrow> False)"

lemma stuck_simps [simp]: "stuck (Inl e) = (e = Deadlock)" "stuck (Inr x) = False"
  by (simp_all add: stuck_def)

section \<open>Programs\<close>

type_synonym ('s, 'a) prog = "'s \<Rightarrow> (exn + 'a) \<times> 's"

definition ret :: "'a \<Rightarrow> ('s, 'a) prog" where
  "ret x = (\<lambda>s. (Inr x, s))"

definition throw :: "exn \<Rightarrow> ('s, 'a) prog" where
  "throw e = (\<lambda>s. (Inl e, s))"

definition bnd :: "('s, 'a) prog \<Rightarrow> ('a \<Rightarrow> ('s, 'b) prog) \<Rightarrow> ('s, 'b) prog" where
  "bnd m f = (\<lambda>s. case m s of (Inl e, s') \<Rightarrow> (Inl e, s') | (Inr x, s') \<Rightarrow> f x s')"

definition thn :: "('s, 'a) prog \<Rightarrow> ('s, 'b) prog \<Rightarrow> ('s, 'b) prog" where
  "thn m n = bnd m (\<lambda>_. n)"

definition gets :: "('s \<Rightarrow> 'a) \<Rightarrow> ('s, 'a) prog" where
  "gets f = (\<lambda>s. (Inr (f s), s))"

definition modify :: "('s \<Rightarrow> 's) \<Rightarrow> ('s, unit) prog" where
  "modify f = (\<lambda>s. (Inr (), f s))"

definition whenp :: "bool \<Rightarrow> ('s, unit) prog \<Rightarrow> ('s, unit) prog" where
  "whenp b m = (if b then m else ret ())"

definition lift_res :: "exn + 'a \<Rightarrow> ('s, 'a) prog" where
  "lift_res r = (\<lambda>s. (r, s))"

text \<open>\<^verbatim>\<open>try { m } catch (const error::InvalidData&) { h }\<close> and
  \<^verbatim>\<open>try { m } catch (const Exception&) { h }\<close>.\<close>

definition catch_invalid :: "('s, 'a) prog \<Rightarrow> ('s, 'a) prog \<Rightarrow> ('s, 'a) prog" where
  "catch_invalid m h = (\<lambda>s. case m s of
     (Inl e, s') \<Rightarrow> (if e = InvalidData then h s' else (Inl e, s'))
   | (Inr x, s') \<Rightarrow> (Inr x, s'))"

definition catch_any :: "('s, 'a) prog \<Rightarrow> ('s, 'a) prog \<Rightarrow> ('s, 'a) prog" where
  "catch_any m h = (\<lambda>s. case m s of
     (Inl e, s') \<Rightarrow> (if is_exception e then h s' else (Inl e, s'))
   | (Inr x, s') \<Rightarrow> (Inr x, s'))"

text \<open>A range-based \<^verbatim>\<open>for\<close> loop over a container the body does not change.\<close>

fun for_each :: "'a list \<Rightarrow> ('a \<Rightarrow> ('s, unit) prog) \<Rightarrow> ('s, unit) prog" where
  "for_each [] f = ret ()"
| "for_each (x # xs) f = thn (f x) (for_each xs f)"

lemma run_simps [simp, prog_simps]:
  "ret x s = (Inr x, s)"
  "throw e s = (Inl e, s)"
  "gets f s = (Inr (f s), s)"
  "modify g s = (Inr (), g s)"
  "lift_res r s = (r, s)"
  by (simp_all add: ret_def throw_def gets_def modify_def lift_res_def)

lemma bnd_run [prog_simps]:
  "bnd m f s = (case m s of (Inl e, s') \<Rightarrow> (Inl e, s') | (Inr x, s') \<Rightarrow> f x s')"
  by (simp add: bnd_def)

lemma bnd_Inr: "m s = (Inr x, s') \<Longrightarrow> bnd m f s = f x s'"
  by (simp add: bnd_def)

lemma bnd_Inl: "m s = (Inl e, s') \<Longrightarrow> bnd m f s = (Inl e, s')"
  by (simp add: bnd_def)

lemma bnd_ret [simp]: "bnd (ret x) f = f x"
  by (simp add: bnd_def ret_def)

lemma bnd_gets [simp]: "bnd (gets g) f s = f (g s) s"
  by (simp add: bnd_def)

lemma bnd_modify [simp]: "bnd (modify g) f s = f () (g s)"
  by (simp add: bnd_def)

lemma bnd_throw [simp]: "bnd (throw e) f = throw e"
  by (simp add: bnd_def throw_def)

lemma bnd_assoc: "bnd (bnd m f) g = bnd m (\<lambda>x. bnd (f x) g)"
  by (rule ext) (simp add: bnd_def split: prod.splits sum.splits)

lemma thn_run [prog_simps]:
  "thn m n s = (case m s of (Inl e, s') \<Rightarrow> (Inl e, s') | (Inr x, s') \<Rightarrow> n s')"
  by (simp add: thn_def bnd_def)

lemma thn_Inr: "m s = (Inr x, s') \<Longrightarrow> thn m n s = n s'"
  by (simp add: thn_def bnd_def)

lemma thn_Inl: "m s = (Inl e, s') \<Longrightarrow> thn m n s = (Inl e, s')"
  by (simp add: thn_def bnd_def)

lemma thn_modify [simp]: "thn (modify g) n s = n (g s)"
  by (simp add: thn_def)

lemma whenp_simps [simp]: "whenp True m = m" "whenp False m = ret ()"
  by (simp_all add: whenp_def)

lemma map_sum_id_simps [simp]:
  "map_sum id f r = Inl e \<longleftrightarrow> r = Inl e"
  "map_sum id f r = Inr y \<longleftrightarrow> (\<exists>x. r = Inr x \<and> y = f x)"
  by (cases r; auto)+

lemma split_at_first [simp]:
  "a \<notin> set pre \<Longrightarrow> takeWhile (\<lambda>c. c \<noteq> a) (pre @ a # r) = pre"
  "a \<notin> set pre \<Longrightarrow> dropWhile (\<lambda>c. c \<noteq> a) (pre @ a # r) = a # r"
  by (induction pre) auto

section \<open>Preserved predicates\<close>

text \<open>\<open>keeps P m\<close>: whatever outcome \<open>m\<close> has, it leaves a state with \<open>P\<close> when started in one.\<close>

definition keeps :: "('s \<Rightarrow> bool) \<Rightarrow> ('s, 'a) prog \<Rightarrow> bool" where
  "keeps P m = (\<forall>s. P s \<longrightarrow> P (snd (m s)))"

lemma keepsI [intro?]: "(\<And>s. P s \<Longrightarrow> P (snd (m s))) \<Longrightarrow> keeps P m"
  by (simp add: keeps_def)

lemma keepsD: "keeps P m \<Longrightarrow> P s \<Longrightarrow> P (snd (m s))"
  by (simp add: keeps_def)

lemma keepsD': "keeps P m \<Longrightarrow> P s \<Longrightarrow> m s = (r, s') \<Longrightarrow> P s'"
  by (metis keepsD snd_conv)

lemma keeps_ret [keeps_intros]: "keeps P (ret x)"
  by (simp add: keeps_def)

lemma keeps_throw [keeps_intros]: "keeps P (throw e)"
  by (simp add: keeps_def)

lemma keeps_gets [keeps_intros]: "keeps P (gets f)"
  by (simp add: keeps_def)

lemma keeps_lift_res [keeps_intros]: "keeps P (lift_res r)"
  by (simp add: keeps_def)

lemma keeps_modify: "(\<And>s. P s \<Longrightarrow> P (f s)) \<Longrightarrow> keeps P (modify f)"
  by (simp add: keeps_def)

lemma keeps_bnd [keeps_intros]:
  assumes "keeps P m" and "\<And>x. keeps P (f x)"
  shows "keeps P (bnd m f)"
proof
  fix s assume "P s"
  then show "P (snd (bnd m f s))"
    using assms by (auto simp: bnd_def dest: keepsD' keepsD split: prod.splits sum.splits)
qed

lemma keeps_thn [keeps_intros]: "keeps P m \<Longrightarrow> keeps P n \<Longrightarrow> keeps P (thn m n)"
  by (simp add: thn_def keeps_bnd)

lemma keeps_whenp [keeps_intros]: "(b \<Longrightarrow> keeps P m) \<Longrightarrow> keeps P (whenp b m)"
  by (simp add: whenp_def keeps_ret)

lemma keeps_if [keeps_intros]:
  "(b \<Longrightarrow> keeps P m) \<Longrightarrow> (\<not> b \<Longrightarrow> keeps P n) \<Longrightarrow> keeps P (if b then m else n)"
  by simp

lemma keeps_catch_invalid [keeps_intros]:
  assumes "keeps P m" and "keeps P h"
  shows "keeps P (catch_invalid m h)"
proof
  fix s assume "P s"
  then show "P (snd (catch_invalid m h s))"
    using assms by (auto simp: catch_invalid_def dest: keepsD' keepsD split: prod.splits sum.splits)
qed

lemma keeps_catch_any [keeps_intros]:
  assumes "keeps P m" and "keeps P h"
  shows "keeps P (catch_any m h)"
proof
  fix s assume "P s"
  then show "P (snd (catch_any m h s))"
    using assms by (auto simp: catch_any_def dest: keepsD' keepsD split: prod.splits sum.splits)
qed

lemma keeps_for_each [keeps_intros]:
  "(\<And>x. x \<in> set xs \<Longrightarrow> keeps P (f x)) \<Longrightarrow> keeps P (for_each xs f)"
  by (induction xs) (auto intro: keeps_intros)

lemma keeps_option [keeps_intros]:
  "keeps P n \<Longrightarrow> (\<And>x. keeps P (f x)) \<Longrightarrow> keeps P (case z of None \<Rightarrow> n | Some x \<Rightarrow> f x)"
  by (cases z) auto

lemma keeps_prod [keeps_intros]: "(\<And>x y. keeps P (f x y)) \<Longrightarrow> keeps P (case z of (x, y) \<Rightarrow> f x y)"
  by (cases z) auto

lemma keeps_let [keeps_intros]: "(\<And>x. keeps P (f x)) \<Longrightarrow> keeps P (let x = z in f x)"
  by simp

lemma keeps_list [keeps_intros]:
  "keeps P n \<Longrightarrow> (\<And>x xs. keeps P (f x xs)) \<Longrightarrow> keeps P (case z of [] \<Rightarrow> n | x # xs \<Rightarrow> f x xs)"
  by (cases z) auto

lemma keeps_sum [keeps_intros]:
  "(\<And>x. keeps P (f x)) \<Longrightarrow> (\<And>x. keeps P (g x)) \<Longrightarrow> keeps P (case z of Inl x \<Rightarrow> f x | Inr x \<Rightarrow> g x)"
  by (cases z) auto

section \<open>Bytes and machine integers\<close>

type_synonym bytes = "char list"

definition wrap_signed :: "nat \<Rightarrow> int \<Rightarrow> int" where
  "wrap_signed w x = (x + 2 ^ (w - 1)) mod 2 ^ w - 2 ^ (w - 1)"

abbreviation to_i8 :: "int \<Rightarrow> int" where "to_i8 \<equiv> wrap_signed 8"
abbreviation to_i16 :: "int \<Rightarrow> int" where "to_i16 \<equiv> wrap_signed 16"
abbreviation to_i32 :: "int \<Rightarrow> int" where "to_i32 \<equiv> wrap_signed 32"
abbreviation to_i64 :: "int \<Rightarrow> int" where "to_i64 \<equiv> wrap_signed 64"

definition schar :: "char \<Rightarrow> int" where
  "schar c = (let n = of_char c in if n < 128 then n else n - 256)"

definition char_of_int :: "int \<Rightarrow> char" where
  "char_of_int n = char_of (n mod 256)"

lemma wrap_signed_id:
  assumes "0 < w" and "- (2 ^ (w - 1)) \<le> x" and "x < 2 ^ (w - 1)"
  shows "wrap_signed w x = x"
proof -
  from assms(1) obtain v where w: "w = Suc v" by (cases w) auto
  have "(x + 2 ^ v) mod (2 * 2 ^ v) = x + 2 ^ v"
    by (rule mod_pos_pos_trivial) (use assms(2,3) w in simp_all)
  with w have "(x + 2 ^ (w - 1)) mod 2 ^ w = x + 2 ^ (w - 1)" by simp
  then show ?thesis by (simp add: wrap_signed_def)
qed

lemma to_i64_id: "- 9223372036854775808 \<le> x \<Longrightarrow> x < 9223372036854775808 \<Longrightarrow> to_i64 x = x"
  by (rule wrap_signed_id) simp_all

lemma to_i8_id: "- 128 \<le> x \<Longrightarrow> x < 128 \<Longrightarrow> to_i8 x = x"
  by (rule wrap_signed_id) simp_all

lemma to_i32_id: "- 2147483648 \<le> x \<Longrightarrow> x < 2147483648 \<Longrightarrow> to_i32 x = x"
  by (rule wrap_signed_id) simp_all

lemma of_char_bounds: "0 \<le> (of_char c :: int)" "(of_char c :: int) < 256"
proof -
  have eq: "(of_char c :: int) = int (of_char c)" by (simp add: of_nat_of_char)
  have "(of_char c :: nat) < 256" by simp
  then show "0 \<le> (of_char c :: int)" "(of_char c :: int) < 256" unfolding eq by linarith+
qed

lemma schar_bounds: "- 128 \<le> schar c" "schar c < 128"
  using of_char_bounds [of c] by (auto simp: schar_def Let_def)

lemma schar_inject [simp]: "schar c = schar d \<longleftrightarrow> c = d"
proof
  assume eq: "schar c = schar d"
  have "(of_char c :: int) = of_char d"
    using eq of_char_bounds [of c] of_char_bounds [of d]
    by (auto simp: schar_def Let_def split: if_splits)
  then show "c = d" by (simp add: of_char_eq_iff)
qed simp

lemma schar_char_of_int: "- 128 \<le> n \<Longrightarrow> n < 128 \<Longrightarrow> schar (char_of_int n) = n"
  unfolding schar_def char_of_int_def Let_def of_char_of by (cases "n < 0") (simp_all, presburger+)

end
