(* ===== verification/Slices.thy ===== *)
theory Slices imports Prelude begin

text \<open>
  \<^verbatim>\<open>ISlice\<close> and \<^verbatim>\<open>Slice\<close> of src/buffer.h: read-only views of a run of bytes.

  A view is the list of the bytes it covers. The operations below read only the \<^verbatim>\<open>_size\<close> bytes at
  \<^verbatim>\<open>_ptr\<close>, so nothing else of the memory matters to them; where the code tells a null view from an
  empty one (\<^verbatim>\<open>valid()\<close>), the model has an option with \<open>None\<close> for the null view. A literal
  \<^verbatim>\<open>const char*\<close> argument is the list of its bytes before the terminating zero.
  \<^verbatim>\<open>i64\<close> results are integers reduced by \<open>to_i64\<close> after each operation.
\<close>

section \<open>Comparisons\<close>

fun starts_with :: "bytes \<Rightarrow> bytes \<Rightarrow> bool" where
  "starts_with s [] = True"
| "starts_with [] (c # l) = False"
| "starts_with (a # s) (c # l) = (if c \<noteq> a then False else starts_with s l)"

definition lower :: "char \<Rightarrow> char" where
  "lower a = (if schar CHR ''A'' \<le> schar a \<and> schar a \<le> schar CHR ''Z''
              then char_of_int (schar a + (schar CHR ''a'' - schar CHR ''A'')) else a)"

fun starts_with_lc :: "bytes \<Rightarrow> bytes \<Rightarrow> bool" where
  "starts_with_lc s [] = True"
| "starts_with_lc [] (c # l) = False"
| "starts_with_lc (a # s) (c # l) = (if c \<noteq> lower a then False else starts_with_lc s l)"

fun equal_lit :: "bytes \<Rightarrow> bytes \<Rightarrow> bool" where
  "equal_lit s [] = (s = [])"
| "equal_lit [] (c # l) = False"
| "equal_lit (a # s) (c # l) = (if c \<noteq> a then False else equal_lit s l)"

fun slice_compare :: "bytes \<Rightarrow> bytes \<Rightarrow> int" where
  "slice_compare [] t = (if t = [] then 0 else - 1)"
| "slice_compare (a # s) [] = 1"
| "slice_compare (a # s) (b # t) =
     (let d = schar a - schar b in if d \<noteq> 0 then d else slice_compare s t)"

definition slice_equal :: "bytes \<Rightarrow> bytes \<Rightarrow> bool" where
  "slice_equal s t = (slice_compare s t = 0)"

lemma equal_lit_iff [simp]: "equal_lit s l \<longleftrightarrow> s = l"
  by (induction s l rule: equal_lit.induct) auto

lemma starts_with_prefix: "starts_with s l \<longleftrightarrow> prefix l s"
  by (induction s l rule: starts_with.induct) auto

lemma starts_with_lc_prefix: "starts_with_lc s l \<longleftrightarrow> prefix l (map lower s)"
  by (induction s l rule: starts_with_lc.induct) auto

lemma slice_compare_0 [simp]: "slice_compare s t = 0 \<longleftrightarrow> s = t"
  by (induction s t rule: slice_compare.induct) (auto simp: Let_def)

lemma slice_compare_swap: "slice_compare s t < 0 \<longleftrightarrow> 0 < slice_compare t s"
  by (induction s t rule: slice_compare.induct) (auto simp: Let_def neq_Nil_conv)

lemma slice_compare_trans:
  "slice_compare s t < 0 \<Longrightarrow> slice_compare t u < 0 \<Longrightarrow> slice_compare s u < 0"
proof (induction s t arbitrary: u rule: slice_compare.induct)
  case (1 t)
  then show ?case by (cases t; cases u) (auto split: if_splits)
next
  case (2 a s)
  then show ?case by simp
next
  case (3 a s b t)
  then show ?case by (cases u) (auto simp: Let_def split: if_splits)
qed

section \<open>Numbers\<close>

fun atoi_loop :: "bytes \<Rightarrow> int \<Rightarrow> exn + int" where
  "atoi_loop [] value = Inr value"
| "atoi_loop (c # cs) value =
     (let a = to_i8 (schar c - schar CHR ''0'')
      in if a < 0 \<or> a > 9 then Inl InvalidData else atoi_loop cs (to_i64 (value * 10 + a)))"

definition atoi :: "bytes \<Rightarrow> exn + int" where
  "atoi s = (case s of [] \<Rightarrow> Inl NoData
     | c # cs \<Rightarrow>
         (if c = CHR ''-''
          then (if length s < 2 then Inl InvalidData
                else map_sum id (\<lambda>v. to_i64 (- v)) (atoi_loop cs 0))
          else atoi_loop s 0))"

fun hextoi_loop :: "bytes \<Rightarrow> int \<Rightarrow> exn + int" where
  "hextoi_loop [] value = Inr value"
| "hextoi_loop (c # cs) value =
     (let a = schar c in
      if schar CHR ''0'' \<le> a \<and> a \<le> schar CHR ''9''
      then hextoi_loop cs (to_i64 (value * 16 + a - schar CHR ''0''))
      else if schar CHR ''A'' \<le> a \<and> a \<le> schar CHR ''F''
      then hextoi_loop cs (to_i64 (value * 16 + a - schar CHR ''A'' + 10))
      else if schar CHR ''a'' \<le> a \<and> a \<le> schar CHR ''f''
      then hextoi_loop cs (to_i64 (value * 16 + a - schar CHR ''a'' + 10))
      else Inl InvalidData)"

definition hextoi :: "bytes \<Rightarrow> exn + int" where
  "hextoi s = (if s = [] then Inl NoData else hextoi_loop s 0)"

lemma atoi_loop_errors: "atoi_loop s v = Inl e \<Longrightarrow> e = InvalidData"
  by (induction s v rule: atoi_loop.induct) (auto simp: Let_def split: if_splits)

lemma atoi_errors: "atoi s = Inl e \<Longrightarrow> e = NoData \<or> e = InvalidData"
  by (auto simp: atoi_def simp del: atoi_loop.simps dest: atoi_loop_errors split: list.splits if_splits)

lemma hextoi_loop_errors: "hextoi_loop s v = Inl e \<Longrightarrow> e = InvalidData"
  by (induction s v rule: hextoi_loop.induct) (auto simp: Let_def split: if_splits)

section \<open>Taking views apart\<close>

text \<open>
  \<^verbatim>\<open>get\<close> and \<^verbatim>\<open>pop\<close> with a negative length hand out a view of negative size, which every use
  of it turns into a \<^verbatim>\<open>memmove\<close> of nearly the whole address space: a fault of the model.
\<close>

definition slice_get :: "int \<Rightarrow> bytes \<Rightarrow> exn + bytes" where
  "slice_get len s =
     (if len > int (length s) then Inl (Thrown ''Index error'')
      else if len < 0 then Inl Fault
      else Inr (take (nat len) s))"

definition slice_pop :: "int \<Rightarrow> (bytes, bytes) prog" where
  "slice_pop len = (\<lambda>s. case slice_get len s of
     Inl e \<Rightarrow> (Inl e, s)
   | Inr r \<Rightarrow> (Inr r, drop (nat len) s))"

fun split_left_loop :: "nat \<Rightarrow> char \<Rightarrow> bytes \<Rightarrow> bytes \<Rightarrow> bytes \<times> bytes" where
  "split_left_loop i a [] s = (s, [])"
| "split_left_loop i a (c # cs) s =
     (if c \<noteq> a then split_left_loop (i + 1) a cs s else (take i s, drop (i + 1) s))"

definition split_left :: "char \<Rightarrow> bytes \<Rightarrow> bytes \<times> bytes" where
  "split_left a s = split_left_loop 0 a s s"

definition slice_remove :: "nat \<Rightarrow> bytes \<Rightarrow> bytes" where
  "slice_remove len s = (let len = (if len > length s then length s else len) in drop len s)"

fun pop_line_loop :: "nat \<Rightarrow> bytes \<Rightarrow> bytes \<Rightarrow> (bytes \<times> bytes) option" where
  "pop_line_loop i [] s = None"
| "pop_line_loop i (c # cs) s =
     (if c \<noteq> CHR 0x0A then pop_line_loop (i + 1) cs s else Some (take (i + 1) s, drop (i + 1) s))"

definition pop_line :: "bytes \<Rightarrow> (bytes \<times> bytes) option" where
  "pop_line s = pop_line_loop 0 s s"

definition strippable :: "char \<Rightarrow> bool" where
  "strippable c = (c = CHR '' '' \<or> c = CHR 0x0A \<or> c = CHR 0x0D)"

definition rstrip :: "bytes \<Rightarrow> bytes" where
  "rstrip s = rev (dropWhile strippable (rev s))"

definition as_string :: "int \<Rightarrow> bytes option \<Rightarrow> exn + bytes" where
  "as_string dflt s = (case s of Some b \<Rightarrow> Inr b
     | None \<Rightarrow> (if dflt = 1 then Inr ''<empty>'' else if dflt \<noteq> 0 then Inl NoData else Inr []))"

lemma slice_remove_drop [simp]: "slice_remove n s = drop n s"
  by (simp add: slice_remove_def)

lemma split_left_loop_eq:
  "s = pre @ cs \<Longrightarrow> i = length pre \<Longrightarrow> a \<notin> set pre \<Longrightarrow>
   split_left_loop i a cs s = (takeWhile (\<lambda>c. c \<noteq> a) s, tl (dropWhile (\<lambda>c. c \<noteq> a) s))"
proof (induction i a cs s arbitrary: pre rule: split_left_loop.induct)
  case (1 i a s)
  then have "takeWhile (\<lambda>c. c \<noteq> a) s = s" and "dropWhile (\<lambda>c. c \<noteq> a) s = []"
    by (auto simp: takeWhile_eq_all_conv dropWhile_eq_Nil_conv)
  then show ?case by (metis split_left_loop.simps(1) list.sel(2))
next
  case (2 i a c cs s)
  show ?case
  proof (cases "c = a")
    case True
    with "2.prems" show ?thesis
      by (auto simp: takeWhile_append dropWhile_append)
  next
    case False
    with "2.prems" "2.IH" [of "pre @ [c]"] show ?thesis by simp
  qed
qed

lemma split_left_eq:
  "split_left a s = (takeWhile (\<lambda>c. c \<noteq> a) s, tl (dropWhile (\<lambda>c. c \<noteq> a) s))"
  unfolding split_left_def by (rule split_left_loop_eq [where pre = "[]"]) simp_all

lemma pop_line_loop_eq:
  "s = pre @ cs \<Longrightarrow> i = length pre \<Longrightarrow>
   pop_line_loop i cs s =
     (if CHR 0x0A \<in> set cs
      then Some (pre @ takeWhile (\<lambda>c. c \<noteq> CHR 0x0A) cs @ [CHR 0x0A],
                 tl (dropWhile (\<lambda>c. c \<noteq> CHR 0x0A) cs))
      else None)"
proof (induction i cs s arbitrary: pre rule: pop_line_loop.induct)
  case (1 i s)
  then show ?case by simp
next
  case (2 i c cs s)
  show ?case
  proof (cases "c = CHR 0x0A")
    case True
    with "2.prems" show ?thesis by simp
  next
    case False
    with "2.prems" "2.IH" [of "pre @ [c]"] show ?thesis by auto
  qed
qed

text \<open>The characteristic equation of \<^verbatim>\<open>pop_line\<close>: it splits off everything up to and with the
  first line feed, and leaves the view alone when there is none.\<close>

lemma pop_line_eq:
  "pop_line s =
     (if CHR 0x0A \<in> set s
      then Some (takeWhile (\<lambda>c. c \<noteq> CHR 0x0A) s @ [CHR 0x0A],
                 tl (dropWhile (\<lambda>c. c \<noteq> CHR 0x0A) s))
      else None)"
  unfolding pop_line_def using pop_line_loop_eq [of s "[]" s 0] by simp

lemma pop_line_line: "CHR 0x0A \<notin> set l \<Longrightarrow> pop_line (l @ CHR 0x0A # r) = Some (l @ [CHR 0x0A], r)"
  by (auto simp: pop_line_eq takeWhile_append dropWhile_append)

lemma pop_line_None [simp]: "pop_line s = None \<longleftrightarrow> CHR 0x0A \<notin> set s"
  by (simp add: pop_line_eq)

lemma pop_line_Some:
  "pop_line s = Some (l, r) \<longleftrightarrow> (\<exists>k. s = k @ CHR 0x0A # r \<and> l = k @ [CHR 0x0A] \<and> CHR 0x0A \<notin> set k)"
proof
  assume "pop_line s = Some (l, r)"
  then have "CHR 0x0A \<in> set s" and l: "l = takeWhile (\<lambda>c. c \<noteq> CHR 0x0A) s @ [CHR 0x0A]"
    and r: "r = tl (dropWhile (\<lambda>c. c \<noteq> CHR 0x0A) s)"
    by (auto simp: pop_line_eq split: if_splits)
  then obtain k t where s: "s = k @ CHR 0x0A # t" and k: "CHR 0x0A \<notin> set k"
    by (metis split_list_first)
  from k show "\<exists>k. s = k @ CHR 0x0A # r \<and> l = k @ [CHR 0x0A] \<and> CHR 0x0A \<notin> set k"
    unfolding l r s by (intro exI [of _ k]) (auto simp: takeWhile_append dropWhile_append)
next
  assume "\<exists>k. s = k @ CHR 0x0A # r \<and> l = k @ [CHR 0x0A] \<and> CHR 0x0A \<notin> set k"
  then show "pop_line s = Some (l, r)" by (auto simp: pop_line_line)
qed

lemma pop_line_shorter: "pop_line s = Some (l, r) \<Longrightarrow> length r < length s"
  by (auto simp: pop_line_Some)

lemma pop_line_append: "pop_line s = Some (l, r) \<Longrightarrow> pop_line (s @ t) = Some (l, r @ t)"
  by (auto simp: pop_line_Some)

lemma rstrip_append_strippable: "strippable c \<Longrightarrow> rstrip (s @ [c]) = rstrip s"
  by (simp add: rstrip_def)

lemma rstrip_id: "s = [] \<or> \<not> strippable (last s) \<Longrightarrow> rstrip s = s"
  by (cases s rule: rev_cases) (auto simp: rstrip_def)

end
