(* ===== verification/Buffers.thy ===== *)
theory Buffers imports Slices "HOL-Library.While_Combinator" begin

text \<open>
  \<^verbatim>\<open>Buffer\<close> of src/buffer.h: a growable byte array on the heap.

  \<open>b_data\<close> holds the first \<^verbatim>\<open>_size\<close> bytes, \<open>b_cap\<close> is \<^verbatim>\<open>_cap\<close>, and \<open>b_block\<close> is the size of
  the block \<^verbatim>\<open>_ptr\<close> points to, \<open>None\<close> for the null pointer. A write past the block is a \<open>Fault\<close>.
  The argument \<open>ok\<close> of the operations that allocate says for which sizes \<^verbatim>\<open>malloc\<close> and
  \<^verbatim>\<open>realloc\<close> succeed.
\<close>

record buffer =
  b_data :: bytes
  b_cap :: int
  b_block :: "int option"

definition b_size :: "buffer \<Rightarrow> int" where
  "b_size b = int (length (b_data b))"

definition empty_buffer :: buffer where
  "empty_buffer = \<lparr>b_data = [], b_cap = 0, b_block = None\<rparr>"

section \<open>Growing\<close>

definition get_cap :: "int \<Rightarrow> int" where
  "get_cap sz = fst (while (\<lambda>(cap, step). cap < sz)
     (\<lambda>(cap, step). (cap + step, if step < 4096 then step * 2 else step)) (16, 16))"

definition resize :: "(int \<Rightarrow> bool) \<Rightarrow> int \<Rightarrow> (buffer, unit) prog" where
  "resize ok capacity = (\<lambda>b.
     case b_block b of
       None \<Rightarrow>
         (let c = get_cap capacity; b = b\<lparr>b_cap := c\<rparr>
          in if ok c then (Inr (), b\<lparr>b_block := Some c\<rparr>) else (Inl (Thrown ''No memory''), b))
     | Some _ \<Rightarrow>
         (if capacity > b_cap b
          then (let c = get_cap capacity; b = b\<lparr>b_cap := c\<rparr>
                in if ok c then (Inr (), b\<lparr>b_block := Some c\<rparr>)
                   else (Inl (Thrown ''Realloc error''), b))
          else (Inr (), b)))"

text \<open>Bytes stored from position \<^verbatim>\<open>_size\<close> on, with \<^verbatim>\<open>_size\<close> advanced past them.\<close>

definition store_end :: "bytes \<Rightarrow> (buffer, unit) prog" where
  "store_end xs = (\<lambda>b.
     if xs = [] then (Inr (), b)
     else (case b_block b of None \<Rightarrow> (Inl Fault, b)
       | Some n \<Rightarrow> (if b_size b + int (length xs) \<le> n
                   then (Inr (), b\<lparr>b_data := b_data b @ xs\<rparr>) else (Inl Fault, b))))"

section \<open>Adding\<close>

definition buf_add :: "(int \<Rightarrow> bool) \<Rightarrow> bytes option \<Rightarrow> (buffer, unit) prog" where
  "buf_add ok buf = (case buf of
     None \<Rightarrow> throw NoData
   | Some xs \<Rightarrow> (\<lambda>b. thn (resize ok (b_size b + int (length xs))) (store_end xs) b))"

fun buf_add_lit :: "(int \<Rightarrow> bool) \<Rightarrow> bytes \<Rightarrow> (buffer, unit) prog" where
  "buf_add_lit ok [] = ret ()"
| "buf_add_lit ok (c # cs) =
     thn (\<lambda>b. if b_size b \<ge> b_cap b then resize ok (b_size b + 1) b else (Inr (), b))
    (thn (store_end [c]) (buf_add_lit ok cs))"

text \<open>
  \<^verbatim>\<open>add_number\<close> fills the local \<^verbatim>\<open>char s[20]\<close> from its end: \<open>acc\<close> is what has been written so
  far, \<^verbatim>\<open>s[i+1..19]\<close>. C division truncates towards zero, so the digit of a negative \<open>n\<close> would be
  negative; that happens for the one number \<^verbatim>\<open>n = -n\<close> leaves negative.
\<close>

definition c_div :: "int \<Rightarrow> int \<Rightarrow> int" where
  "c_div a b = sgn a * sgn b * (\<bar>a\<bar> div \<bar>b\<bar>)"

definition c_mod :: "int \<Rightarrow> int \<Rightarrow> int" where
  "c_mod a b = a - c_div a b * b"

function digits_loop :: "int \<Rightarrow> bytes \<Rightarrow> bytes" where
  "digits_loop n acc =
     (if n \<noteq> 0 then digits_loop (c_div n 10) (char_of_int (c_mod n 10 + schar CHR ''0'') # acc)
      else acc)"
  by pat_completeness auto
termination
  by (relation "measure (\<lambda>(n, acc). nat \<bar>n\<bar>)") (auto simp: c_div_def abs_mult)

declare digits_loop.simps [simp del]

definition number_bytes :: "int \<Rightarrow> bytes" where
  "number_bytes n =
     (let negative = n < 0;
          acc = (if n = 0 then ''0'' else []);
          n = (if n < 0 then to_i64 (- n) else n);
          acc = digits_loop n acc
      in if negative then CHR ''-'' # acc else acc)"

definition buf_add_number :: "(int \<Rightarrow> bool) \<Rightarrow> int \<Rightarrow> (buffer, unit) prog" where
  "buf_add_number ok n = (\<lambda>b.
     thn (resize ok (b_size b + 20))
         (if length (number_bytes n) > 20 then throw Fault
          else buf_add ok (Some (number_bytes n))) b)"

function hex_loop :: "64 word \<Rightarrow> bytes \<Rightarrow> bytes" where
  "hex_loop n acc =
     (if n \<noteq> 0 then hex_loop (drop_bit 4 n) (''0123456789abcdef'' ! unat (and n 15) # acc) else acc)"
  by pat_completeness auto
termination
proof (relation "measure (\<lambda>(n, acc). unat n)", goal_cases)
  case (2 n acc)
  then have "0 < unat n" by (simp add: unat_gt_0)
  moreover have "unat (drop_bit 4 n) = unat n div 16"
    unfolding unat_drop_bit_eq by (simp add: drop_bit_eq_div)
  ultimately show ?case by simp
qed simp

declare hex_loop.simps [simp del]

definition hex_bytes :: "64 word \<Rightarrow> bytes" where
  "hex_bytes n = (if n = 0 then ''0'' else hex_loop n [])"

definition buf_add_hex :: "(int \<Rightarrow> bool) \<Rightarrow> 64 word \<Rightarrow> (buffer, unit) prog" where
  "buf_add_hex ok n =
     (if length (hex_bytes n) > 16 then throw Fault else buf_add ok (Some (hex_bytes n)))"

section \<open>Removing and moving\<close>

definition buf_clear :: "buffer \<Rightarrow> buffer" where
  "buf_clear b = b\<lparr>b_data := []\<rparr>"

definition buf_set :: "(int \<Rightarrow> bool) \<Rightarrow> bytes option \<Rightarrow> (buffer, unit) prog" where
  "buf_set ok buf = thn (modify buf_clear) (buf_add ok buf)"

definition buf_remove_left :: "int \<Rightarrow> buffer \<Rightarrow> buffer" where
  "buf_remove_left n b =
     (if n \<le> 0 then b
      else if b_size b \<le> n then b\<lparr>b_data := []\<rparr>
      else b\<lparr>b_data := drop (nat n) (b_data b)\<rparr>)"

text \<open>\<^verbatim>\<open>dst.move(src)\<close> swaps the blocks and takes over the size, leaving \<^verbatim>\<open>src\<close> empty.\<close>

definition buf_move :: "buffer \<times> buffer \<Rightarrow> buffer \<times> buffer" where
  "buf_move p = (case p of (dst, src) \<Rightarrow>
     (\<lparr>b_data = b_data src, b_cap = b_cap src, b_block = b_block src\<rparr>,
      \<lparr>b_data = [], b_cap = b_cap dst, b_block = b_block dst\<rparr>))"

section \<open>Capacity and well-formed buffers\<close>

lemma get_cap_props: "sz \<le> get_cap sz \<and> 16 \<le> get_cap sz \<and> get_cap sz \<le> max 16 (sz + 4095)"
  unfolding get_cap_def
  by (rule while_rule [where
        P = "\<lambda>(cap, step). 16 \<le> cap \<and> cap \<le> max 16 (sz + 4095) \<and>
               step \<in> {16, 32, 64, 128, 256, 512, 1024, 2048, 4096}" and
        r = "measure (\<lambda>(cap, step). nat (sz - cap))"])
     (auto split: prod.splits)

definition wf_buffer :: "buffer \<Rightarrow> bool" where
  "wf_buffer b = (case b_block b of
     None \<Rightarrow> b_cap b = 0 \<and> b_data b = []
   | Some n \<Rightarrow> b_cap b = n \<and> b_size b \<le> n)"

lemma wf_empty_buffer [simp]: "wf_buffer empty_buffer"
  by (simp add: wf_buffer_def empty_buffer_def)

lemma wf_buffer_clear [simp]: "wf_buffer b \<Longrightarrow> wf_buffer (buf_clear b)"
  by (auto simp: wf_buffer_def buf_clear_def b_size_def split: option.splits)

lemma wf_buffer_remove_left [simp]: "wf_buffer b \<Longrightarrow> wf_buffer (buf_remove_left n b)"
  by (auto simp: wf_buffer_def buf_remove_left_def b_size_def split: option.splits)

lemma buf_remove_left_data [simp]: "b_data (buf_remove_left n b) = drop (nat n) (b_data b)"
  by (simp add: buf_remove_left_def b_size_def)

lemma wf_buffer_move:
  "buf_move (dst, src) = (dst', src') \<Longrightarrow> wf_buffer dst \<Longrightarrow> wf_buffer src \<Longrightarrow>
   wf_buffer dst' \<and> wf_buffer src' \<and> b_data dst' = b_data src \<and> b_data src' = []"
  by (auto simp: buf_move_def wf_buffer_def b_size_def split: option.splits)

text \<open>Growing makes room for what was asked and changes no byte.\<close>

lemma resize_ok:
  assumes "wf_buffer b" and "\<And>c. ok c" and "0 \<le> n"
  obtains b' k where "resize ok n b = (Inr (), b')" and "wf_buffer b'" and "b_data b' = b_data b"
    and "b_block b' = Some k" and "n \<le> k"
proof (cases "b_block b")
  case None
  with assms get_cap_props [of n] show ?thesis
    by (intro that [of "b\<lparr>b_cap := get_cap n, b_block := Some (get_cap n)\<rparr>" "get_cap n"])
       (auto simp: resize_def wf_buffer_def Let_def b_size_def)
next
  case (Some m)
  show ?thesis
  proof (cases "n > b_cap b")
    case True
    with Some assms get_cap_props [of n] show ?thesis
      by (intro that [of "b\<lparr>b_cap := get_cap n, b_block := Some (get_cap n)\<rparr>" "get_cap n"])
         (auto simp: resize_def wf_buffer_def Let_def b_size_def)
  next
    case False
    with Some assms show ?thesis
      by (intro that [of b m]) (auto simp: resize_def wf_buffer_def)
  qed
qed

lemma store_end_ok:
  assumes "wf_buffer b" and "b_block b = Some k" and "b_size b + int (length xs) \<le> k"
  shows "\<exists>b'. store_end xs b = (Inr (), b') \<and> wf_buffer b' \<and> b_data b' = b_data b @ xs"
  using assms by (auto simp: store_end_def wf_buffer_def b_size_def)

lemma buf_add_ok:
  assumes "wf_buffer b" and "\<And>c. ok c"
  shows "\<exists>b'. buf_add ok (Some xs) b = (Inr (), b') \<and> wf_buffer b' \<and> b_data b' = b_data b @ xs"
proof -
  have "0 \<le> b_size b + int (length xs)" by (simp add: b_size_def)
  from assms this obtain b1 k where
    r: "resize ok (b_size b + int (length xs)) b = (Inr (), b1)" and wf: "wf_buffer b1"
    and d: "b_data b1 = b_data b" and k: "b_block b1 = Some k" "b_size b + int (length xs) \<le> k"
    by (rule resize_ok)
  from k(2) d have "b_size b1 + int (length xs) \<le> k" by (simp add: b_size_def)
  from store_end_ok [OF wf k(1) this] r d show ?thesis by (simp add: buf_add_def thn_run)
qed

lemma buf_add_lit_ok:
  assumes "\<And>c. ok c"
  shows "wf_buffer b \<Longrightarrow>
    \<exists>b'. buf_add_lit ok cs b = (Inr (), b') \<and> wf_buffer b' \<and> b_data b' = b_data b @ cs"
proof (induction cs arbitrary: b)
  case Nil
  then show ?case by simp
next
  case (Cons c cs)
  have "\<exists>b1 k. (if b_size b \<ge> b_cap b then resize ok (b_size b + 1) b else (Inr (), b)) = (Inr (), b1)
      \<and> wf_buffer b1 \<and> b_data b1 = b_data b \<and> b_block b1 = Some k \<and> b_size b1 + 1 \<le> k"
  proof (cases "b_size b \<ge> b_cap b")
    case True
    have "0 \<le> b_size b + 1" by (simp add: b_size_def)
    with Cons.prems assms obtain b1 k where
      "resize ok (b_size b + 1) b = (Inr (), b1)" "wf_buffer b1" "b_data b1 = b_data b"
      "b_block b1 = Some k" "b_size b + 1 \<le> k"
      by (rule resize_ok)
    with True show ?thesis by (auto simp: b_size_def)
  next
    case False
    with Cons.prems show ?thesis
      by (cases "b_block b") (auto simp: wf_buffer_def b_size_def)
  qed
  then obtain b1 k where
    r: "(if b_size b \<ge> b_cap b then resize ok (b_size b + 1) b else (Inr (), b)) = (Inr (), b1)"
    and wf: "wf_buffer b1" and d: "b_data b1 = b_data b"
    and k: "b_block b1 = Some k" "b_size b1 + int (length [c]) \<le> k"
    by auto
  from store_end_ok [OF wf k] obtain b2 where
    s: "store_end [c] b1 = (Inr (), b2)" and wf2: "wf_buffer b2" and d2: "b_data b2 = b_data b1 @ [c]"
    by blast
  from Cons.IH [OF wf2] d d2 r s show ?case by (simp add: thn_run)
qed

section \<open>The contract of a byte sink\<close>

text \<open>
  What the program's writers (responses, messages, reports) rely on: a store of bytes under an
  invariant, to which a run of bytes can be added without failing. The clients add a sequence of
  pieces; the law they use is that the pieces come out joined, in order.
\<close>

locale byte_sink =
  fixes sink_inv :: "'b \<Rightarrow> bool"
    and contents :: "'b \<Rightarrow> bytes"
    and put :: "bytes \<Rightarrow> ('b, unit) prog"
  assumes put_ok: "sink_inv b \<Longrightarrow>
    \<exists>b'. put xs b = (Inr (), b') \<and> sink_inv b' \<and> contents b' = contents b @ xs"
begin

lemma put_pieces:
  "sink_inv b \<Longrightarrow> \<exists>b'. for_each pieces put b = (Inr (), b') \<and> sink_inv b' \<and>
     contents b' = contents b @ concat pieces"
proof (induction pieces arbitrary: b)
  case Nil
  then show ?case by simp
next
  case (Cons xs pieces)
  from put_ok [OF Cons.prems] obtain b1 where
    "put xs b = (Inr (), b1)" "sink_inv b1" "contents b1 = contents b @ xs" by blast
  with Cons.IH [of b1] show ?case by (simp add: thn_run)
qed

lemma put_append:
  assumes "sink_inv b"
  shows "map_prod id contents (thn (put xs) (put ys) b) = map_prod id contents (put (xs @ ys) b)"
proof -
  from put_ok [OF assms] obtain b1 where
    1: "put xs b = (Inr (), b1)" "sink_inv b1" "contents b1 = contents b @ xs" by blast
  from put_ok [OF 1(2)] obtain b2 where
    2: "put ys b1 = (Inr (), b2)" "contents b2 = contents b1 @ ys" by blast
  from put_ok [OF assms] obtain b3 where
    3: "put (xs @ ys) b = (Inr (), b3)" "contents b3 = contents b @ xs @ ys" by blast
  from 1 2 3 show ?thesis by (simp add: thn_run)
qed

end

locale byte_store = byte_sink sink_inv contents put
  for sink_inv :: "'b \<Rightarrow> bool" and contents :: "'b \<Rightarrow> bytes" and put :: "bytes \<Rightarrow> ('b, unit) prog" +
  fixes wipe :: "'b \<Rightarrow> 'b"
    and shift :: "int \<Rightarrow> 'b \<Rightarrow> 'b"
  assumes wipe: "sink_inv b \<Longrightarrow> sink_inv (wipe b) \<and> contents (wipe b) = []"
    and shift: "sink_inv b \<Longrightarrow> sink_inv (shift n b) \<and> contents (shift n b) = drop (nat n) (contents b)"
begin

text \<open>A partial send followed by sending the rest sends everything, in order.\<close>

lemma shift_twice: "sink_inv b \<Longrightarrow> 0 \<le> m \<Longrightarrow> 0 \<le> n \<Longrightarrow>
  contents (shift n (shift m b)) = contents (shift (m + n) b)"
  using shift by (simp add: nat_add_distrib add.commute)

lemma sent_then_rest:
  assumes "sink_inv b" and "0 \<le> n"
  shows "take (nat n) (contents b) @ contents (shift n b) = contents b"
  using shift [OF assms(1), of n] by simp

lemma set_contents:
  assumes "sink_inv b"
  shows "\<exists>b'. put xs (wipe b) = (Inr (), b') \<and> sink_inv b' \<and> contents b' = xs"
  using put_ok [of "wipe b" xs] wipe [OF assms] by simp

end

interpretation heap: byte_store wf_buffer b_data "\<lambda>xs. buf_add (\<lambda>_. True) (Some xs)"
  buf_clear buf_remove_left
proof
  fix b :: buffer and xs
  assume "wf_buffer b"
  then show "\<exists>b'. buf_add (\<lambda>_. True) (Some xs) b = (Inr (), b') \<and> wf_buffer b' \<and> b_data b' = b_data b @ xs"
    by (rule buf_add_ok) simp
qed (simp_all, simp add: buf_clear_def)

interpretation heap_lit: byte_sink wf_buffer b_data "buf_add_lit (\<lambda>_. True)"
  by standard (rule buf_add_lit_ok, simp_all)

end
