(* ===== verification/Numerals.thy ===== *)
theory Numerals imports Buffers begin

text \<open>
  Printing and reading numbers: \<^verbatim>\<open>Buffer::add_number\<close> and \<^verbatim>\<open>ISlice::atoi\<close> are inverse on the
  \<^verbatim>\<open>i64\<close> range without its least number, \<^verbatim>\<open>Buffer::add_hex\<close> and \<^verbatim>\<open>ISlice::hextoi\<close> on all
  \<^verbatim>\<open>u64\<close> values up to the signed reading; the local arrays of both printers are large enough.
\<close>

definition digit :: "char \<Rightarrow> bool" where
  "digit c = (48 \<le> schar c \<and> schar c \<le> 57)"

lemma schar_literals [simp]:
  "schar CHR ''0'' = 48" "schar CHR ''9'' = 57" "schar CHR ''A'' = 65" "schar CHR ''F'' = 70"
  "schar CHR ''Z'' = 90" "schar CHR ''a'' = 97" "schar CHR ''f'' = 102" "schar CHR ''-'' = 45"
  by (simp_all add: schar_def)

lemma c_div_mod_nonneg: "0 \<le> n \<Longrightarrow> c_div n 10 = n div 10" "0 \<le> n \<Longrightarrow> c_mod n 10 = n mod 10"
  by (cases "n = 0"; simp add: c_div_def c_mod_def minus_div_mult_eq_mod)+

lemma schar_digit_char: "0 \<le> d \<Longrightarrow> d \<le> 9 \<Longrightarrow> schar (char_of_int (d + 48)) = d + 48"
  by (rule schar_char_of_int) simp_all

lemma digits_loop_step:
  "0 < n \<Longrightarrow> digits_loop n acc = digits_loop (n div 10) (char_of_int (n mod 10 + 48) # acc)"
  by (subst digits_loop.simps) (simp add: c_div_mod_nonneg)

lemma digits_loop_0 [simp]: "digits_loop 0 acc = acc"
  by (subst digits_loop.simps) simp

text \<open>Induction over the decimal digits of a number, as the loop consumes them.\<close>

lemma decimal_induct [consumes 1, case_names zero step]:
  assumes "0 \<le> (n::int)" and "P 0" and "\<And>n. 0 < n \<Longrightarrow> P (n div 10) \<Longrightarrow> P n"
  shows "P n"
  using assms(1)
proof (induction "nat n" arbitrary: n rule: less_induct)
  case less
  show ?case
  proof (cases "n = 0")
    case True
    with assms(2) show ?thesis by simp
  next
    case False
    with less.prems have "0 < n" by simp
    with less.hyps [of "n div 10"] assms(3) show ?thesis by simp
  qed
qed

lemma digits_loop_append: "0 \<le> n \<Longrightarrow> digits_loop n (acc @ acc') = digits_loop n acc @ acc'"
proof (induction n arbitrary: acc rule: decimal_induct)
  case zero
  then show ?case by simp
next
  case (step n)
  from step.IH [of "char_of_int (n mod 10 + 48) # acc"] show ?case
    unfolding digits_loop_step [OF step.hyps(1)] by simp
qed

lemma digits_loop_digits:
  "0 \<le> n \<Longrightarrow> \<forall>c \<in> set acc. digit c \<Longrightarrow> \<forall>c \<in> set (digits_loop n acc). digit c"
proof (induction n arbitrary: acc rule: decimal_induct)
  case zero
  then show ?case by simp
next
  case (step n)
  from step.prems have "\<forall>c \<in> set (char_of_int (n mod 10 + 48) # acc). digit c"
    by (simp add: schar_digit_char digit_def)
  from step.IH [OF this] show ?case unfolding digits_loop_step [OF step.hyps(1)] .
qed

lemma digits_loop_nonempty: "0 < n \<Longrightarrow> digits_loop n acc \<noteq> []"
proof -
  assume "0 < n"
  then have "digits_loop n acc = digits_loop (n div 10) ([] @ char_of_int (n mod 10 + 48) # acc)"
    unfolding digits_loop_step [OF \<open>0 < n\<close>] by simp
  also have "\<dots> = digits_loop (n div 10) [] @ char_of_int (n mod 10 + 48) # acc"
    using \<open>0 < n\<close> by (intro digits_loop_append) simp
  finally show ?thesis by simp
qed

lemma digits_loop_length:
  "0 \<le> n \<Longrightarrow> n < 10 ^ k \<Longrightarrow> length (digits_loop n acc) \<le> k + length acc"
proof (induction n arbitrary: k acc rule: decimal_induct)
  case zero
  then show ?case by simp
next
  case (step n)
  then obtain k' where k: "k = Suc k'" by (cases k) auto
  with step.prems have "n div 10 < 10 ^ k'" by auto
  with step.IH [of k' "char_of_int (n mod 10 + 48) # acc"] k
  show ?case unfolding digits_loop_step [OF step.hyps(1)] by simp
qed

lemma atoi_loop_digits:
  "0 \<le> n \<Longrightarrow> n < 2 ^ 63 \<Longrightarrow> atoi_loop (digits_loop n acc) 0 = atoi_loop acc n"
proof (induction n arbitrary: acc rule: decimal_induct)
  case zero
  then show ?case by simp
next
  case (step n)
  have d: "0 \<le> n mod 10" "n mod 10 \<le> 9" by simp_all
  have "to_i8 (n mod 10) = n mod 10" using d by (intro to_i8_id) simp_all
  moreover have "to_i64 (n div 10 * 10 + n mod 10) = n"
    using step.prems step.hyps by (subst to_i64_id) simp_all
  ultimately have "atoi_loop (char_of_int (n mod 10 + 48) # acc) (n div 10) = atoi_loop acc n"
    using d by (simp add: schar_digit_char Let_def not_less [symmetric])
  with step show ?case unfolding digits_loop_step [OF step.hyps(1)] by simp
qed

lemma atoi_digits:
  assumes "s \<noteq> []" and "\<forall>c \<in> set s. digit c"
  shows "atoi s = atoi_loop s 0"
  using assms by (auto simp: atoi_def digit_def simp del: atoi_loop.simps split: list.splits)

lemma number_bytes_pos:
  "0 < n \<Longrightarrow> number_bytes n = digits_loop n []"
  by (simp add: number_bytes_def)

lemma number_bytes_neg:
  "n < 0 \<Longrightarrow> - (2 ^ 63) < n \<Longrightarrow> number_bytes n = CHR ''-'' # digits_loop (- n) []"
  by (simp add: number_bytes_def to_i64_id)

lemma atoi_number_bytes_pos:
  assumes "0 < n" and "n < 2 ^ 63"
  shows "atoi (number_bytes n) = Inr n"
proof -
  have "atoi (digits_loop n []) = atoi_loop (digits_loop n []) 0"
    using assms digits_loop_nonempty [of n "[]"] digits_loop_digits [of n "[]"]
    by (intro atoi_digits) auto
  also have "\<dots> = Inr n" using assms atoi_loop_digits [of n "[]"] by simp
  finally show ?thesis using assms by (simp add: number_bytes_pos)
qed

lemma atoi_number_bytes:
  assumes "- (2 ^ 63) < n" and "n < 2 ^ 63"
  shows "atoi (number_bytes n) = Inr n"
proof (cases n "0 :: int" rule: linorder_cases)
  case less
  have "atoi_loop (digits_loop (- n) []) 0 = Inr (- n)"
    using less assms(1) atoi_loop_digits [of "- n" "[]"] by simp
  moreover have "digits_loop (- n) [] \<noteq> []" using less digits_loop_nonempty [of "- n"] by simp
  moreover have "to_i64 (- (- n)) = n" using less assms by (subst to_i64_id) simp_all
  ultimately show ?thesis
    using less assms(1) by (auto simp: number_bytes_neg atoi_def Suc_le_eq)
next
  case equal
  then show ?thesis by (simp add: number_bytes_def atoi_def wrap_signed_def)
next
  case greater
  with assms show ?thesis by (simp add: atoi_number_bytes_pos)
qed

lemma number_bytes_line:
  assumes "- (2 ^ 63) < n" and "n < 2 ^ 63"
  shows "number_bytes n \<noteq> [] \<and> (\<forall>a \<in> set (number_bytes n). digit a \<or> a = CHR ''-'')"
proof (cases n "0 :: int" rule: linorder_cases)
  case less
  with assms show ?thesis using digits_loop_digits [of "- n" "[]"] by (auto simp: number_bytes_neg)
next
  case equal
  then show ?thesis by (simp add: number_bytes_def digit_def schar_def)
next
  case greater
  with assms show ?thesis
    using digits_loop_digits [of n "[]"] digits_loop_nonempty [of n] by (auto simp: number_bytes_pos)
qed

text \<open>
  For every \<^verbatim>\<open>i64\<close> number but the least one, reading back what \<^verbatim>\<open>add_number\<close> prints gives
  the number: \<^verbatim>\<open>atoi\<close> after \<^verbatim>\<open>add_number\<close> is the identity.
\<close>

theorem atoi_add_number:
  assumes "- (2 ^ 63) < n" and "n < 2 ^ 63"
  shows "atoi (number_bytes n) = Inr n"
  using assms by (rule atoi_number_bytes)

theorem atoi_add_number_witness:
  "- (2 ^ 63) < (- 1205 :: int) \<and> atoi (number_bytes (- 1205)) = Inr (- 1205)"
  using atoi_add_number [of "- 1205"] by simp

lemma add_number_ok:
  assumes "- (2 ^ 63) \<le> n" and "n < 2 ^ 63" and "wf_buffer b"
  shows "length (number_bytes n) \<le> 20 \<and>
    (\<exists>b'. buf_add_number (\<lambda>_. True) n b = (Inr (), b') \<and> wf_buffer b' \<and>
          b_data b' = b_data b @ number_bytes n)"
proof -
  have len: "length (number_bytes n) \<le> 20"
  proof (cases n "0 :: int" rule: linorder_cases)
    case less
    show ?thesis
    proof (cases "n = - (2 ^ 63)")
      case True
      have "length (number_bytes (- (2 ^ 63))) \<le> 20" by code_simp
      with True show ?thesis by simp
    next
      case False
      with less assms show ?thesis
        using digits_loop_length [of "- n" 19 "[]"] by (simp add: number_bytes_neg)
    qed
  next
    case equal
    then show ?thesis by (simp add: number_bytes_def)
  next
    case greater
    with assms show ?thesis
      using digits_loop_length [of n 19 "[]"] by (simp add: number_bytes_pos)
  qed
  have "0 \<le> b_size b + 20" by (simp add: b_size_def)
  from assms(3) _ this obtain b1 k where
    r: "resize (\<lambda>_. True) (b_size b + 20) b = (Inr (), b1)" and wf: "wf_buffer b1"
    and d: "b_data b1 = b_data b"
    by (rule resize_ok) simp
  from heap.put_ok [OF wf, of "number_bytes n"] d r len show ?thesis
    by (simp add: buf_add_number_def thn_run)
qed

text \<open>
  The local array \<^verbatim>\<open>char s[20]\<close> of \<^verbatim>\<open>add_number\<close> is never overrun: any \<^verbatim>\<open>i64\<close> number
  prints to at most 20 bytes, and the printed number is added to the buffer behind what it held.
\<close>

theorem add_number_fits:
  assumes "- (2 ^ 63) \<le> n" and "n < 2 ^ 63" and "wf_buffer b"
  shows "length (number_bytes n) \<le> 20 \<and>
    (\<exists>b'. buf_add_number (\<lambda>_. True) n b = (Inr (), b') \<and> wf_buffer b' \<and>
          b_data b' = b_data b @ number_bytes n)"
  using assms by (rule add_number_ok)

theorem add_number_fits_witness:
  "length (number_bytes (- (2 ^ 63))) \<le> 20"
  using add_number_fits [of "- (2 ^ 63)" empty_buffer] by simp

section \<open>Hexadecimal\<close>

lemma hex_loop_0 [simp]: "hex_loop 0 acc = acc"
  by (subst hex_loop.simps) simp

lemma hex_loop_step:
  "n \<noteq> 0 \<Longrightarrow> hex_loop n acc =
     hex_loop (drop_bit 4 n) (''0123456789abcdef'' ! unat (and n 15) # acc)"
  by (subst hex_loop.simps) simp

lemma unat_less_2p: "unat (n :: 64 word) < 2 ^ 64"
  using unsigned_less [of n, where 'a = nat] by simp

lemma unat_and_15: "unat (and n (15 :: 64 word)) = unat n mod 16"
proof -
  have "and n 15 = take_bit 4 n" by (simp add: take_bit_eq_mask mask_eq_exp_minus_1)
  then have "unat (and n 15) = take_bit 4 (unat n)" by (simp only: unsigned_take_bit_eq)
  then show ?thesis by (simp add: take_bit_eq_mod)
qed

lemma unat_drop_4: "unat (drop_bit 4 (n :: 64 word)) = unat n div 16"
  unfolding unat_drop_bit_eq by (simp add: drop_bit_eq_div)

lemma hextoi_hex_digit:
  assumes "d < 16"
  shows "hextoi_loop (''0123456789abcdef'' ! d # acc) v = hextoi_loop acc (to_i64 (v * 16 + int d))"
proof -
  from assms have "d \<in> {0, 1, 2, 3, 4, 5, 6, 7, 8, 9, 10, 11, 12, 13, 14, 15}"
    unfolding insert_iff empty_iff by presburger
  then show ?thesis by (elim insertE emptyE) (simp_all add: schar_def add.commute)
qed

lemma hextoi_loop_hex:
  "hextoi_loop (hex_loop n acc) 0 = hextoi_loop acc (to_i64 (uint n))"
proof (induction n acc rule: hex_loop.induct)
  case (1 n acc)
  show ?case
  proof (cases "n = 0")
    case True
    then show ?thesis by (simp add: wrap_signed_def)
  next
    case False
    have u: "\<And>m :: 64 word. uint m = int (unat m)" by simp
    have lt: "uint n < 18446744073709551616" using unsigned_less [of n, where 'a = int] by simp
    have eq: "uint (drop_bit 4 n) = uint n div 16" unfolding u unat_drop_4 zdiv_int by simp
    have "to_i64 (uint n div 16) = uint n div 16"
      using lt unsigned_greater_eq [of n, where 'a = int] by (intro to_i64_id) linarith+
    moreover have "uint n div 16 * 16 + int (unat n mod 16) = uint n"
      unfolding u zmod_int by simp
    ultimately show ?thesis
      using "1.IH" [OF False] eq
      unfolding hex_loop_step [OF False] unat_and_15 by (simp add: hextoi_hex_digit del: hextoi_loop.simps)
  qed
qed

lemma hex_loop_length: "unat n < 16 ^ k \<Longrightarrow> length (hex_loop n acc) \<le> k + length acc"
proof (induction n acc arbitrary: k rule: hex_loop.induct)
  case (1 n acc)
  show ?case
  proof (cases "n = 0")
    case True
    then show ?thesis by simp
  next
    case False
    then have "0 < unat n" by (simp add: unat_gt_0)
    with "1.prems" obtain k' where k: "k = Suc k'" by (cases k) auto
    with "1.prems" have "unat (drop_bit 4 n) < 16 ^ k'" by (simp add: unat_drop_4 less_mult_imp_div_less mult.commute)
    from "1.IH" [OF False this] k show ?thesis unfolding hex_loop_step [OF False] by simp
  qed
qed

lemma hex_loop_nonempty: "acc \<noteq> [] \<Longrightarrow> hex_loop n acc \<noteq> []"
proof (induction n acc rule: hex_loop.induct)
  case (1 n acc)
  then show ?case by (cases "n = 0") (simp_all add: hex_loop_step)
qed

lemma hextoi_hex_bytes:
  "hextoi (hex_bytes n) = Inr (to_i64 (uint n)) \<and> length (hex_bytes n) \<le> 16"
proof (cases "n = 0")
  case True
  then show ?thesis by (simp add: hex_bytes_def hextoi_def wrap_signed_def)
next
  case False
  have "hex_loop n [] \<noteq> []"
    using False hex_loop_nonempty by (simp add: hex_loop_step)
  moreover have "unat n < 16 ^ 16" using unat_less_2p [of n] by simp
  ultimately show ?thesis
    using False hextoi_loop_hex [of n "[]"] hex_loop_length [of n 16 "[]"]
    by (simp add: hex_bytes_def hextoi_def)
qed

end
