(* ===== verification/Mapper.thy ===== *)
theory Mapper imports Slices begin

text \<open>
  src/mapper.h and src/mapper.cpp: the index from queue names to queue numbers.

  The index is a trie of \<^verbatim>\<open>Step\<close> nodes in one array; node \<open>n\<close> (counted from 1) lives at position
  \<open>n - 1\<close>. A name ending in \<open>*\<close> is a pattern: it matches every name that continues its prefix.
  \<open>m_abuf\<close> is the published array that \<^verbatim>\<open>find\<close> reads without a lock, \<open>m_buf_t\<close> the grown copy an
  \<^verbatim>\<open>add\<close> in progress writes to, and \<open>m_free\<close> the arrays handed to \<^verbatim>\<open>Server::_free_list\<close>. The 16-bit
  node numbers are naturals reduced modulo \<open>65536\<close> where the code narrows. An array access outside
  the allocated array is a \<open>Fault\<close>, and taking the mutex a second time a \<open>Deadlock\<close>.
  Allocation is assumed to succeed.
\<close>

section \<open>The array of nodes\<close>

record step =
  s_end :: nat
  s_std :: nat
  s_k :: "nat \<Rightarrow> nat"

record mapper =
  m_locked :: bool
  m_abuf :: "step list"
  m_buf_t :: "step list option"
  m_size :: nat
  m_cap :: nat
  m_free :: "step list list"

definition zero_step :: step where
  "zero_step = \<lparr>s_end = 0, s_std = 0, s_k = (\<lambda>_. 0)\<rparr>"

definition new_mapper :: mapper where
  "new_mapper = \<lparr>m_locked = False, m_abuf = replicate 4 zero_step, m_buf_t = None,
     m_size = 1, m_cap = 4, m_free = []\<rparr>"

text \<open>\<^verbatim>\<open>u16 a = name.ptr()[i]\<close>: the signed byte is sign-extended.\<close>

definition u16_of_char :: "char \<Rightarrow> nat" where
  "u16_of_char c = nat (schar c mod 65536)"

definition table :: "mapper \<Rightarrow> step list" where
  "table m = (case m_buf_t m of None \<Rightarrow> m_abuf m | Some p \<Rightarrow> p)"

definition at :: "step list \<Rightarrow> nat \<Rightarrow> step option" where
  "at t n = (if 1 \<le> n \<and> n \<le> length t then Some (t ! (n - 1)) else None)"

definition get_step_t :: "nat \<Rightarrow> (mapper, step) prog" where
  "get_step_t n = (\<lambda>m. case at (table m) n of None \<Rightarrow> (Inl Fault, m) | Some st \<Rightarrow> (Inr st, m))"

definition put_step :: "nat \<Rightarrow> (step \<Rightarrow> step) \<Rightarrow> (mapper, unit) prog" where
  "put_step n f = (\<lambda>m. case at (table m) n of
     None \<Rightarrow> (Inl Fault, m)
   | Some st \<Rightarrow> (let t = (table m)[n - 1 := f st] in
       (Inr (), case m_buf_t m of None \<Rightarrow> m\<lparr>m_abuf := t\<rparr> | Some _ \<Rightarrow> m\<lparr>m_buf_t := Some t\<rparr>)))"

definition mapper_next :: "(mapper, nat) prog" where
  "mapper_next = (\<lambda>m.
     let m = m\<lparr>m_size := m_size m + 1\<rparr>; r = m_size m mod 65536 in
     if m_size m \<le> m_cap m then (Inr r, m)
     else (let old = m_cap m;
               cap = (if old \<ge> 512 then old + 256 else old * 2);
               p = table m @ replicate (cap - old) zero_step
           in (Inr r, m\<lparr>m_cap := cap, m_buf_t := Some p\<rparr>)))"

section \<open>Operations\<close>

fun add_loop :: "bytes \<Rightarrow> nat \<Rightarrow> nat \<Rightarrow> (mapper, unit) prog" where
  "add_loop [] v nstep = put_step nstep (\<lambda>st. st\<lparr>s_end := v\<rparr>)"
| "add_loop (c # cs) v nstep =
     (let a = u16_of_char c in
      if a = u16_of_char CHR ''*'' then put_step nstep (\<lambda>st. st\<lparr>s_std := v\<rparr>)
      else if a < 32 \<or> a \<ge> 128 then throw (Thrown ''Wrong char'')
      else (let a = a - 32 in
        bnd (get_step_t nstep) (\<lambda>step.
        let nxt = s_k step a in
        if nxt = 0
        then bnd mapper_next (\<lambda>nxt.
             thn (put_step nstep (\<lambda>st. st\<lparr>s_k := (s_k st)(a := nxt)\<rparr>))
                 (add_loop cs v nxt))
        else add_loop cs v nxt)))"

definition mapper_add :: "bytes \<Rightarrow> nat \<Rightarrow> (mapper, unit) prog" where
  "mapper_add name v = (\<lambda>m.
     if m_locked m then (Inl Deadlock, m)
     else (case add_loop name v 1 (m\<lparr>m_locked := True\<rparr>) of
         (Inl e, m) \<Rightarrow> (Inl e, m)
       | (Inr _, m) \<Rightarrow>
           (let m = (case m_buf_t m of None \<Rightarrow> m
                     | Some p \<Rightarrow> m\<lparr>m_free := m_free m @ [m_abuf m], m_abuf := p, m_buf_t := None\<rparr>)
            in (Inr (), m\<lparr>m_locked := False\<rparr>))))"

fun find_loop :: "step list \<Rightarrow> bytes \<Rightarrow> nat \<Rightarrow> nat \<Rightarrow> exn + nat" where
  "find_loop t [] std n =
     (case at t n of None \<Rightarrow> Inl Fault
      | Some step \<Rightarrow>
          (let std = (if s_std step \<noteq> 0 then s_std step else std) in
           if s_end step \<noteq> 0 then Inr (s_end step) else Inr std))"
| "find_loop t (c # cs) std n =
     (case at t n of None \<Rightarrow> Inl Fault
      | Some step \<Rightarrow>
          (let std = (if s_std step \<noteq> 0 then s_std step else std); a = u16_of_char c in
           if a < 32 \<or> a \<ge> 128 then Inr std
           else (let nxt = s_k step (a - 32) in
                 if nxt = 0 then Inr std else find_loop t cs std nxt)))"

definition mapper_find :: "mapper \<Rightarrow> bytes \<Rightarrow> exn + nat" where
  "mapper_find m name = find_loop (m_abuf m) name 0 1"

fun del_loop :: "step list \<Rightarrow> bytes \<Rightarrow> nat \<Rightarrow> exn + (nat \<times> step list)" where
  "del_loop t [] n =
     (case at t n of None \<Rightarrow> Inl Fault
      | Some step \<Rightarrow> Inr (s_end step, t[n - 1 := step\<lparr>s_end := 0\<rparr>]))"
| "del_loop t (c # cs) n =
     (case at t n of None \<Rightarrow> Inl Fault
      | Some step \<Rightarrow>
          (let a = u16_of_char c in
           if a = u16_of_char CHR ''*'' then Inr (s_std step, t[n - 1 := step\<lparr>s_std := 0\<rparr>])
           else if a < 32 \<or> a \<ge> 128 then Inr (0, t)
           else (let nxt = s_k step (a - 32) in
                 if nxt = 0 then Inr (0, t) else del_loop t cs nxt)))"

definition mapper_del :: "bytes \<Rightarrow> (mapper, nat) prog" where
  "mapper_del name = (\<lambda>m. case del_loop (m_abuf m) name 1 of
     Inl e \<Rightarrow> (Inl e, m)
   | Inr (r, t) \<Rightarrow> (Inr r, m\<lparr>m_abuf := t\<rparr>))"

section \<open>What the index means\<close>

text \<open>
  \<open>exact m s\<close> is the number stored for the name \<open>s\<close> and \<open>star m p\<close> the number stored for the pattern
  \<open>p*\<close>, \<open>0\<close> for none. \<open>walk\<close> is the node a string leads to.
\<close>

definition node :: "step list \<Rightarrow> nat \<Rightarrow> step" where
  "node t n = t ! (n - 1)"

definition good_char :: "char \<Rightarrow> bool" where
  "good_char c = (32 \<le> u16_of_char c \<and> u16_of_char c < 128)"

definition kid :: "step list \<Rightarrow> nat \<Rightarrow> char \<Rightarrow> nat" where
  "kid t n c = (if good_char c then s_k (node t n) (u16_of_char c - 32) else 0)"

fun walk :: "step list \<Rightarrow> bytes \<Rightarrow> nat \<Rightarrow> nat option" where
  "walk t [] n = Some n"
| "walk t (c # cs) n = (if kid t n c = 0 then None else walk t cs (kid t n c))"

definition exact_from :: "step list \<Rightarrow> nat \<Rightarrow> bytes \<Rightarrow> nat" where
  "exact_from t n s = (case walk t s n of None \<Rightarrow> 0 | Some k \<Rightarrow> s_end (node t k))"

definition star_from :: "step list \<Rightarrow> nat \<Rightarrow> bytes \<Rightarrow> nat" where
  "star_from t n s = (case walk t s n of None \<Rightarrow> 0 | Some k \<Rightarrow> s_std (node t k))"

definition exact :: "mapper \<Rightarrow> bytes \<Rightarrow> nat" where
  "exact m = exact_from (table m) (Suc 0)"

definition star :: "mapper \<Rightarrow> bytes \<Rightarrow> nat" where
  "star m = star_from (table m) (Suc 0)"

text \<open>
  What a lookup answers: the number of the name itself, else that of the longest pattern the name
  matches, else \<open>0\<close>.
\<close>

definition pick_from :: "nat \<Rightarrow> (bytes \<Rightarrow> nat) \<Rightarrow> (bytes \<Rightarrow> nat) \<Rightarrow> bytes \<Rightarrow> nat" where
  "pick_from std ex st name = (if ex name \<noteq> 0 then ex name
     else (let ps = filter (\<lambda>p. st p \<noteq> 0) (prefixes name) in if ps = [] then std else st (last ps)))"

definition pick :: "(bytes \<Rightarrow> nat) \<Rightarrow> (bytes \<Rightarrow> nat) \<Rightarrow> bytes \<Rightarrow> nat" where
  "pick = pick_from 0"

text \<open>The invariant: the nodes in use form a tree grown upwards, and the rest of the array is zero.\<close>

definition kids_up :: "step list \<Rightarrow> nat \<Rightarrow> bool" where
  "kids_up t sz = (\<forall>n c. 0 < n \<and> n \<le> sz \<and> kid t n c \<noteq> 0 \<longrightarrow> n < kid t n c \<and> kid t n c \<le> sz)"

definition kids_inj :: "step list \<Rightarrow> nat \<Rightarrow> bool" where
  "kids_inj t sz = (\<forall>n n' c c'. 0 < n \<and> n \<le> sz \<and> 0 < n' \<and> n' \<le> sz \<and> kid t n c \<noteq> 0 \<and>
     kid t n c = kid t n' c' \<longrightarrow> n = n' \<and> c = c')"

definition fresh_zero :: "step list \<Rightarrow> nat \<Rightarrow> bool" where
  "fresh_zero t sz = (\<forall>n. sz < n \<and> n \<le> length t \<longrightarrow> node t n = zero_step)"

definition no_star_kid :: "step list \<Rightarrow> nat \<Rightarrow> bool" where
  "no_star_kid t sz = (\<forall>n. 0 < n \<and> n \<le> sz \<longrightarrow> kid t n CHR ''*'' = 0)"

definition wf_table :: "step list \<Rightarrow> nat \<Rightarrow> bool" where
  "wf_table t sz = (0 < sz \<and> sz \<le> length t \<and> kids_up t sz \<and> kids_inj t sz \<and> fresh_zero t sz \<and>
     no_star_kid t sz)"

definition wf_mapper :: "mapper \<Rightarrow> bool" where
  "wf_mapper m = (\<not> m_locked m \<and> m_buf_t m = None \<and> length (m_abuf m) = m_cap m \<and>
     wf_table (m_abuf m) (m_size m))"

lemma wf_tableD:
  assumes "wf_table t sz"
  shows "0 < sz" "sz \<le> length t" "kids_up t sz" "kids_inj t sz" "fresh_zero t sz" "no_star_kid t sz"
  using assms unfolding wf_table_def by blast+

lemma wf_mapperD:
  assumes "wf_mapper m"
  shows "\<not> m_locked m" "m_buf_t m = None" "length (m_abuf m) = m_cap m"
    "wf_table (m_abuf m) (m_size m)" "table m = m_abuf m"
  using assms unfolding wf_mapper_def table_def by auto

lemma wf_table_kid:
  assumes "wf_table t sz" and "0 < n" and "n \<le> sz" and "kid t n c \<noteq> 0"
  shows "n < kid t n c" and "kid t n c \<le> sz" and "0 < kid t n c"
  using wf_tableD(3) [OF assms(1)] assms(2-4) unfolding kids_up_def by auto

lemma wf_table_kid_inj:
  assumes "wf_table t sz" and "0 < n" "n \<le> sz" "0 < n'" "n' \<le> sz"
    and "kid t n c = kid t n' c'" and "kid t n c \<noteq> 0"
  shows "n = n' \<and> c = c'"
  using wf_tableD(4) [OF assms(1)] assms(2-) unfolding kids_inj_def by blast

lemma wf_table_fresh: "wf_table t sz \<Longrightarrow> sz < n \<Longrightarrow> n \<le> length t \<Longrightarrow> node t n = zero_step"
  using wf_tableD(5) unfolding fresh_zero_def by blast

lemma wf_table_star: "wf_table t sz \<Longrightarrow> 0 < n \<Longrightarrow> n \<le> sz \<Longrightarrow> kid t n CHR ''*'' = 0"
  using wf_tableD(6) unfolding no_star_kid_def by blast

lemma wf_table_at: "wf_table t sz \<Longrightarrow> 0 < n \<Longrightarrow> n \<le> sz \<Longrightarrow> at t n = Some (node t n)"
  using wf_tableD(2) by (fastforce simp: at_def node_def)

section \<open>Lookup\<close>

lemma u16_star [simp]: "u16_of_char CHR ''*'' = 42"
  by (simp add: u16_of_char_def schar_def)

lemma schar_mod_u16: "schar c mod 65536 = (if schar c < 0 then schar c + 65536 else schar c)"
proof (cases "schar c < 0")
  case True
  have "schar c mod 65536 = (schar c + 65536) mod 65536" by simp
  also have "\<dots> = schar c + 65536"
    using True schar_bounds [of c] by (intro mod_pos_pos_trivial) linarith+
  finally show ?thesis using True by simp
next
  case False
  then show ?thesis
    using schar_bounds [of c] by (simp add: mod_pos_pos_trivial)
qed

lemma u16_inj [simp]: "u16_of_char c = u16_of_char d \<longleftrightarrow> c = d"
proof
  assume eq: "u16_of_char c = u16_of_char d"
  then have "schar c mod 65536 = schar d mod 65536"
    by (simp add: u16_of_char_def eq_nat_nat_iff)
  then have "schar c = schar d"
    unfolding schar_mod_u16 using schar_bounds [of c] schar_bounds [of d] by (auto split: if_splits)
  then show "c = d" by simp
qed simp

lemma exact_from_simps:
  "exact_from t n [] = s_end (node t n)"
  "exact_from t n (c # cs) = (if kid t n c = 0 then 0 else exact_from t (kid t n c) cs)"
  by (simp_all add: exact_from_def)

lemma star_from_simps:
  "star_from t n [] = s_std (node t n)"
  "star_from t n (c # cs) = (if kid t n c = 0 then 0 else star_from t (kid t n c) cs)"
  by (simp_all add: star_from_def)

lemma pick_from_Nil:
  "pick_from std ex st [] = (if ex [] \<noteq> 0 then ex [] else if st [] \<noteq> 0 then st [] else std)"
  by (simp add: pick_from_def)

lemma pick_from_Cons:
  "pick_from std ex st (c # cs) =
     pick_from (if st [] \<noteq> 0 then st [] else std) (\<lambda>s. ex (c # s)) (\<lambda>s. st (c # s)) cs"
  by (auto simp: pick_from_def Let_def filter_map o_def last_map)

lemma pick_from_zero: "pick_from std (\<lambda>_. 0) (\<lambda>_. 0) cs = std"
  by (simp add: pick_from_def)

lemma pick_from_stop:
  assumes "kid t n c = 0"
  shows "pick_from std (exact_from t n) (star_from t n) (c # cs) =
    (if s_std (node t n) \<noteq> 0 then s_std (node t n) else std)"
proof -
  have "(\<lambda>s. exact_from t n (c # s)) = (\<lambda>_. 0)" and "(\<lambda>s. star_from t n (c # s)) = (\<lambda>_. 0)"
    using assms by (simp_all add: exact_from_simps star_from_simps)
  then show ?thesis unfolding pick_from_Cons by (simp only: pick_from_zero star_from_simps)
qed

lemma pick_from_descend:
  assumes "kid t n c \<noteq> 0"
  shows "pick_from std (exact_from t n) (star_from t n) (c # cs) =
    pick_from (if s_std (node t n) \<noteq> 0 then s_std (node t n) else std)
      (exact_from t (kid t n c)) (star_from t (kid t n c)) cs"
proof -
  have "(\<lambda>s. exact_from t n (c # s)) = exact_from t (kid t n c)"
    and "(\<lambda>s. star_from t n (c # s)) = star_from t (kid t n c)"
    using assms by (auto simp: exact_from_simps star_from_simps)
  then show ?thesis unfolding pick_from_Cons by (simp only: star_from_simps)
qed

lemma find_loop_descend:
  assumes "kid t n c \<noteq> 0" and "at t n = Some (node t n)"
  shows "find_loop t (c # cs) std n =
    find_loop t cs (if s_std (node t n) \<noteq> 0 then s_std (node t n) else std) (kid t n c)"
proof -
  from assms(1) have g: "good_char c" by (simp add: kid_def split: if_splits)
  then have b: "\<not> (u16_of_char c < 32 \<or> 128 \<le> u16_of_char c)" by (simp add: good_char_def)
  from g have k: "kid t n c = s_k (node t n) (u16_of_char c - 32)" by (simp add: kid_def)
  from assms(1) have nz: "s_k (node t n) (u16_of_char c - 32) \<noteq> 0" unfolding k .
  show ?thesis
    unfolding k find_loop.simps(2) assms(2) option.case Let_def if_not_P [OF b] if_not_P [OF nz] ..
qed

lemma find_loop_stop:
  assumes "kid t n c = 0" and "at t n = Some (node t n)"
  shows "find_loop t (c # cs) std n = Inr (if s_std (node t n) \<noteq> 0 then s_std (node t n) else std)"
proof (cases "u16_of_char c < 32 \<or> 128 \<le> u16_of_char c")
  case True
  show ?thesis unfolding find_loop.simps(2) assms(2) option.case Let_def if_P [OF True] ..
next
  case False
  with assms(1) have z: "s_k (node t n) (u16_of_char c - 32) = 0"
    by (simp add: kid_def good_char_def not_less not_le)
  show ?thesis
    unfolding find_loop.simps(2) assms(2) option.case Let_def if_not_P [OF False] if_P [OF z] ..
qed

lemma find_loop_spec:
  "wf_table t sz \<Longrightarrow> 0 < n \<Longrightarrow> n \<le> sz \<Longrightarrow>
   find_loop t cs std n = Inr (pick_from std (exact_from t n) (star_from t n) cs)"
proof (induction cs arbitrary: std n)
  case Nil
  then show ?case
    by (simp add: wf_table_at pick_from_Nil exact_from_simps star_from_simps Let_def)
next
  case (Cons c cs)
  note at = wf_table_at [OF Cons.prems]
  let ?std = "if s_std (node t n) \<noteq> 0 then s_std (node t n) else std"
  show ?case
  proof (cases "kid t n c = 0")
    case True
    from find_loop_stop [OF True at] pick_from_stop [OF True] show ?thesis by simp
  next
    case False
    note find_loop_descend [OF False at]
    also have "find_loop t cs ?std (kid t n c) =
        Inr (pick_from ?std (exact_from t (kid t n c)) (star_from t (kid t n c)) cs)"
      using wf_table_kid [OF Cons.prems False] Cons.prems(1) by (intro Cons.IH)
    finally show ?thesis unfolding pick_from_descend [OF False] .
  qed
qed

lemma mapper_find_pick:
  assumes "wf_mapper m"
  shows "mapper_find m name = Inr (pick (exact m) (star m) name)"
proof -
  have "find_loop (m_abuf m) name 0 (Suc 0) =
      Inr (pick_from 0 (exact_from (m_abuf m) (Suc 0)) (star_from (m_abuf m) (Suc 0)) name)"
    using wf_mapperD(4) [OF assms] wf_tableD(1) [OF wf_mapperD(4) [OF assms]]
    by (intro find_loop_spec) auto
  then show ?thesis
    by (simp add: mapper_find_def exact_def star_def pick_def wf_mapperD(5) [OF assms])
qed

section \<open>Walks\<close>

lemma walk_append: "walk t (s @ u) n = Option.bind (walk t s n) (walk t u)"
  by (induction s arbitrary: n) auto

lemma walk_snoc:
  "walk t (s @ [c]) n = (case walk t s n of None \<Rightarrow> None
     | Some k \<Rightarrow> if kid t k c = 0 then None else Some (kid t k c))"
  by (simp add: walk_append split: option.splits)

lemma walk_range:
  "wf_table t sz \<Longrightarrow> 0 < n \<Longrightarrow> n \<le> sz \<Longrightarrow> walk t s n = Some k \<Longrightarrow> 0 < k \<and> k \<le> sz"
proof (induction s arbitrary: n)
  case Nil
  then show ?case by simp
next
  case (Cons c s)
  from Cons.prems(4) have nz: "kid t n c \<noteq> 0" and w: "walk t s (kid t n c) = Some k"
    by (auto split: if_splits)
  note k = wf_table_kid [OF Cons.prems(1-3) nz]
  from Cons.IH [OF Cons.prems(1) k(3,2) w] show ?case .
qed

lemma walk_root_range: "wf_table t sz \<Longrightarrow> walk t s (Suc 0) = Some k \<Longrightarrow> 0 < k \<and> k \<le> sz"
  using walk_range [of t sz "Suc 0" s k] wf_tableD(1) [of t sz] by (simp add: Suc_le_eq)

text \<open>Two strings that lead to the same node are equal: the nodes form a tree.\<close>

lemma walk_inj:
  assumes wf: "wf_table t sz"
  shows "walk t s (Suc 0) = Some k \<Longrightarrow> walk t s' (Suc 0) = Some k \<Longrightarrow> s = s'"
proof (induction s arbitrary: s' k rule: rev_induct)
  case Nil
  show ?case
  proof (cases s' rule: rev_cases)
    case (snoc u d)
    with Nil.prems obtain p where p: "walk t u (Suc 0) = Some p" "kid t p d \<noteq> 0" "kid t p d = Suc 0"
      by (auto simp: walk_snoc split: option.splits if_splits)
    with walk_root_range [OF wf p(1)] wf_table_kid [OF wf, of p d] show ?thesis by auto
  qed simp
next
  case (snoc c s)
  from snoc.prems(1) obtain p where p: "walk t s (Suc 0) = Some p" "kid t p c = k" "k \<noteq> 0"
    by (auto simp: walk_snoc split: option.splits if_splits)
  note pr = walk_root_range [OF wf p(1)]
  show ?case
  proof (cases s' rule: rev_cases)
    case Nil
    with snoc.prems(2) have "k = Suc 0" by simp
    with p pr wf_table_kid [OF wf, of p c] show ?thesis by auto
  next
    case (snoc u d)
    with snoc.prems(2) obtain q where q: "walk t u (Suc 0) = Some q" "kid t q d = k"
      by (auto simp: walk_snoc split: option.splits if_splits)
    from wf_table_kid_inj [OF wf, of p q c d] p pr q walk_root_range [OF wf q(1)]
    have "p = q" "c = d" by auto
    with snoc.IH [OF p(1)] q(1) snoc show ?thesis by simp
  qed
qed

section \<open>Changes to the array\<close>

definition upd :: "step list \<Rightarrow> nat \<Rightarrow> (step \<Rightarrow> step) \<Rightarrow> step list" where
  "upd t n f = t[n - 1 := f (node t n)]"

lemma length_upd [simp]: "length (upd t n f) = length t"
  by (simp add: upd_def)

lemma node_upd:
  "0 < n \<Longrightarrow> n \<le> length t \<Longrightarrow> 0 < m \<Longrightarrow> node (upd t n f) m = (if m = n then f (node t n) else node t m)"
  by (auto simp: upd_def node_def nth_list_update)

text \<open>Changing a value leaves the tree as it is.\<close>

lemma kid_upd_value:
  assumes "0 < n" "n \<le> length t" "\<And>st. s_k (f st) = s_k st" "0 < m"
  shows "kid (upd t n f) m c = kid t m c"
  using assms by (simp add: kid_def node_upd)

lemma wf_table_cong:
  assumes wf: "wf_table t sz" and kid: "\<And>m c. 0 < m \<Longrightarrow> m \<le> sz \<Longrightarrow> kid t' m c = kid t m c"
    and len: "sz \<le> length t'" and fresh: "fresh_zero t' sz"
  shows "wf_table t' sz"
proof -
  have "kids_up t' sz" unfolding kids_up_def
  proof (intro allI impI, elim conjE)
    fix n c assume n: "0 < n" "n \<le> sz" and k: "kid t' n c \<noteq> 0"
    from wf_table_kid(1,2) [OF wf n, of c] k show "n < kid t' n c \<and> kid t' n c \<le> sz"
      unfolding kid [OF n] by blast
  qed
  moreover have "kids_inj t' sz" unfolding kids_inj_def
  proof (intro allI impI, elim conjE)
    fix n n' c c'
    assume n: "0 < n" "n \<le> sz" and n': "0 < n'" "n' \<le> sz"
      and k: "kid t' n c \<noteq> 0" "kid t' n c = kid t' n' c'"
    from wf_table_kid_inj [OF wf n n', of c c'] k show "n = n' \<and> c = c'"
      unfolding kid [OF n] kid [OF n'] by blast
  qed
  moreover have "no_star_kid t' sz"
    using wf_table_star [OF wf] kid unfolding no_star_kid_def by simp
  ultimately show ?thesis using wf_tableD(1) [OF wf] len fresh unfolding wf_table_def by simp
qed

lemma walk_cong:
  assumes wf: "wf_table t sz" and kid: "\<And>m c. 0 < m \<Longrightarrow> m \<le> sz \<Longrightarrow> kid t' m c = kid t m c"
  shows "0 < n \<Longrightarrow> n \<le> sz \<Longrightarrow> walk t' s n = walk t s n"
proof (induction s arbitrary: n)
  case (Cons c s)
  show ?case
  proof (cases "kid t n c = 0")
    case False
    from Cons.IH [OF wf_table_kid(3,2) [OF wf Cons.prems False]] kid [OF Cons.prems] show ?thesis
      by simp
  qed (simp add: kid [OF Cons.prems])
qed simp

lemma root_in: "wf_table t sz \<Longrightarrow> 0 < Suc 0 \<and> Suc 0 \<le> sz"
  using wf_tableD(1) [of t sz] by simp

lemma wf_table_upd_value:
  assumes wf: "wf_table t sz" and n: "0 < n" "n \<le> sz" and f: "\<And>st. s_k (f st) = s_k st"
  shows "wf_table (upd t n f) sz"
proof (rule wf_table_cong [OF wf])
  have n': "n \<le> length t" using n wf_tableD(2) [OF wf] by simp
  show "kid (upd t n f) m c = kid t m c" if "0 < m" for m c
    using n(1) n' f that by (rule kid_upd_value)
  show "fresh_zero (upd t n f) sz"
    using n n' wf_table_fresh [OF wf] by (auto simp: fresh_zero_def node_upd)
qed (simp add: wf_tableD(2) [OF wf])

lemma from_upd_value:
  assumes wf: "wf_table t sz" and n: "walk t pre (Suc 0) = Some n" and f: "\<And>st. s_k (f st) = s_k st"
  shows "exact_from (upd t n f) (Suc 0) s = (if s = pre then s_end (f (node t n)) else exact_from t (Suc 0) s)"
    and "star_from (upd t n f) (Suc 0) s = (if s = pre then s_std (f (node t n)) else star_from t (Suc 0) s)"
proof -
  have r: "0 < n" "n \<le> length t" using walk_root_range [OF wf n] wf_tableD(2) [OF wf] by auto
  have w: "walk (upd t n f) s (Suc 0) = walk t s (Suc 0)" for s
    using root_in [OF wf] kid_upd_value [OF r f] by (intro walk_cong [OF wf]) auto
  have eq: "node (upd t n f) k = (if s = pre then f (node t n) else node t k)"
    if k: "walk t s (Suc 0) = Some k" for s k
  proof -
    have "k = n \<Longrightarrow> s = pre" by (rule walk_inj [OF wf k]) (simp add: n)
    moreover have "s = pre \<Longrightarrow> k = n" using k n by simp
    ultimately have "k = n \<longleftrightarrow> s = pre" by blast
    with walk_root_range [OF wf k] r show ?thesis by (simp add: node_upd)
  qed
  have other: "s \<noteq> pre" if "walk t s (Suc 0) = None" using that n by auto
  show "exact_from (upd t n f) (Suc 0) s = (if s = pre then s_end (f (node t n)) else exact_from t (Suc 0) s)"
  proof (cases "walk t s (Suc 0)")
    case None
    with other show ?thesis unfolding exact_from_def w by simp
  next
    case (Some k)
    with eq [OF Some] show ?thesis unfolding exact_from_def w by simp
  qed
  show "star_from (upd t n f) (Suc 0) s = (if s = pre then s_std (f (node t n)) else star_from t (Suc 0) s)"
  proof (cases "walk t s (Suc 0)")
    case None
    with other show ?thesis unfolding star_from_def w by simp
  next
    case (Some k)
    with eq [OF Some] show ?thesis unfolding star_from_def w by simp
  qed
qed

text \<open>Growing the array changes nothing either.\<close>

lemma node_grow: "0 < n \<Longrightarrow> n \<le> length t \<Longrightarrow> node (t @ u) n = node t n"
  by (simp add: node_def nth_append)

lemma grow_same:
  assumes wf: "wf_table t sz"
  shows "wf_table (t @ replicate k zero_step) sz"
    and "exact_from (t @ replicate k zero_step) (Suc 0) = exact_from t (Suc 0)"
    and "star_from (t @ replicate k zero_step) (Suc 0) = star_from t (Suc 0)"
    and "\<And>s. walk (t @ replicate k zero_step) s (Suc 0) = walk t s (Suc 0)"
proof -
  let ?t = "t @ replicate k zero_step"
  note len = wf_tableD(2) [OF wf]
  have node: "node ?t n = node t n" if "0 < n" "n \<le> sz" for n
    using that len by (intro node_grow) auto
  have kid: "kid ?t n c = kid t n c" if "0 < n" "n \<le> sz" for n c
    using node [OF that] by (simp add: kid_def)
  have zero: "fresh_zero ?t sz" unfolding fresh_zero_def
  proof (intro allI impI)
    fix n assume n: "sz < n \<and> n \<le> length ?t"
    show "node ?t n = zero_step"
    proof (cases "n \<le> length t")
      case True
      with n wf_table_fresh [OF wf] show ?thesis by (simp add: node_grow)
    next
      case False
      with n show ?thesis by (auto simp: node_def nth_append)
    qed
  qed
  show w: "walk ?t s (Suc 0) = walk t s (Suc 0)" for s
    using root_in [OF wf] kid by (intro walk_cong [OF wf]) auto
  show "wf_table ?t sz"
    using len zero kid by (intro wf_table_cong [OF wf]) auto
  have rng: "walk t s (Suc 0) = Some k \<Longrightarrow> node ?t k = node t k" for s k
    using node walk_root_range [OF wf] by blast
  show "exact_from ?t (Suc 0) = exact_from t (Suc 0)"
    by (rule ext) (auto simp: exact_from_def w rng split: option.splits)
  show "star_from ?t (Suc 0) = star_from t (Suc 0)"
    by (rule ext) (auto simp: star_from_def w rng split: option.splits)
qed

text \<open>Linking a fresh node below an old one adds the one string that leads to it, with no value.\<close>

definition link_kid :: "char \<Rightarrow> nat \<Rightarrow> step \<Rightarrow> step" where
  "link_kid c nxt st = st\<lparr>s_k := (s_k st)(u16_of_char c - 32 := nxt)\<rparr>"

lemma kid_link:
  assumes "0 < n" "n \<le> length t" "good_char c" "0 < m"
  shows "kid (upd t n (link_kid c nxt)) m d = (if m = n \<and> d = c then nxt else kid t m d)"
proof -
  have "u16_of_char d - 32 = u16_of_char c - 32 \<longleftrightarrow> d = c" if "good_char d"
    using that assms(3) u16_inj [of d c] unfolding good_char_def by linarith
  then show ?thesis using assms by (auto simp: kid_def node_upd link_kid_def)
qed

lemma new_kid:
  assumes "wf_table t sz" and "sz < length t"
  shows "kid t (Suc sz) d = 0"
  using wf_table_fresh [OF assms(1), of "Suc sz"] assms(2) by (simp add: kid_def zero_step_def)

lemma wf_table_link:
  assumes wf: "wf_table t sz" and sz: "sz < length t" and n: "0 < n" "n \<le> sz"
    and c: "good_char c" "c \<noteq> CHR ''*''"
  shows "wf_table (upd t n (link_kid c (Suc sz))) (Suc sz)"
proof -
  let ?t = "upd t n (link_kid c (Suc sz))"
  have k: "kid ?t m d = (if m = n \<and> d = c then Suc sz else kid t m d)" if "0 < m" for m d
    using n sz c that by (intro kid_link) auto
  note new = new_kid [OF wf sz]
  have cases: "kid ?t m d = 0 \<or> m = n \<and> d = c \<and> kid ?t m d = Suc sz \<or>
      m \<le> sz \<and> kid ?t m d = kid t m d \<and> m < kid t m d \<and> kid t m d \<le> sz"
    if m: "0 < m" "m \<le> Suc sz" for m d
  proof (cases "m = n \<and> d = c")
    case True
    then show ?thesis using k [OF m(1), of d] by simp
  next
    case False
    then have eq: "kid ?t m d = kid t m d" unfolding k [OF m(1), of d] by (rule if_not_P)
    show ?thesis
    proof (cases "kid t m d = 0")
      case nz: False
      with new m(2) have "m \<le> sz" by (cases "m = Suc sz") auto
      with wf_table_kid(1,2) [OF wf m(1) this nz] eq show ?thesis by simp
    qed (simp add: eq)
  qed
  have "kids_up ?t (Suc sz)" unfolding kids_up_def
  proof (intro allI impI, elim conjE)
    fix m d assume m: "0 < m" "m \<le> Suc sz" and nz: "kid ?t m d \<noteq> 0"
    from cases [OF m, of d] nz n show "m < kid ?t m d \<and> kid ?t m d \<le> Suc sz" by linarith
  qed
  moreover have "kids_inj ?t (Suc sz)" unfolding kids_inj_def
  proof (intro allI impI, elim conjE)
    fix m m' d d'
    assume m: "0 < m" "m \<le> Suc sz" and m': "0 < m'" "m' \<le> Suc sz"
      and nz: "kid ?t m d \<noteq> 0" and eq: "kid ?t m d = kid ?t m' d'"
    show "m = m' \<and> d = d'"
    proof (cases "kid ?t m d = Suc sz")
      case True
      with cases [OF m, of d] cases [OF m', of d'] eq show ?thesis by auto
    next
      case False
      with cases [OF m, of d] nz have a: "m \<le> sz" "kid ?t m d = kid t m d" by auto
      from False cases [OF m', of d'] nz eq have b: "m' \<le> sz" "kid ?t m' d' = kid t m' d'" by auto
      from wf_table_kid_inj [OF wf m(1) a(1) m'(1) b(1), of d d'] a(2) b(2) eq nz show ?thesis by simp
    qed
  qed
  moreover have "fresh_zero ?t (Suc sz)"
    using wf_table_fresh [OF wf] n sz by (auto simp: fresh_zero_def node_upd)
  moreover have "no_star_kid ?t (Suc sz)" unfolding no_star_kid_def
  proof (intro allI impI, elim conjE)
    fix m assume m: "0 < m" "m \<le> Suc sz"
    have "kid ?t m CHR ''*'' = kid t m CHR ''*''" using k [OF m(1)] c(2) by simp
    also have "\<dots> = 0" using m new wf_table_star [OF wf m(1)] by (cases "m = Suc sz") auto
    finally show "kid ?t m CHR ''*'' = 0" .
  qed
  ultimately show ?thesis using sz unfolding wf_table_def by simp
qed

lemma walk_link:
  assumes wf: "wf_table t sz" and sz: "sz < length t" and c: "good_char c"
    and pre: "walk t pre (Suc 0) = Some n" and free: "kid t n c = 0"
  shows "walk (upd t n (link_kid c (Suc sz))) s (Suc 0) =
    (if s = pre @ [c] then Some (Suc sz) else walk t s (Suc 0))"
proof (induction s rule: rev_induct)
  case Nil
  then show ?case by simp
next
  case (snoc d s)
  let ?t = "upd t n (link_kid c (Suc sz))"
  have n: "0 < n" "n \<le> length t" using walk_root_range [OF wf pre] sz by auto
  have k: "kid ?t m e = (if m = n \<and> e = c then Suc sz else kid t m e)" if "0 < m" for m e
    using n c that by (intro kid_link) auto
  show ?case
  proof (cases "s = pre @ [c]")
    case True
    have none: "walk t s (Suc 0) = None" using True pre free by (simp add: walk_snoc)
    have "walk ?t s (Suc 0) = Some (Suc sz)" using True snoc.IH by simp
    moreover have "Suc sz \<noteq> n" using walk_root_range [OF wf pre] by simp
    then have "kid ?t (Suc sz) d = 0" using k [of "Suc sz" d] new_kid [OF wf sz] by simp
    ultimately show ?thesis
      unfolding walk_snoc [of ?t s] walk_snoc [of t s] none using True by simp
  next
    case False
    show ?thesis
    proof (cases "walk t s (Suc 0)")
      case None
      with pre have "s \<noteq> pre" by auto
      with None False snoc.IH show ?thesis by (simp add: walk_snoc)
    next
      case (Some p)
      have "p = n \<Longrightarrow> s = pre" by (rule walk_inj [OF wf Some]) (simp add: pre)
      moreover have "s = pre \<Longrightarrow> p = n" using Some pre by simp
      moreover have "0 < p" using walk_root_range [OF wf Some] ..
      ultimately show ?thesis
        using Some False snoc.IH k [of p d] by (auto simp: walk_snoc)
    qed
  qed
qed

lemma from_link:
  assumes wf: "wf_table t sz" and sz: "sz < length t" and c: "good_char c"
    and pre: "walk t pre (Suc 0) = Some n" and free: "kid t n c = 0"
  shows "exact_from (upd t n (link_kid c (Suc sz))) (Suc 0) = exact_from t (Suc 0)"
    and "star_from (upd t n (link_kid c (Suc sz))) (Suc 0) = star_from t (Suc 0)"
proof -
  let ?t = "upd t n (link_kid c (Suc sz))"
  have n: "0 < n" "n \<le> length t" "n \<le> sz" using walk_root_range [OF wf pre] sz by auto
  have none: "walk t (pre @ [c]) (Suc 0) = None" using pre free by (simp add: walk_snoc)
  have new: "s_end (node ?t (Suc sz)) = 0" "s_std (node ?t (Suc sz)) = 0"
    using wf_table_fresh [OF wf, of "Suc sz"] sz n by (simp_all add: node_upd zero_step_def)
  have old: "s_end (node ?t k) = s_end (node t k)" "s_std (node ?t k) = s_std (node t k)"
    if "0 < k" for k using n that by (simp_all add: node_upd link_kid_def)
  note w = walk_link [OF assms]
  show "exact_from ?t (Suc 0) = exact_from t (Suc 0)"
  proof
    fix s
    show "exact_from ?t (Suc 0) s = exact_from t (Suc 0) s"
      using none new old walk_root_range [OF wf, of s]
      by (cases "s = pre @ [c]"; cases "walk t s (Suc 0)") (simp_all add: exact_from_def w)
  qed
  show "star_from ?t (Suc 0) = star_from t (Suc 0)"
  proof
    fix s
    show "star_from ?t (Suc 0) s = star_from t (Suc 0) s"
      using none new old walk_root_range [OF wf, of s]
      by (cases "s = pre @ [c]"; cases "walk t s (Suc 0)") (simp_all add: star_from_def w)
  qed
qed

section \<open>Insertion\<close>

text \<open>The state in the middle of an insertion: the array being written is a tree of full capacity.\<close>

definition growing :: "mapper \<Rightarrow> bool" where
  "growing m = (length (table m) = m_cap m \<and> wf_table (table m) (m_size m))"

definition set_table :: "step list \<Rightarrow> mapper \<Rightarrow> mapper" where
  "set_table t m = (case m_buf_t m of None \<Rightarrow> m\<lparr>m_abuf := t\<rparr> | Some _ \<Rightarrow> m\<lparr>m_buf_t := Some t\<rparr>)"

lemma set_table_simps [simp]:
  "table (set_table t m) = t"
  "m_size (set_table t m) = m_size m"
  "m_cap (set_table t m) = m_cap m"
  "m_locked (set_table t m) = m_locked m"
  by (simp_all add: set_table_def table_def split: option.splits)

lemma table_frame [simp]:
  "table (m\<lparr>m_size := n\<rparr>) = table m"
  "table (m\<lparr>m_locked := b\<rparr>) = table m"
  "table (m\<lparr>m_buf_t := Some p\<rparr>) = p"
  by (cases "m_buf_t m"; simp add: table_def)+

lemma put_step_run:
  "0 < n \<Longrightarrow> n \<le> length (table m) \<Longrightarrow> put_step n f m = (Inr (), set_table (upd (table m) n f) m)"
  by (auto simp: put_step_def at_def upd_def node_def set_table_def Let_def split: option.splits)

lemma get_step_run:
  "growing m \<Longrightarrow> 0 < n \<Longrightarrow> n \<le> m_size m \<Longrightarrow> get_step_t n m = (Inr (node (table m) n), m)"
  unfolding growing_def using wf_table_at [of "table m" "m_size m" n] by (simp add: get_step_t_def)

lemma mapper_next_run:
  assumes g: "growing m" and small: "m_size m + 1 < 65536"
  obtains m' where "mapper_next m = (Inr (Suc (m_size m)), m')" and "m_size m' = Suc (m_size m)"
    and "length (table m') = m_cap m'" and "wf_table (table m') (m_size m)"
    and "m_size m < length (table m')" and "exact m' = exact m" and "star m' = star m"
    and "\<And>s. walk (table m') s (Suc 0) = walk (table m) s (Suc 0)" and "m_locked m' = m_locked m"
    and "\<And>n. 0 < n \<Longrightarrow> n \<le> m_size m \<Longrightarrow> node (table m') n = node (table m) n"
proof (cases "Suc (m_size m) \<le> m_cap m")
  case True
  let ?m = "m\<lparr>m_size := Suc (m_size m)\<rparr>"
  from True g small show ?thesis
    by (intro that [of ?m]) (auto simp: mapper_next_def Let_def growing_def exact_def star_def)
next
  case False
  define cap where "cap = (if m_cap m \<ge> 512 then m_cap m + 256 else m_cap m * 2)"
  let ?z = "replicate (cap - m_cap m) zero_step"
  let ?m = "m\<lparr>m_size := Suc (m_size m), m_cap := cap, m_buf_t := Some (table m @ ?z)\<rparr>"
  from g have wf: "wf_table (table m) (m_size m)" and len: "length (table m) = m_cap m"
    by (auto simp: growing_def)
  have full: "m_size m = m_cap m" using False wf_tableD(2) [OF wf] len by simp
  have cap: "m_size m < cap" "m_cap m < cap"
    using full wf_tableD(1) [OF wf] unfolding cap_def by auto
  have t: "table ?m = table m @ ?z" by (rule table_frame(3))
  have "mapper_next m = (Inr (Suc (m_size m)), ?m)"
    using False small by (simp add: mapper_next_def Let_def cap_def)
  moreover have "length (table ?m) = m_cap ?m" "m_size m < length (table ?m)"
    using len cap unfolding t by auto
  moreover note same = grow_same [OF wf, of "cap - m_cap m"]
  have "exact ?m = exact m" "star ?m = star m"
    unfolding exact_def star_def t by (rule same)+
  moreover have "node (table ?m) n = node (table m) n" if "0 < n" "n \<le> m_size m" for n
    unfolding t using that len full by (intro node_grow) auto
  ultimately show ?thesis
    using same unfolding t by (intro that [of ?m, unfolded t]) auto
qed

text \<open>What storing \<open>v\<close> for \<open>name\<close> means for the two kinds of entries.\<close>

definition name_stem :: "bytes \<Rightarrow> bytes" where
  "name_stem name = takeWhile (\<lambda>c. c \<noteq> CHR ''*'') name"

definition is_pattern :: "bytes \<Rightarrow> bool" where
  "is_pattern name = (CHR ''*'' \<in> set name)"

definition valid_name :: "bytes \<Rightarrow> bool" where
  "valid_name name = (\<forall>c \<in> set (name_stem name). good_char c)"

definition stored :: "mapper \<Rightarrow> bytes \<Rightarrow> nat \<Rightarrow> mapper \<Rightarrow> bool" where
  "stored m name v m' =
     (if is_pattern name then exact m' = exact m \<and> star m' = (star m)(name_stem name := v)
      else exact m' = (exact m)(name := v) \<and> star m' = star m)"

lemma stored_cong: "exact m1 = exact m \<Longrightarrow> star m1 = star m \<Longrightarrow> stored m1 name v m' = stored m name v m'"
  by (simp add: stored_def)

lemma add_loop_here:
  assumes g: "growing m" and n: "walk (table m) pre (Suc 0) = Some n"
    and f: "\<And>st. s_k (f st) = s_k st"
  obtains m' where "put_step n f m = (Inr (), m')" and "growing m'" and "m_locked m' = m_locked m"
    and "exact m' = (exact m)(pre := s_end (f (node (table m) n)))"
    and "star m' = (star m)(pre := s_std (f (node (table m) n)))"
    and "m_size m' = m_size m"
proof -
  from g have wf: "wf_table (table m) (m_size m)" and len: "length (table m) = m_cap m"
    by (auto simp: growing_def)
  note r = walk_root_range [OF wf n]
  let ?m = "set_table (upd (table m) n f) m"
  have "growing ?m"
    using wf_table_upd_value [OF wf, of n f] r f len by (simp add: growing_def)
  moreover have "put_step n f m = (Inr (), ?m)"
    using r wf_tableD(2) [OF wf] by (intro put_step_run) auto
  ultimately show ?thesis
    using from_upd_value [OF wf n f] by (intro that [of ?m]) (simp_all add: exact_def star_def fun_eq_iff)
qed

lemma add_loop_spec:
  assumes "growing m" and "walk (table m) pre (Suc 0) = Some n" and "valid_name cs"
    and "m_size m + length cs < 65536" and "CHR ''*'' \<notin> set pre"
  shows "\<exists>m'. add_loop cs v n m = (Inr (), m') \<and> growing m' \<and> m_locked m' = m_locked m \<and>
    stored m (pre @ cs) v m' \<and> m_size m' \<le> m_size m + length cs"
  using assms
proof (induction cs arbitrary: m pre n)
  case Nil
  let ?f = "\<lambda>st. st\<lparr>s_end := v\<rparr>"
  have "s_k (?f st) = s_k st" for st by simp
  with Nil.prems(1,2) obtain m' where m': "put_step n ?f m = (Inr (), m')" "growing m'"
    "m_locked m' = m_locked m" "exact m' = (exact m)(pre := s_end (?f (node (table m) n)))"
    "star m' = (star m)(pre := s_std (?f (node (table m) n)))" "m_size m' = m_size m"
    by (rule add_loop_here)
  have "star m pre = s_std (node (table m) n)"
    using Nil.prems(2) by (simp add: star_def star_from_def)
  then have "star m' = star m" using m'(5) by (simp add: fun_eq_iff)
  with m' Nil.prems(5) show ?case by (simp add: stored_def is_pattern_def)
next
  case (Cons c cs)
  from Cons.prems(1) have wf: "wf_table (table m) (m_size m)" and len: "length (table m) = m_cap m"
    by (auto simp: growing_def)
  note r = walk_root_range [OF wf Cons.prems(2)]
  show ?case
  proof (cases "c = CHR ''*''")
    case True
    let ?f = "\<lambda>st. st\<lparr>s_std := v\<rparr>"
    have "s_k (?f st) = s_k st" for st by simp
    with Cons.prems(1,2) obtain m' where m': "put_step n ?f m = (Inr (), m')" "growing m'"
      "m_locked m' = m_locked m" "exact m' = (exact m)(pre := s_end (?f (node (table m) n)))"
      "star m' = (star m)(pre := s_std (?f (node (table m) n)))" "m_size m' = m_size m"
      by (rule add_loop_here)
    have "exact m pre = s_end (node (table m) n)"
      using Cons.prems(2) by (simp add: exact_def exact_from_def)
    then have "exact m' = exact m" using m'(4) by (simp add: fun_eq_iff)
    moreover have "name_stem (pre @ c # cs) = pre"
      using True Cons.prems(5) by (auto simp: name_stem_def takeWhile_append)
    ultimately show ?thesis using m' True by (simp add: stored_def is_pattern_def)
  next
    case False
    have g: "good_char c" and vn: "valid_name cs"
      using Cons.prems(3) False by (auto simp: valid_name_def name_stem_def)
    then have b: "\<not> (u16_of_char c < 32 \<or> 128 \<le> u16_of_char c)" by (simp add: good_char_def)
    have ns: "u16_of_char c \<noteq> u16_of_char CHR ''*''" unfolding u16_inj by (rule False)
    have pre': "CHR ''*'' \<notin> set (pre @ [c])" using Cons.prems(5) False by simp
    have k: "s_k (node (table m) n) (u16_of_char c - 32) = kid (table m) n c"
      using g by (simp add: kid_def)
    have step: "add_loop (c # cs) v n m =
        (if kid (table m) n c = 0
         then bnd mapper_next (\<lambda>nxt. thn (put_step n (link_kid c nxt)) (add_loop cs v nxt)) m
         else add_loop cs v (kid (table m) n c) m)"
      unfolding add_loop.simps(2) Let_def if_not_P [OF ns] if_not_P [OF b]
        bnd_Inr [where m = "get_step_t n", OF get_step_run [OF Cons.prems(1) conjunct1 [OF r] conjunct2 [OF r]]] k
      by (simp add: link_kid_def [abs_def])
    show ?thesis
    proof (cases "kid (table m) n c = 0")
      case nz: False
      have "walk (table m) (pre @ [c]) (Suc 0) = Some (kid (table m) n c)"
        using Cons.prems(2) nz by (simp add: walk_snoc)
      from Cons.IH [OF Cons.prems(1) this vn _ pre'] Cons.prems(4) step nz show ?thesis by force
    next
      case free: True
      have "m_size m + 1 < 65536" using Cons.prems(4) by simp
      with Cons.prems(1) obtain m1 where m1: "mapper_next m = (Inr (Suc (m_size m)), m1)"
        "m_size m1 = Suc (m_size m)" "length (table m1) = m_cap m1" "wf_table (table m1) (m_size m)"
        "m_size m < length (table m1)" "exact m1 = exact m" "star m1 = star m"
        "\<And>s. walk (table m1) s (Suc 0) = walk (table m) s (Suc 0)" "m_locked m1 = m_locked m"
        "\<And>n. 0 < n \<Longrightarrow> n \<le> m_size m \<Longrightarrow> node (table m1) n = node (table m) n"
        by (rule mapper_next_run) blast
      let ?m2 = "set_table (upd (table m1) n (link_kid c (Suc (m_size m)))) m1"
      have free1: "kid (table m1) n c = 0" using free m1(10) r unfolding kid_def by auto
      have pre1: "walk (table m1) pre (Suc 0) = Some n" using m1(8) Cons.prems(2) by simp
      have put: "put_step n (link_kid c (Suc (m_size m))) m1 = (Inr (), ?m2)"
        using r m1(5) by (intro put_step_run) auto
      have "growing ?m2"
        using wf_table_link [OF m1(4,5) conjunct1 [OF r] conjunct2 [OF r] g False] m1(2,3)
        by (simp add: growing_def)
      moreover have "walk (table ?m2) (pre @ [c]) (Suc 0) = Some (Suc (m_size m))"
        using walk_link [OF m1(4,5) g pre1 free1] by simp
      moreover have "m_size ?m2 + length cs < 65536" using Cons.prems(4) m1(2) by simp
      ultimately obtain m' where m': "add_loop cs v (Suc (m_size m)) ?m2 = (Inr (), m')" "growing m'"
        "m_locked m' = m_locked ?m2" "stored ?m2 ((pre @ [c]) @ cs) v m'" "m_size m' \<le> m_size ?m2 + length cs"
        using Cons.IH [of ?m2 "pre @ [c]" "Suc (m_size m)", OF _ _ vn _ pre'] by blast
      have "exact ?m2 = exact m" "star ?m2 = star m"
        using from_link [OF m1(4,5) g pre1 free1] m1(6,7) by (simp_all add: exact_def star_def)
      then have "stored m (pre @ c # cs) v m'" using m'(4) stored_cong [of ?m2 m] by simp
      moreover have "add_loop (c # cs) v n m = (Inr (), m')"
        using step free m1(1) put m'(1) by (simp add: bnd_run thn_run)
      ultimately show ?thesis using m' m1(2,9) by simp
    qed
  qed
qed

lemma mapper_add_stored:
  assumes wf: "wf_mapper m" and vn: "valid_name name" and small: "m_size m + length name < 65536"
  shows "\<exists>m'. mapper_add name v m = (Inr (), m') \<and> wf_mapper m' \<and> stored m name v m' \<and>
    m_size m' \<le> m_size m + length name"
proof -
  let ?m = "m\<lparr>m_locked := True\<rparr>"
  note d = wf_mapperD [OF wf]
  have "growing ?m" using d by (simp add: growing_def)
  moreover have "walk (table ?m) [] (Suc 0) = Some (Suc 0)" by simp
  ultimately obtain m1 where m1: "add_loop name v (Suc 0) ?m = (Inr (), m1)" "growing m1"
    "stored ?m ([] @ name) v m1" "m_size m1 \<le> m_size m + length name"
    using add_loop_spec [of ?m "[]" "Suc 0" name v] vn small by auto
  define m2 where "m2 = (case m_buf_t m1 of None \<Rightarrow> m1
    | Some p \<Rightarrow> m1\<lparr>m_free := m_free m1 @ [m_abuf m1], m_abuf := p, m_buf_t := None\<rparr>)\<lparr>m_locked := False\<rparr>"
  have t2: "table m2 = table m1" and s2: "m_size m2 = m_size m1" and c2: "m_cap m2 = m_cap m1"
    and b2: "m_buf_t m2 = None" "m_abuf m2 = table m1" "\<not> m_locked m2"
    by (cases "m_buf_t m1"; simp add: m2_def table_def)+
  have "mapper_add name v m = (Inr (), m2)"
    using m1(1) d(1) by (simp add: mapper_add_def m2_def Let_def)
  moreover have "wf_mapper m2" using m1(2) s2 c2 b2 by (simp add: wf_mapper_def growing_def)
  moreover have "exact m2 = exact m1" "star m2 = star m1" by (simp_all add: exact_def star_def t2)
  moreover have "exact ?m = exact m" "star ?m = star m" by (simp_all add: exact_def star_def)
  ultimately show ?thesis using m1(3,4) s2 by (auto simp: stored_def)
qed

section \<open>Deletion\<close>

definition removed :: "mapper \<Rightarrow> bytes \<Rightarrow> nat \<Rightarrow> mapper \<Rightarrow> bool" where
  "removed m name r m' =
     (if is_pattern name
      then r = star m (name_stem name) \<and> exact m' = exact m \<and> star m' = (star m)(name_stem name := 0)
      else r = exact m name \<and> exact m' = (exact m)(name := 0) \<and> star m' = star m)"

definition removed_t :: "step list \<Rightarrow> bytes \<Rightarrow> nat \<Rightarrow> step list \<Rightarrow> bool" where
  "removed_t t name r t' =
     (if is_pattern name
      then r = star_from t (Suc 0) (name_stem name) \<and> exact_from t' (Suc 0) = exact_from t (Suc 0) \<and>
        star_from t' (Suc 0) = (star_from t (Suc 0))(name_stem name := 0)
      else r = exact_from t (Suc 0) name \<and> exact_from t' (Suc 0) = (exact_from t (Suc 0))(name := 0) \<and>
        star_from t' (Suc 0) = star_from t (Suc 0))"

lemma removed_absent:
  assumes "walk t pre (Suc 0) = Some n" and "kid t n c = 0" and "c \<noteq> CHR ''*''" and "CHR ''*'' \<notin> set pre"
  shows "removed_t t (pre @ c # cs) 0 t"
proof -
  have "walk t (pre @ c # u) (Suc 0) = None" for u
    using assms(1,2) by (simp add: walk_append)
  then have z: "exact_from t (Suc 0) (pre @ c # u) = 0" "star_from t (Suc 0) (pre @ c # u) = 0" for u
    by (simp_all add: exact_from_def star_from_def)
  have "name_stem (pre @ c # cs) = pre @ c # name_stem cs"
    using assms(3,4) by (auto simp: name_stem_def takeWhile_append)
  then show ?thesis by (simp add: removed_t_def z fun_eq_iff)
qed

lemma removed_here:
  assumes wf: "wf_table t sz" and n: "walk t pre (Suc 0) = Some n" and f: "\<And>st. s_k (f st) = s_k st"
  shows "at t n = Some (node t n)" and "wf_table (upd t n f) sz"
    and "exact_from t (Suc 0) pre = s_end (node t n)" and "star_from t (Suc 0) pre = s_std (node t n)"
    and "exact_from (upd t n f) (Suc 0) = (exact_from t (Suc 0))(pre := s_end (f (node t n)))"
    and "star_from (upd t n f) (Suc 0) = (star_from t (Suc 0))(pre := s_std (f (node t n)))"
  using walk_root_range [OF wf n] wf_table_at [OF wf] wf_table_upd_value [OF wf _ _ f] n
    from_upd_value [OF wf n f]
  by (auto simp: exact_from_def star_from_def fun_eq_iff)

lemma del_loop_spec:
  assumes wf: "wf_table t sz"
  shows "walk t pre (Suc 0) = Some n \<Longrightarrow> CHR ''*'' \<notin> set pre \<Longrightarrow>
    \<exists>r t'. del_loop t cs n = Inr (r, t') \<and> wf_table t' sz \<and> length t' = length t \<and>
      removed_t t (pre @ cs) r t'"
proof (induction cs arbitrary: pre n)
  case Nil
  let ?f = "\<lambda>st. st\<lparr>s_end := 0\<rparr>"
  have f: "s_k (?f st) = s_k st" for st by simp
  note here = removed_here [OF wf Nil.prems(1), of ?f, OF f]
  have "star_from (upd t n ?f) (Suc 0) = star_from t (Suc 0)"
    using here(4,6) by (simp add: fun_eq_iff)
  moreover have "exact_from (upd t n ?f) (Suc 0) = (exact_from t (Suc 0))(pre := 0)"
    using here(5) by simp
  ultimately have "removed_t t (pre @ []) (s_end (node t n)) (upd t n ?f)"
    using Nil.prems(2) here(3) by (simp add: removed_t_def is_pattern_def)
  moreover have "del_loop t [] n = Inr (s_end (node t n), upd t n ?f)"
    using here(1) by (simp add: upd_def)
  ultimately show ?case using here(2) length_upd by blast
next
  case (Cons c cs)
  show ?case
  proof (cases "c = CHR ''*''")
    case True
    let ?f = "\<lambda>st. st\<lparr>s_std := 0\<rparr>"
    have f: "s_k (?f st) = s_k st" for st by simp
    note here = removed_here [OF wf Cons.prems(1), of ?f, OF f]
    have stem: "name_stem (pre @ c # cs) = pre"
      using True Cons.prems(2) by (auto simp: name_stem_def takeWhile_append)
    have "exact_from (upd t n ?f) (Suc 0) = exact_from t (Suc 0)"
      using here(3,5) by (simp add: fun_eq_iff)
    moreover have "star_from (upd t n ?f) (Suc 0) = (star_from t (Suc 0))(pre := 0)"
      using here(6) by simp
    ultimately have "removed_t t (pre @ c # cs) (s_std (node t n)) (upd t n ?f)"
      using True here(4) unfolding removed_t_def stem by (simp add: is_pattern_def)
    moreover have "del_loop t (c # cs) n = Inr (s_std (node t n), upd t n ?f)"
      using here(1) True by (simp add: upd_def)
    ultimately show ?thesis using here(2) length_upd by blast
  next
    case False
    have ns: "u16_of_char c \<noteq> u16_of_char CHR ''*''" unfolding u16_inj by (rule False)
    have at: "at t n = Some (node t n)"
      using wf_table_at [OF wf] walk_root_range [OF wf Cons.prems(1)] by blast
    show ?thesis
    proof (cases "kid t n c = 0")
      case True
      have "del_loop t (c # cs) n = Inr (0, t)"
        using True at ns by (auto simp: kid_def good_char_def Let_def simp del: u16_star split: if_splits)
      then show ?thesis using wf removed_absent [OF Cons.prems(1) True False Cons.prems(2)] by blast
    next
      case nz: False
      then have g: "good_char c" by (simp add: kid_def split: if_splits)
      then have b: "\<not> (u16_of_char c < 32 \<or> 128 \<le> u16_of_char c)" by (simp add: good_char_def)
      have k: "s_k (node t n) (u16_of_char c - 32) = kid t n c" using g by (simp add: kid_def)
      have step: "del_loop t (c # cs) n = del_loop t cs (kid t n c)"
        unfolding del_loop.simps(2) at option.case Let_def if_not_P [OF ns] if_not_P [OF b] k
          if_not_P [OF nz] ..
      have "walk t (pre @ [c]) (Suc 0) = Some (kid t n c)"
        using Cons.prems(1) nz by (simp add: walk_snoc)
      from Cons.IH [OF this] False Cons.prems(2) step show ?thesis by auto
    qed
  qed
qed

lemma mapper_del_removed:
  assumes wf: "wf_mapper m"
  shows "\<exists>r m'. mapper_del name m = (Inr r, m') \<and> wf_mapper m' \<and> removed m name r m' \<and>
    m_size m' = m_size m"
proof -
  note d = wf_mapperD [OF wf]
  obtain r t' where t': "del_loop (m_abuf m) name (Suc 0) = Inr (r, t')" "wf_table t' (m_size m)"
    "length t' = length (m_abuf m)" "removed_t (m_abuf m) name r t'"
    using del_loop_spec [OF d(4), of "[]" "Suc 0" name] by auto
  let ?m = "m\<lparr>m_abuf := t'\<rparr>"
  have "mapper_del name m = (Inr r, ?m)" using t'(1) by (simp add: mapper_del_def)
  moreover have "wf_mapper ?m" using d t' by (simp add: wf_mapper_def)
  moreover from wf_mapperD(5) [OF this] have "table ?m = t'" by simp
  then have "removed m name r ?m"
    using t'(4) d(5) by (simp add: removed_def removed_t_def exact_def star_def)
  ultimately show ?thesis by auto
qed

section \<open>The contract of the queue index\<close>

text \<open>
  What the server relies on when it looks queues up: numbers stored under names and under patterns,
  a lookup that answers by \<open>pick\<close>, and updates that change one entry. \<open>room\<close> says that a name is
  storable and that the node numbers do not run out.
\<close>

locale queue_index =
  fixes idx_inv :: "'m \<Rightarrow> bool"
    and names :: "'m \<Rightarrow> bytes \<Rightarrow> nat"
    and patterns :: "'m \<Rightarrow> bytes \<Rightarrow> nat"
    and room :: "'m \<Rightarrow> bytes \<Rightarrow> bool"
    and lookup :: "'m \<Rightarrow> bytes \<Rightarrow> exn + nat"
    and insert_name :: "bytes \<Rightarrow> nat \<Rightarrow> ('m, unit) prog"
    and remove_name :: "bytes \<Rightarrow> ('m, nat) prog"
  assumes lookup_law: "idx_inv m \<Longrightarrow> lookup m name = Inr (pick (names m) (patterns m) name)"
    and insert_law: "idx_inv m \<Longrightarrow> room m name \<Longrightarrow>
      \<exists>m'. insert_name name v m = (Inr (), m') \<and> idx_inv m' \<and>
        (if is_pattern name
         then names m' = names m \<and> patterns m' = (patterns m)(name_stem name := v)
         else names m' = (names m)(name := v) \<and> patterns m' = patterns m)"
    and remove_law: "idx_inv m \<Longrightarrow>
      \<exists>r m'. remove_name name m = (Inr r, m') \<and> idx_inv m' \<and>
        (if is_pattern name
         then r = patterns m (name_stem name) \<and> names m' = names m \<and>
           patterns m' = (patterns m)(name_stem name := 0)
         else r = names m name \<and> names m' = (names m)(name := 0) \<and> patterns m' = patterns m)"
begin

lemma pick_other: "ex' name = ex name \<Longrightarrow> pick ex' st name = pick ex st name"
  by (simp add: pick_def pick_from_def)

text \<open>A stored name is found, whatever patterns it also matches.\<close>

lemma lookup_inserted:
  assumes "idx_inv m" and "room m name" and "\<not> is_pattern name" and "v \<noteq> 0"
  shows "\<exists>m'. insert_name name v m = (Inr (), m') \<and> idx_inv m' \<and> lookup m' name = Inr v"
  using insert_law [OF assms(1,2), of v] lookup_law assms(3,4) by (auto simp: pick_def pick_from_def)

text \<open>Storing a name changes the lookup of no other name.\<close>

lemma lookup_other:
  assumes "idx_inv m" and "room m name" and "\<not> is_pattern name" and "other \<noteq> name"
  shows "\<exists>m'. insert_name name v m = (Inr (), m') \<and> idx_inv m' \<and> lookup m' other = lookup m other"
proof -
  from insert_law [OF assms(1,2), of v] obtain m' where
    m': "insert_name name v m = (Inr (), m')" "idx_inv m'" "names m' = (names m)(name := v)"
    "patterns m' = patterns m" using assms(3) by auto
  have "pick (names m') (patterns m') other = pick (names m) (patterns m) other"
    unfolding m'(4) by (rule pick_other) (simp add: m'(3) assms(4))
  with m' lookup_law [OF m'(2)] lookup_law [OF assms(1)] show ?thesis by simp
qed

text \<open>A stored pattern answers for every name it matches better than any other entry.\<close>

lemma lookup_pattern:
  assumes "idx_inv m" and "room m (p @ ''*'')" and "CHR ''*'' \<notin> set p" and "v \<noteq> 0"
    and "names m (p @ s) = 0" and "\<And>q. prefix q (p @ s) \<Longrightarrow> strict_prefix p q \<Longrightarrow> patterns m q = 0"
  shows "\<exists>m'. insert_name (p @ ''*'') v m = (Inr (), m') \<and> idx_inv m' \<and> lookup m' (p @ s) = Inr v"
proof -
  have stem: "name_stem (p @ ''*'') = p" and pat: "is_pattern (p @ ''*'')"
    using assms(3) by (auto simp: name_stem_def is_pattern_def takeWhile_append)
  from insert_law [OF assms(1,2), of v] obtain m' where
    m': "insert_name (p @ ''*'') v m = (Inr (), m')" "idx_inv m'" "names m' = names m"
    "patterns m' = (patterns m)(p := v)"
    unfolding stem using pat by auto
  let ?P = "\<lambda>q. patterns m' q \<noteq> 0"
  have "filter ?P (prefixes (p @ s)) = filter ?P (prefixes p) @ filter ?P (map ((@) p) (tl (prefixes s)))"
    by (simp add: prefixes_append)
  moreover have "filter ?P (map ((@) p) (tl (prefixes s))) = []"
  proof (rule filter_False, intro ballI)
    fix q assume "q \<in> set (map ((@) p) (tl (prefixes s)))"
    then obtain u where u: "q = p @ u" "u \<in> set (tl (prefixes s))" by auto
    then have "prefix u s" and "u \<noteq> []"
      by (cases s; auto dest: list.set_sel(2))+
    with u have "prefix q (p @ s)" and "strict_prefix p q" by (auto simp: strict_prefix_def)
    with assms(6) m'(4) show "\<not> ?P q" by auto
  qed
  moreover have "filter ?P (prefixes p) \<noteq> [] \<and> last (filter ?P (prefixes p)) = p"
  proof -
    have "prefixes p = butlast (prefixes p) @ [p]"
      by (metis append_butlast_last_id last_prefixes prefixes_not_Nil)
    then have "filter ?P (prefixes p) = filter ?P (butlast (prefixes p)) @ [p]"
      using assms(4) m'(4) by (metis (mono_tags, lifting) filter.simps filter_append fun_upd_same)
    then show ?thesis by simp
  qed
  ultimately have "pick (names m') (patterns m') (p @ s) = v"
    using assms(5) m'(3,4) by (simp add: pick_def pick_from_def)
  with m' lookup_law [OF m'(2)] show ?thesis by auto
qed

text \<open>Removing a name that was just stored under no earlier entry restores every lookup.\<close>

lemma insert_remove:
  assumes "idx_inv m" and "room m name" and "\<not> is_pattern name" and "names m name = 0"
  shows "\<exists>m1 m2. insert_name name v m = (Inr (), m1) \<and> remove_name name m1 = (Inr v, m2) \<and>
    idx_inv m2 \<and> lookup m2 = lookup m"
proof -
  from insert_law [OF assms(1,2), of v] obtain m1 where
    1: "insert_name name v m = (Inr (), m1)" "idx_inv m1" "names m1 = (names m)(name := v)"
    "patterns m1 = patterns m" using assms(3) by auto
  from remove_law [OF 1(2), of name] obtain m2 where
    2: "remove_name name m1 = (Inr v, m2)" "idx_inv m2" "names m2 = (names m1)(name := 0)"
    "patterns m2 = patterns m1" using assms(3) 1(3) by auto
  from 1 2 assms(4) have "names m2 = names m" "patterns m2 = patterns m" by (auto simp: fun_eq_iff)
  with lookup_law [OF 2(2)] lookup_law [OF assms(1)] have "lookup m2 = lookup m" by (auto simp: fun_eq_iff)
  with 1 2 show ?thesis by blast
qed

end

definition has_room :: "mapper \<Rightarrow> bytes \<Rightarrow> bool" where
  "has_room m name = (valid_name name \<and> m_size m + length name < 65536)"

interpretation trie: queue_index wf_mapper exact star has_room mapper_find mapper_add mapper_del
proof
  show "mapper_find m name = Inr (pick (exact m) (star m) name)" if "wf_mapper m" for m name
    using that by (rule mapper_find_pick)
next
  fix m name and v :: nat
  assume "wf_mapper m" and "has_room m name"
  then obtain m' where "mapper_add name v m = (Inr (), m')" "wf_mapper m'" "stored m name v m'"
    using mapper_add_stored unfolding has_room_def by blast
  then show "\<exists>m'. mapper_add name v m = (Inr (), m') \<and> wf_mapper m' \<and>
        (if is_pattern name then exact m' = exact m \<and> star m' = (star m)(name_stem name := v)
         else exact m' = (exact m)(name := v) \<and> star m' = star m)"
    unfolding stored_def by blast
next
  fix m name
  assume "wf_mapper m"
  then obtain r m' where "mapper_del name m = (Inr r, m')" "wf_mapper m'" "removed m name r m'"
    using mapper_del_removed by blast
  then show "\<exists>r m'. mapper_del name m = (Inr r, m') \<and> wf_mapper m' \<and>
        (if is_pattern name
         then r = star m (name_stem name) \<and> exact m' = exact m \<and> star m' = (star m)(name_stem name := 0)
         else r = exact m name \<and> exact m' = (exact m)(name := 0) \<and> star m' = star m)"
    unfolding removed_def by blast
qed

section \<open>Properties\<close>

lemma wf_new_mapper: "wf_mapper new_mapper"
proof -
  have node: "node (replicate 4 zero_step) n = zero_step" if "0 < n" "n \<le> 4" for n
    using that by (simp add: node_def)
  then have kid: "kid (replicate 4 zero_step) n c = 0" if "0 < n" "n \<le> 1" for n c
    using that by (simp add: kid_def zero_step_def)
  have "wf_table (replicate 4 zero_step) 1"
    using node kid
    by (auto simp: wf_table_def kids_up_def kids_inj_def fresh_zero_def no_star_kid_def)
  then show ?thesis by (simp add: wf_mapper_def new_mapper_def)
qed

text \<open>The name that could not be stored: a byte outside the 96 printable codes before any \<open>*\<close>.\<close>

lemma add_loop_wrong_char:
  assumes "growing m" and "0 < n" and "n \<le> m_size m" and "m_size m + length cs < 65536"
    and "\<not> valid_name cs"
  shows "\<exists>m'. add_loop cs v n m = (Inl (Thrown ''Wrong char''), m') \<and> m_locked m' = m_locked m"
  using assms
proof (induction cs arbitrary: n m)
  case Nil
  then show ?case by (simp add: valid_name_def name_stem_def)
next
  case (Cons c cs)
  from Cons.prems(1) have wf: "wf_table (table m) (m_size m)" and len: "length (table m) = m_cap m"
    by (auto simp: growing_def)
  from Cons.prems(5) have ne: "c \<noteq> CHR ''*''" and nv: "good_char c \<Longrightarrow> \<not> valid_name cs"
    by (auto simp: valid_name_def name_stem_def split: if_splits)
  then have ns: "u16_of_char c \<noteq> u16_of_char CHR ''*''" by (simp only: u16_inj not_False_eq_True)
  show ?case
  proof (cases "good_char c")
    case False
    then have b: "u16_of_char c < 32 \<or> 128 \<le> u16_of_char c" by (auto simp: good_char_def)
    show ?thesis unfolding add_loop.simps(2) Let_def if_not_P [OF ns] if_P [OF b] by simp
  next
    case True
    then have b: "\<not> (u16_of_char c < 32 \<or> 128 \<le> u16_of_char c)" by (simp add: good_char_def)
    have k: "s_k (node (table m) n) (u16_of_char c - 32) = kid (table m) n c"
      using True by (simp add: kid_def)
    have step: "add_loop (c # cs) v n m =
        (if kid (table m) n c = 0
         then bnd mapper_next (\<lambda>nxt. thn (put_step n (link_kid c nxt)) (add_loop cs v nxt)) m
         else add_loop cs v (kid (table m) n c) m)"
      unfolding add_loop.simps(2) Let_def if_not_P [OF ns] if_not_P [OF b]
        bnd_Inr [where m = "get_step_t n", OF get_step_run [OF Cons.prems(1-3)]] k
      by (simp add: link_kid_def [abs_def])
    show ?thesis
    proof (cases "kid (table m) n c = 0")
      case nz: False
      from Cons.IH [OF Cons.prems(1) wf_table_kid(3,2) [OF wf Cons.prems(2,3) nz] _ nv [OF True]]
        Cons.prems(4) step nz show ?thesis by simp
    next
      case free: True
      have "m_size m + 1 < 65536" using Cons.prems(4) by simp
      with Cons.prems(1) obtain m1 where m1: "mapper_next m = (Inr (Suc (m_size m)), m1)"
        "m_size m1 = Suc (m_size m)" "length (table m1) = m_cap m1" "wf_table (table m1) (m_size m)"
        "m_size m < length (table m1)" "m_locked m1 = m_locked m"
        by (rule mapper_next_run) blast
      let ?m2 = "set_table (upd (table m1) n (link_kid c (Suc (m_size m)))) m1"
      have put: "put_step n (link_kid c (Suc (m_size m))) m1 = (Inr (), ?m2)"
        using Cons.prems(2,3) m1(5) by (intro put_step_run) auto
      have "growing ?m2"
        using wf_table_link [OF m1(4,5) Cons.prems(2,3) True ne] m1(2,3) by (simp add: growing_def)
      then obtain m' where "add_loop cs v (Suc (m_size m)) ?m2 = (Inl (Thrown ''Wrong char''), m')"
        "m_locked m' = m_locked ?m2"
        using Cons.IH [of ?m2 "Suc (m_size m)", OF _ _ _ _ nv [OF True]] m1(2) Cons.prems(4) by auto
      then show ?thesis using step free m1(1,6) put by (simp add: bnd_run thn_run)
    qed
  qed
qed

text \<open>
  Claim C23. \<^verbatim>\<open>Mapper::find\<close> answers a lookup by the name's own number, else by the number of the longest
  stored pattern the name matches, else by 0; it never reads outside the array.
\<close>

theorem mapper_find_correct:
  "wf_mapper m \<Longrightarrow> mapper_find m name = Inr (pick (exact m) (star m) name)"
  by (rule trie.lookup_law)

theorem mapper_find_correct_witness:
  "wf_mapper new_mapper \<and> mapper_find new_mapper ''job'' = Inr (pick (exact new_mapper) (star new_mapper) ''job'')"
  using mapper_find_correct [OF wf_new_mapper, of "''job''"] wf_new_mapper by simp

text \<open>
  Claim C22. \<^verbatim>\<open>Mapper::add\<close> of a storable name succeeds, keeps the index well-formed, uses at most one node
  per byte, and changes exactly one entry: the pattern's when the name contains \<open>*\<close> (what follows the
  first \<open>*\<close> is ignored), else the name's.
\<close>

theorem mapper_add_correct:
  assumes "wf_mapper m" and "valid_name name" and "m_size m + length name < 65536"
  shows "\<exists>m'. mapper_add name v m = (Inr (), m') \<and> wf_mapper m' \<and> m_size m' \<le> m_size m + length name \<and>
    (if is_pattern name then exact m' = exact m \<and> star m' = (star m)(name_stem name := v)
     else exact m' = (exact m)(name := v) \<and> star m' = star m)"
  using mapper_add_stored [OF assms, of v] unfolding stored_def by blast

theorem mapper_add_correct_witness:
  "\<exists>m'. mapper_add ''a/*'' 7 new_mapper = (Inr (), m') \<and> star m' ''a/'' = 7"
proof -
  have "good_char CHR ''a''" "good_char CHR ''/''"
    by (simp_all add: good_char_def u16_of_char_def schar_def)
  then have "valid_name ''a/*''" by (simp add: valid_name_def name_stem_def)
  moreover have "is_pattern ''a/*''" "name_stem ''a/*'' = ''a/''"
    by (simp_all add: is_pattern_def name_stem_def)
  moreover have "m_size new_mapper + length ''a/*'' < 65536" by (simp add: new_mapper_def)
  ultimately show ?thesis
    using mapper_add_correct [OF wf_new_mapper, of "''a/*''" 7] by auto
qed

text \<open>
  Claim C24. \<^verbatim>\<open>Mapper::del\<close> returns the number stored under the name or pattern (0 for none), clears that
  entry alone, and keeps the index well-formed.
\<close>

theorem mapper_del_correct:
  assumes "wf_mapper m"
  shows "\<exists>r m'. mapper_del name m = (Inr r, m') \<and> wf_mapper m' \<and>
    (if is_pattern name
     then r = star m (name_stem name) \<and> exact m' = exact m \<and> star m' = (star m)(name_stem name := 0)
     else r = exact m name \<and> exact m' = (exact m)(name := 0) \<and> star m' = star m)"
  using assms by (rule trie.remove_law)

theorem mapper_del_correct_witness:
  "\<exists>r m'. mapper_del ''job'' new_mapper = (Inr r, m') \<and> wf_mapper m' \<and> r = exact new_mapper ''job''"
  using mapper_del_correct [OF wf_new_mapper, of "''job''"] by (auto simp: is_pattern_def)

text \<open>
  A queue stored under a pattern \<open>p*\<close> is found under every name that starts with \<open>p\<close>, has no entry
  of its own and no longer matching pattern.
\<close>

lemma pattern_lookup:
  assumes "wf_mapper m" and "has_room m (p @ ''*'')" and "CHR ''*'' \<notin> set p" and "v \<noteq> 0"
    and "exact m (p @ s) = 0" and "\<And>q. prefix q (p @ s) \<Longrightarrow> strict_prefix p q \<Longrightarrow> star m q = 0"
  shows "\<exists>m'. mapper_add (p @ ''*'') v m = (Inr (), m') \<and> wf_mapper m' \<and> mapper_find m' (p @ s) = Inr v"
  using assms by (rule trie.lookup_pattern)

lemma new_mapper_empty: "exact new_mapper s = 0" "star new_mapper s = 0"
proof -
  have "kid (table new_mapper) (Suc 0) c = 0" for c
    by (simp add: kid_def node_def table_def new_mapper_def zero_step_def)
  moreover have "node (table new_mapper) (Suc 0) = zero_step"
    by (simp add: node_def table_def new_mapper_def)
  ultimately show "exact new_mapper s = 0" "star new_mapper s = 0"
    by (cases s; simp add: exact_def exact_from_def star_def star_from_def zero_step_def)+
qed

lemma pattern_lookup_example:
  "\<exists>m'. mapper_add (''a'' @ ''*'') 7 new_mapper = (Inr (), m') \<and> mapper_find m' (''a'' @ ''bc'') = Inr 7"
proof -
  have "has_room new_mapper (''a'' @ ''*'')"
    by (simp add: has_room_def valid_name_def name_stem_def good_char_def u16_of_char_def schar_def
        new_mapper_def)
  from pattern_lookup [OF wf_new_mapper this, of 7 "''bc''"] new_mapper_empty show ?thesis by auto
qed

text \<open>
  Creating a name and deleting it again restores the answer of every lookup.
\<close>

theorem add_then_del:
  assumes "wf_mapper m" and "has_room m name" and "\<not> is_pattern name" and "exact m name = 0"
  shows "\<exists>m1 m2. mapper_add name v m = (Inr (), m1) \<and> mapper_del name m1 = (Inr v, m2) \<and>
    wf_mapper m2 \<and> mapper_find m2 = mapper_find m"
  using assms by (rule trie.insert_remove)

theorem add_then_del_witness:
  "\<exists>m1 m2. mapper_add ''ab'' 3 new_mapper = (Inr (), m1) \<and> mapper_del ''ab'' m1 = (Inr 3, m2) \<and>
    mapper_find m2 = mapper_find new_mapper"
proof -
  have "has_room new_mapper ''ab''" "\<not> is_pattern ''ab''"
    by (simp_all add: has_room_def valid_name_def name_stem_def good_char_def u16_of_char_def schar_def
        new_mapper_def is_pattern_def)
  from add_then_del [OF wf_new_mapper this, of 3] new_mapper_empty show ?thesis by auto
qed

text \<open>
  Claim C25. \<^verbatim>\<open>Mapper::add\<close> of a name with a byte below 32 or above 127 before its first star throws while it holds
  its mutex, so every later \<^verbatim>\<open>add\<close>, of any name, blocks forever.
\<close>

theorem wrong_char_blocks_add:
  assumes "wf_mapper m" and "\<not> valid_name name" and "m_size m + length name < 65536"
  shows "\<exists>m'. mapper_add name v m = (Inl (Thrown ''Wrong char''), m') \<and>
    (\<forall>other w. mapper_add other w m' = (Inl Deadlock, m'))"
proof -
  let ?m = "m\<lparr>m_locked := True\<rparr>"
  note d = wf_mapperD [OF assms(1)]
  have "growing ?m" using d by (simp add: growing_def)
  from add_loop_wrong_char [OF this, of "Suc 0" name v] assms(2,3) wf_tableD(1) [OF d(4)]
  obtain m' where "add_loop name v (Suc 0) ?m = (Inl (Thrown ''Wrong char''), m')" "m_locked m'"
    by auto
  with d(1) show ?thesis by (auto simp: mapper_add_def)
qed

theorem wrong_char_blocks_add_witness:
  "\<exists>m'. mapper_add [CHR 0xC3, CHR 0xA9] 1 new_mapper = (Inl (Thrown ''Wrong char''), m') \<and>
    mapper_add ''job'' 2 m' = (Inl Deadlock, m')"
proof -
  have "\<not> valid_name [CHR 0xC3, CHR 0xA9]"
    by (simp add: valid_name_def name_stem_def good_char_def u16_of_char_def schar_def)
  from wrong_char_blocks_add [OF wf_new_mapper this, of 1] show ?thesis
    by (auto simp: new_mapper_def)
qed

end
