(* ===== verification/NetFilters.thy ===== *)
theory NetFilters imports Slices begin

text \<open>
  src/netfilter.h and src/netfilter.cpp: the address filter \<^verbatim>\<open>ip/bits\<close>.

  Addresses are 32-bit words in network byte order as \<^verbatim>\<open>inet_addr\<close> and \<^verbatim>\<open>sockaddr_in\<close> hold them in
  memory, read on a little-endian machine. \<^verbatim>\<open>inet_addr\<close> is the parameter \<open>inet\<close>; no law of it is used.
\<close>

record net_filter =
  nf_ip :: "32 word"
  nf_mask :: "32 word"

text \<open>The loop of the constructor that looks for the slash; the view's rest holds the number of bits.\<close>

fun nf_scan :: "nat \<Rightarrow> bytes \<Rightarrow> bytes \<Rightarrow> exn + (bytes \<times> int \<times> bytes)" where
  "nf_scan i [] msk = Inr ([], 32, msk)"
| "nf_scan i (c # cs) msk =
     (if c = CHR ''/''
      then (let ip = take i msk; msk = slice_remove (i + 1) msk
            in case atoi msk of Inl e \<Rightarrow> Inl e | Inr b \<Rightarrow> Inr (ip, to_i32 b, msk))
      else nf_scan (i + 1) cs msk)"

fun shift_loop :: "nat \<Rightarrow> 32 word \<Rightarrow> 32 word" where
  "shift_loop 0 m = m"
| "shift_loop (Suc n) m = shift_loop n (push_bit 1 m)"

definition swap_bytes :: "32 word \<Rightarrow> 32 word" where
  "swap_bytes w =
     or (push_bit 24 (and w 0xFF)) (or (push_bit 8 (and w 0xFF00))
     (or (drop_bit 8 (and w 0xFF0000)) (drop_bit 24 w)))"

definition new_net_filter :: "(bytes \<Rightarrow> 32 word) \<Rightarrow> bytes \<Rightarrow> exn + net_filter" where
  "new_net_filter inet msk = (case nf_scan 0 msk msk of
     Inl e \<Rightarrow> Inl e
   | Inr (ip, bits, msk) \<Rightarrow>
       (let ip = (if ip = [] then msk else ip);
            a = inet ip;
            m = swap_bytes (shift_loop (nat (to_i32 (32 - bits))) 0xFFFFFFFF)
        in Inr \<lparr>nf_ip = and a m, nf_mask = m\<rparr>))"

definition nf_match :: "net_filter \<Rightarrow> 32 word \<Rightarrow> bool" where
  "nf_match f ip = (and ip (nf_mask f) = nf_ip f)"

text \<open>\<^verbatim>\<open>Server::_valid_ip\<close>: with no filters every address passes, else one filter must match.\<close>

fun valid_ip_loop :: "net_filter list \<Rightarrow> 32 word \<Rightarrow> bool" where
  "valid_ip_loop [] ip = False"
| "valid_ip_loop (f # fs) ip = (if nf_match f ip then True else valid_ip_loop fs ip)"

definition valid_ip :: "net_filter list \<Rightarrow> 32 word \<Rightarrow> bool" where
  "valid_ip fs ip = (if length fs = 0 then True else valid_ip_loop fs ip)"

section \<open>Reading the mask\<close>

lemma nf_scan_eq:
  "msk = pre @ cs \<Longrightarrow> i = length pre \<Longrightarrow> CHR ''/'' \<notin> set pre \<Longrightarrow>
   nf_scan i cs msk =
     (if CHR ''/'' \<in> set cs
      then (let rest = tl (dropWhile (\<lambda>c. c \<noteq> CHR ''/'') msk)
            in case atoi rest of Inl e \<Rightarrow> Inl e
               | Inr b \<Rightarrow> Inr (takeWhile (\<lambda>c. c \<noteq> CHR ''/'') msk, to_i32 b, rest))
      else Inr ([], 32, msk))"
proof (induction i cs msk arbitrary: pre rule: nf_scan.induct)
  case (1 i msk)
  then show ?case by simp
next
  case (2 i c cs msk)
  show ?case
  proof (cases "c = CHR ''/''")
    case True
    with "2.prems" have m: "msk = pre @ CHR ''/'' # cs" by simp
    from True "2.prems" show ?thesis unfolding m by (simp add: Let_def slice_remove_def split: sum.splits)
  next
    case False
    with "2.prems" "2.IH" [of "pre @ [c]"] show ?thesis by auto
  qed
qed

lemma shift_loop_push: "shift_loop n m = push_bit n m"
proof (induction n arbitrary: m)
  case (Suc n)
  show ?case unfolding shift_loop.simps Suc.IH push_bit_push_bit by (simp only: Suc_eq_plus1)
qed simp

section \<open>Byte order\<close>

lemma bit_swap_bytes:
  "n < 32 \<Longrightarrow> bit (swap_bytes w) n \<longleftrightarrow> bit w (24 - 8 * (n div 8) + n mod 8)"
proof -
  assume "n < 32"
  then have "n \<in> {0,1,2,3,4,5,6,7,8,9,10,11,12,13,14,15,16,17,18,19,20,21,22,23,24,25,26,27,28,29,30,31}"
    unfolding insert_iff empty_iff by presburger
  moreover have "\<not> bit w k" if "32 \<le> k" for k
    using that bit_imp_le_length [of w k] by auto
  ultimately show ?thesis
    by (elim insertE emptyE) (simp_all add: swap_bytes_def bit_simps numeral_2_eq_2 [symmetric])
qed

lemma swap_index:
  assumes "n < (32::nat)"
  shows "24 - 8 * (n div 8) + n mod 8 < 32"
    and "24 - 8 * ((24 - 8 * (n div 8) + n mod 8) div 8) + (24 - 8 * (n div 8) + n mod 8) mod 8 = n"
proof -
  have "\<forall>n \<in> set [0..<32]. 24 - 8 * (n div 8) + n mod 8 < (32::nat) \<and>
      24 - 8 * ((24 - 8 * (n div 8) + n mod 8) div 8) + (24 - 8 * (n div 8) + n mod 8) mod 8 = n"
    by code_simp
  with assms show "24 - 8 * (n div 8) + n mod 8 < 32"
    and "24 - 8 * ((24 - 8 * (n div 8) + n mod 8) div 8) + (24 - 8 * (n div 8) + n mod 8) mod 8 = n"
    by auto
qed

lemma swap_swap [simp]: "swap_bytes (swap_bytes w) = w"
proof (rule bit_word_eqI)
  fix n assume "n < LENGTH(32)"
  then have n: "n < 32" by simp
  show "bit (swap_bytes (swap_bytes w)) n = bit w n"
    unfolding bit_swap_bytes [OF n] bit_swap_bytes [OF swap_index(1) [OF n]] swap_index(2) [OF n] ..
qed

lemma swap_and: "swap_bytes (and x y) = and (swap_bytes x) (swap_bytes y)"
  by (rule bit_word_eqI) (simp add: bit_swap_bytes bit_and_iff)

lemma swap_inject [simp]: "swap_bytes x = swap_bytes y \<longleftrightarrow> x = y"
  by (metis swap_swap)

lemma bit_high_mask: "bit (and x (push_bit k (- 1))) n \<longleftrightarrow> k \<le> n \<and> bit (x :: 32 word) n"
  using bit_imp_le_length [of x n] by (auto simp: bit_and_iff bit_push_bit_iff bit_not_iff bit_mask_iff)

lemma high_mask_eq_iff:
  "and x (push_bit k (- 1)) = and y (push_bit k (- 1)) \<longleftrightarrow> drop_bit k x = drop_bit k (y :: 32 word)"
proof -
  have "(\<forall>n. bit (and x (push_bit k (- 1))) n = bit (and y (push_bit k (- 1))) n) \<longleftrightarrow>
      (\<forall>n. bit (drop_bit k x) n = bit (drop_bit k y) n)"
    unfolding bit_high_mask bit_drop_bit_eq comp_def by (metis le_Suc_ex le_add1)
  then show ?thesis by (metis bit_word_eqI)
qed

text \<open>
  Claim C30. A filter \<^verbatim>\<open>ip/bits\<close> accepts exactly the addresses whose first \<open>bits\<close> bits, in network order,
  are those of \<open>ip\<close>.
\<close>

theorem net_filter_prefix:
  assumes "CHR ''/'' \<notin> set ip" and "ip \<noteq> []" and "atoi b = Inr bits" and "0 \<le> bits" and "bits \<le> 32"
  shows "\<exists>f. new_net_filter inet (ip @ CHR ''/'' # b) = Inr f \<and>
    (\<forall>a. nf_match f a \<longleftrightarrow>
       drop_bit (nat (32 - bits)) (swap_bytes a) = drop_bit (nat (32 - bits)) (swap_bytes (inet ip)))"
proof -
  let ?k = "nat (32 - bits)" and ?mask = "ip @ CHR ''/'' # b"
  have "to_i32 bits = bits" "to_i32 (32 - bits) = 32 - bits"
    using assms(4,5) by (simp_all add: to_i32_id)
  moreover have "nf_scan 0 ?mask ?mask = Inr (ip, to_i32 bits, b)"
    using nf_scan_eq [of ?mask "[]" ?mask 0] assms(1,3)
    by (simp add: Let_def)
  moreover have ones: "(0xFFFFFFFF :: 32 word) = - 1" by simp
  ultimately have new: "new_net_filter inet ?mask =
      Inr \<lparr>nf_ip = and (inet ip) (swap_bytes (push_bit ?k (- 1))), nf_mask = swap_bytes (push_bit ?k (- 1))\<rparr>"
    using assms(2) unfolding new_net_filter_def shift_loop_push ones by (simp add: Let_def)
  have "nf_match \<lparr>nf_ip = and (inet ip) (swap_bytes (push_bit ?k (- 1))),
      nf_mask = swap_bytes (push_bit ?k (- 1))\<rparr> a \<longleftrightarrow>
      drop_bit ?k (swap_bytes a) = drop_bit ?k (swap_bytes (inet ip))" for a
  proof -
    have "and a (swap_bytes (push_bit ?k (- 1))) = and (inet ip) (swap_bytes (push_bit ?k (- 1))) \<longleftrightarrow>
        swap_bytes (and a (swap_bytes (push_bit ?k (- 1)))) =
        swap_bytes (and (inet ip) (swap_bytes (push_bit ?k (- 1))))" by simp
    then show ?thesis by (simp only: nf_match_def net_filter.simps swap_and swap_swap high_mask_eq_iff)
  qed
  with new show ?thesis by blast
qed

theorem net_filter_prefix_witness:
  "\<exists>f. new_net_filter (\<lambda>_. 0x0100A8C0) (''192.168.0.1'' @ CHR ''/'' # ''24'') = Inr f \<and>
    nf_match f 0xFE00A8C0 \<and> \<not> nf_match f 0xFE01A8C0"
proof -
  have "atoi ''24'' = Inr 24" by (simp add: atoi_def schar_def wrap_signed_def)
  from net_filter_prefix [of "''192.168.0.1''" "''24''" 24 "\<lambda>_. 0x0100A8C0", OF _ _ this]
  obtain f where f: "new_net_filter (\<lambda>_. 0x0100A8C0) (''192.168.0.1'' @ CHR ''/'' # ''24'') = Inr f"
    "\<And>a. nf_match f a \<longleftrightarrow> drop_bit 8 (swap_bytes a) = drop_bit 8 (swap_bytes 0x0100A8C0)"
    by auto
  have "nf_match f 0xFE00A8C0" "\<not> nf_match f 0xFE01A8C0"
    unfolding f(2) by (simp_all add: swap_bytes_def)
  with f(1) show ?thesis by blast
qed

end
