(* ===== verification/Json_Text.thy ===== *)
theory Json_Text imports Buffers begin

text \<open>
  Namespace \<^verbatim>\<open>json\<close> of src/json.cpp: \<open>unescape\<close> and \<open>escape\<close>, which rewrite the tail of a buffer in
  place from position \<open>start\<close> on.

  The definitions keep the loops over the array: \<open>p\<close> is the memory from \<^verbatim>\<open>s.ptr()\<close> on, read and
  written by index. The lemmas show that the loops compute \<open>unesc\<close> and \<open>esc\<close>, recursive functions on
  the text alone.
\<close>

section \<open>The loops of the code\<close>

text \<open>The character one \<^verbatim>\<open>switch\<close> case without \<^verbatim>\<open>u\<close> puts for an escaped one.\<close>

definition plain_escape :: "char \<Rightarrow> char" where
  "plain_escape a =
     (if a = CHR ''b'' then char_of_int 8
      else if a = CHR ''t'' then char_of_int 9
      else if a = CHR ''n'' then char_of_int 10
      else if a = CHR ''f'' then char_of_int 12
      else if a = CHR ''r'' then char_of_int 13
      else a)"

text \<open>The bytes for a code: all but the last are stored at once, the last is left in \<^verbatim>\<open>a\<close>.\<close>

definition code_bytes :: "int \<Rightarrow> char list \<times> char" where
  "code_bytes code =
     (if code \<le> 0x7f then ([], char_of_int code)
      else if code \<le> 0x7ff then
        ([char_of_int (or 0xc0 (drop_bit 6 code))], char_of_int (or 0x80 (and code 0x3f)))
      else
        ([char_of_int (or 0xe0 (drop_bit 12 code)), char_of_int (or 0x80 (and (drop_bit 6 code) 0x3f))],
         char_of_int (or 0x80 (and code 0x3f))))"

fun store_at :: "nat \<Rightarrow> char list \<Rightarrow> bytes \<Rightarrow> bytes" where
  "store_at n [] p = p"
| "store_at n (x # xs) p = store_at (Suc n) xs (p[n := x])"

function unescape_loop ::
  "nat \<Rightarrow> nat \<Rightarrow> nat \<Rightarrow> bool \<Rightarrow> bytes \<Rightarrow> (exn + nat) \<times> bytes" where
  "unescape_loop sz i n pfx p =
     (if i < sz then
        (let a = p ! i in
         if pfx then
           (if a = CHR ''u'' \<and> i + 4 < sz then
              (case hextoi (take 4 (drop (i + 1) p)) of
                 Inl e \<Rightarrow> (Inl e, p)
               | Inr code \<Rightarrow>
                   (let (front, a) = code_bytes code; p = store_at n front p; n = n + length front
                    in unescape_loop sz (i + 4 + 1) (n + 1) False (p[n := a])))
            else unescape_loop sz (i + 1) (n + 1) False (p[n := plain_escape a]))
         else if a = CHR 0x5C then unescape_loop sz (i + 1) n True p
         else unescape_loop sz (i + 1) (n + 1) False (p[n := a]))
      else (Inr n, p))"
  by pat_completeness auto
termination
  by (relation "measure (\<lambda>(sz, i, n, pfx, p). sz - i)") auto

declare unescape_loop.simps [simp del]

definition unescape :: "nat \<Rightarrow> (buffer, unit) prog" where
  "unescape start = (\<lambda>b. case unescape_loop (length (b_data b)) start start False (b_data b) of
     (Inl e, p) \<Rightarrow> (Inl e, b\<lparr>b_data := p\<rparr>)
   | (Inr n, p) \<Rightarrow> (Inr (), b\<lparr>b_data := take n p\<rparr>))"

fun quote_count :: "bytes \<Rightarrow> nat" where
  "quote_count [] = 0"
| "quote_count (a # s) = (if a = CHR 0x22 then 1 else 0) + quote_count s"

function escape_loop :: "int \<Rightarrow> int \<Rightarrow> nat \<Rightarrow> bytes \<Rightarrow> bytes" where
  "escape_loop start i col p =
     (if i \<ge> start then
        (let a = p ! nat (i - int col); p = p[nat i := a] in
         if a = CHR 0x22 then
           (let i = i - 1; p = p[nat i := CHR 0x5C]; col = col - 1
            in if col = 0 then p else escape_loop start (i - 1) col p)
         else escape_loop start (i - 1) col p)
      else p)"
  by pat_completeness auto
termination
  by (relation "measure (\<lambda>(start, i, col, p). nat (i + 1 - start))") auto

declare escape_loop.simps [simp del]

text \<open>
  \<^verbatim>\<open>s.resize(0, size + col)\<close> asks for a capacity of 0, so it never grows the block; the loop starts at
  the new last position, which is outside the block when the block has no room for \<open>col\<close> more bytes.
  The bytes between the old and the new size are written before they are read.
\<close>

definition escape :: "nat \<Rightarrow> (buffer, unit) prog" where
  "escape start = (\<lambda>b.
     let col = quote_count (drop start (b_data b)) in
     if col = 0 then (Inr (), b)
     else (case b_block b of None \<Rightarrow> (Inl Fault, b)
       | Some cap \<Rightarrow>
           (if b_size b + int col > cap then (Inl Fault, b)
            else (Inr (), b\<lparr>b_data := escape_loop (int start) (b_size b + int col - 1) col
                                     (b_data b @ replicate col (CHR 0x00))\<rparr>))))"

section \<open>What they compute\<close>

fun esc :: "bytes \<Rightarrow> bytes" where
  "esc [] = []"
| "esc (c # s) = (if c = CHR 0x22 then [CHR 0x5C, CHR 0x22] else [c]) @ esc s"

fun unesc :: "bytes \<Rightarrow> exn + bytes" where
  "unesc [] = Inr []"
| "unesc (a # s) =
     (if a \<noteq> CHR 0x5C then map_sum id (\<lambda>r. a # r) (unesc s)
      else (case s of
          [] \<Rightarrow> Inr []
        | b # s' \<Rightarrow>
            (if b = CHR ''u'' \<and> 4 \<le> length s'
             then (case hextoi (take 4 s') of
                 Inl e \<Rightarrow> Inl e
               | Inr code \<Rightarrow>
                   map_sum id (\<lambda>r. fst (code_bytes code) @ snd (code_bytes code) # r) (unesc (drop 4 s')))
             else map_sum id (\<lambda>r. plain_escape b # r) (unesc s'))))"

subsection \<open>Escaping\<close>

lemma length_esc: "length (esc s) = length s + quote_count s"
  by (induction s) auto

lemma esc_append [simp]: "esc (s @ t) = esc s @ esc t"
  by (induction s) auto

lemma quote_count_append [simp]: "quote_count (s @ t) = quote_count s + quote_count t"
  by (induction s) auto

lemma esc_no_quote: "quote_count s = 0 \<Longrightarrow> esc s = s"
  by (induction s) (auto split: if_splits)

text \<open>
  The loop, started at the end of a text \<open>s\<close> still to be escaped with a gap of \<open>col\<close> junk bytes after
  it, leaves the escaped text in the room of both.
\<close>

lemma escape_loop_eq:
  assumes "0 < quote_count s" and "length g = quote_count s"
  shows "escape_loop (int (length pre)) (int (length pre + length s + length g) - 1) (quote_count s)
           (pre @ s @ g @ rest) = pre @ esc s @ rest"
  using assms
proof (induction s arbitrary: g rest rule: rev_induct)
  case Nil
  then show ?case by simp
next
  case (snoc c s)
  let ?k = "quote_count (s @ [c])"
  let ?i = "int (length pre + length (s @ [c]) + length g) - 1"
  let ?p = "pre @ (s @ [c]) @ g @ rest"
  have i: "?i \<ge> int (length pre)" by simp
  have ni: "nat (?i - int ?k) = length pre + length s" "nat ?i = length pre + length s + length g"
    using snoc.prems by (simp_all add: nat_eq_iff)
  have a: "?p ! nat (?i - int ?k) = c" unfolding ni by (simp add: nth_append)
  from snoc.prems obtain g1 x where g: "g = g1 @ [x]" by (cases g rule: rev_cases) auto
  have upd: "?p[nat ?i := c] = pre @ s @ c # g1 @ c # rest"
    using list_update_length [of "pre @ s @ c # g1" x rest c] ni(2) g by (simp add: add.assoc)
  show ?case
  proof (cases "c = CHR 0x22")
    case True
    note quote = True
    have k: "?k - 1 = quote_count s" using True by simp
    have g1: "length g1 = quote_count s" using snoc.prems True g by simp
    show ?thesis
    proof (cases "quote_count s = 0")
      case True
      with g1 have "g1 = []" by simp
      have n: "nat (?i - 1) = length pre + length s" using g \<open>g1 = []\<close> by (simp add: nat_eq_iff)
      have "(pre @ s @ c # g1 @ c # rest)[nat (?i - 1) := CHR 0x5C] = pre @ s @ CHR 0x5C # c # rest"
        using list_update_length [of "pre @ s" c "c # rest" "CHR 0x5C"] n \<open>g1 = []\<close> by simp
      then show ?thesis
        unfolding escape_loop.simps [of _ ?i] Let_def if_P [OF i] a upd k
        using True \<open>c = CHR 0x22\<close> by (simp add: esc_no_quote)
    next
      case False
      with g1 obtain g2 y where g2: "g1 = g2 @ [y]" by (cases g1 rule: rev_cases) auto
      have n: "nat (?i - 1) = length pre + length s + length g1" using g g2 by (simp add: nat_eq_iff)
      have u: "(pre @ s @ c # g1 @ c # rest)[nat (?i - 1) := CHR 0x5C] =
          pre @ s @ (c # g2) @ CHR 0x5C # c # rest"
        using list_update_length [of "pre @ s @ c # g2" y "c # rest" "CHR 0x5C"] n g2
        by (simp add: add.assoc)
      have e: "?i - 1 - 1 = int (length pre + length s + length (c # g2)) - 1"
        using g g2 by simp
      have "length (c # g2) = quote_count s" using g1 g2 by simp
      then show ?thesis
        unfolding escape_loop.simps [of _ ?i] Let_def if_P [OF i] a upd k if_P [OF quote] u e
        using False \<open>c = CHR 0x22\<close> snoc.IH [of "c # g2" "CHR 0x5C # c # rest"] by simp
    qed
  next
    case False
    have e: "?i - 1 = int (length pre + length s + length (c # g1)) - 1" using g by simp
    have k: "?k = quote_count s" using False by simp
    have "length (c # g1) = quote_count s" using snoc.prems g k by simp
    with False snoc.prems k show ?thesis
      unfolding escape_loop.simps [of _ ?i] Let_def if_P [OF i] a upd if_not_P [OF False]
      unfolding e k
      using snoc.IH [of "c # g1" "c # rest"] by simp
  qed
qed

lemma escape_ok:
  assumes "wf_buffer b" and "start \<le> length (b_data b)" and "b_block b = Some cap"
    and "b_size b + int (quote_count (drop start (b_data b))) \<le> cap"
  shows "\<exists>b'. escape start b = (Inr (), b') \<and> wf_buffer b' \<and>
    b_data b' = take start (b_data b) @ esc (drop start (b_data b))"
proof (cases "quote_count (drop start (b_data b)) = 0")
  case True
  with assms(1) show ?thesis by (simp add: escape_def esc_no_quote)
next
  case False
  let ?s = "drop start (b_data b)" and ?pre = "take start (b_data b)"
  let ?k = "quote_count ?s"
  have pre: "length ?pre = start" using assms(2) by simp
  have all: "b_data b @ replicate ?k (CHR 0x00) = ?pre @ ?s @ replicate ?k (CHR 0x00) @ []" by simp
  have n: "b_size b + int ?k - 1 = int (length ?pre + length ?s + length (replicate ?k (CHR 0x00))) - 1"
    using assms(2) by (simp add: b_size_def)
  have "escape_loop (int start) (b_size b + int ?k - 1) ?k (b_data b @ replicate ?k (CHR 0x00)) =
      ?pre @ esc ?s"
    using escape_loop_eq [of ?s "replicate ?k (CHR 0x00)" ?pre "[]"] False
    unfolding all n by (simp only: pre length_replicate append_Nil2 simp_thms gr0_conv_Suc not0_implies_Suc)
  with assms False show ?thesis
    by (auto simp: escape_def Let_def wf_buffer_def b_size_def length_esc)
qed

subsection \<open>Unescaping\<close>

lemma length_store_at [simp]: "length (store_at n xs p) = length p"
  by (induction n xs p rule: store_at.induct) auto

lemma store_at_eq:
  "length dn = n \<Longrightarrow> length xs \<le> length gap \<Longrightarrow>
   store_at n xs (dn @ gap @ rest) = dn @ xs @ drop (length xs) gap @ rest"
proof (induction n xs "dn @ gap @ rest" arbitrary: dn gap rule: store_at.induct)
  case (1 n)
  then show ?case by simp
next
  case (2 n x xs)
  then obtain y ys where gap: "gap = y # ys" by (cases gap) auto
  have "(dn @ gap @ rest)[n := x] = (dn @ [x]) @ ys @ rest"
    using 2(2) gap by (simp add: list_update_append)
  with 2(1) [of "dn @ [x]" ys] 2(2,3) gap show ?case by simp
qed

lemma code_bytes_short: "length (fst (code_bytes code)) \<le> 2"
  by (simp add: code_bytes_def)

text \<open>The result of the loop, given what has been written so far and the value of \<open>unesc\<close> on the rest.\<close>

definition unesc_post :: "bytes \<Rightarrow> nat \<Rightarrow> exn + bytes \<Rightarrow> (exn + nat) \<times> bytes \<Rightarrow> bool" where
  "unesc_post dn sz res out = (length (snd out) = sz \<and> (case res of
     Inl e \<Rightarrow> fst out = Inl e
   | Inr r \<Rightarrow> fst out = Inr (length dn + length r) \<and> take (length dn + length r) (snd out) = dn @ r))"

lemma unesc_post_more:
  "unesc_post (dn @ xs) sz res out \<Longrightarrow> unesc_post dn sz (map_sum id (\<lambda>r. xs @ r) res) out"
  by (cases res) (auto simp: unesc_post_def add.assoc)

lemma map_sum_snoc: "map_sum id (\<lambda>r. a # r) res = map_sum id (\<lambda>r. [a] @ r) res"
  by simp

lemma unescape_loop_post:
  "length dn = n \<Longrightarrow> length dn + length gap = i \<Longrightarrow> (pfx \<Longrightarrow> gap \<noteq> []) \<Longrightarrow>
   sz = length dn + length gap + length rest \<Longrightarrow>
   unesc_post dn sz (unesc ((if pfx then [CHR 0x5C] else []) @ rest))
     (unescape_loop sz i n pfx (dn @ gap @ rest))"
proof (induction "length rest" arbitrary: dn gap rest n i pfx rule: less_induct)
  case less
  show ?case
  proof (cases rest)
    case Nil
    with less.prems show ?thesis
      by (simp add: unescape_loop.simps [of i i] unesc_post_def)
  next
    case (Cons a s)
    have lt: "i < sz" and at: "(dn @ gap @ rest) ! i = a"
      using less.prems Cons by (auto simp: nth_append)
    note step = unescape_loop.simps [of sz i n pfx "dn @ gap @ rest", unfolded if_P [OF lt] at Let_def]
    text \<open>One byte \<open>c\<close> written for the byte read.\<close>
    have put: "unesc_post dn sz (map_sum id (\<lambda>r. c # r) (unesc s))
        (unescape_loop sz (i + 1) (n + 1) False ((dn @ gap @ rest)[n := c]))" for c
    proof -
      obtain x xs where x: "gap @ [a] = x # xs" by (cases "gap @ [a]") auto
      have "(dn @ gap @ rest)[n := c] = (dn @ [c]) @ xs @ s"
        using x less.prems(1) Cons list_update_length [of dn x "xs @ s" c]
        by (metis append.assoc append_Cons append_Nil)
      moreover have "length gap = length xs" using arg_cong [OF x, of length] by simp
      moreover have "unesc_post (dn @ [c]) sz (unesc s)
          (unescape_loop sz (i + 1) (n + 1) False ((dn @ [c]) @ xs @ s))"
        using less.hyps [of s "dn @ [c]" "n + 1" xs "i + 1" False] less.prems Cons
          \<open>length gap = length xs\<close> by simp
      ultimately show ?thesis unfolding map_sum_snoc by (metis unesc_post_more)
    qed
    consider (skip) "\<not> pfx" "a = CHR 0x5C" | (copy) "\<not> pfx" "a \<noteq> CHR 0x5C"
      | (plain) "pfx" "\<not> (a = CHR ''u'' \<and> i + 4 < sz)" | (code) "pfx" "a = CHR ''u''" "i + 4 < sz"
      by blast
    then show ?thesis
    proof cases
      case skip
      have "unesc_post dn sz (unesc ([CHR 0x5C] @ s))
          (unescape_loop sz (i + 1) n True (dn @ (gap @ [a]) @ s))"
        using less.hyps [of s dn n "gap @ [a]" "i + 1" True] less.prems Cons by simp
      with skip Cons show ?thesis unfolding step by simp
    next
      case copy
      with put [of a] Cons show ?thesis unfolding step by simp
    next
      case plain
      have "unesc (CHR 0x5C # rest) = map_sum id (\<lambda>r. plain_escape a # r) (unesc s)"
        using plain(2) less.prems Cons by auto
      with plain put [of "plain_escape a"] show ?thesis unfolding step if_not_P [OF plain(2)] by simp
    next
      case code
      have s4: "4 \<le> length s" using code(3) less.prems Cons by simp
      have hex: "take 4 (drop (i + 1) (dn @ gap @ rest)) = take 4 s"
        using less.prems(2) Cons by simp
      show ?thesis
      proof (cases "hextoi (take 4 s)")
        case (Inl e)
        with code s4 Cons less.prems show ?thesis
          unfolding step hex by (simp add: unesc_post_def)
      next
        case (Inr v)
        obtain front c where fc: "code_bytes v = (front, c)" by (cases "code_bytes v")
        let ?gap = "gap @ a # take 4 s" and ?t = "drop 4 s"
        have lf: "length front \<le> 2" using code_bytes_short [of v] fc by simp
        have p: "dn @ gap @ rest = dn @ ?gap @ ?t" using Cons by simp
        have st: "store_at n front (dn @ ?gap @ ?t) = dn @ front @ drop (length front) ?gap @ ?t"
          using store_at_eq [of dn n front ?gap ?t] less.prems(1) lf s4 by simp
        obtain x xs where x: "drop (length front) ?gap = x # xs"
          using lf s4 by (cases "drop (length front) ?gap") auto
        have lx: "length xs + length front + 1 = length gap + 5"
          using arg_cong [OF x, of length] lf s4 by simp
        have upd: "(dn @ front @ drop (length front) ?gap @ ?t)[n + length front := c] =
            (dn @ front @ [c]) @ xs @ ?t"
          unfolding x using list_update_length [of "dn @ front" x "xs @ ?t" c] less.prems(1) by simp
        have l: "length ?t < length rest" "length (dn @ front @ [c]) = n + length front + 1"
          "length (dn @ front @ [c]) + length xs = i + 4 + 1"
          "sz = length (dn @ front @ [c]) + length xs + length ?t"
          using less.prems Cons s4 lx by simp_all
        have "unesc_post (dn @ front @ [c]) sz (unesc ?t)
            (unescape_loop sz (i + 4 + 1) (n + length front + 1) False ((dn @ front @ [c]) @ xs @ ?t))"
          using less.hyps [of ?t, OF l(1,2,3) _ l(4), of False] by simp
        then have post: "unesc_post dn sz (map_sum id (\<lambda>r. (front @ [c]) @ r) (unesc ?t))
            (unescape_loop sz (i + 4 + 1) (n + length front + 1) False ((dn @ front @ [c]) @ xs @ ?t))"
          by (rule unesc_post_more)
        have run: "unescape_loop sz i n pfx (dn @ gap @ rest) =
            unescape_loop sz (i + 4 + 1) (n + length front + 1) False ((dn @ front @ [c]) @ xs @ ?t)"
          unfolding step hex if_P [OF code(1)] if_P [OF conjI [OF code(2,3)]] Inr sum.case fc prod.case
          unfolding p st upd ..
        have "unesc ((if pfx then [CHR 0x5C] else []) @ rest) =
            map_sum id (\<lambda>r. (front @ [c]) @ r) (unesc ?t)"
          using code s4 Cons Inr fc by simp
        with post show ?thesis unfolding run by simp
      qed
    qed
  qed
qed

lemma unescape_eq:
  assumes "start \<le> length (b_data b)"
  shows "case unesc (drop start (b_data b)) of
      Inl e \<Rightarrow> fst (unescape start b) = Inl e
    | Inr r \<Rightarrow> unescape start b = (Inr (), b\<lparr>b_data := take start (b_data b) @ r\<rparr>)"
proof -
  obtain r p where out: "unescape_loop (length (b_data b)) start start False (b_data b) = (r, p)"
    by (cases "unescape_loop (length (b_data b)) start start False (b_data b)")
  have l: "length (take start (b_data b)) = start" "length (take start (b_data b)) + length [] = start"
    "length (b_data b) = length (take start (b_data b)) + length [] + length (drop start (b_data b))"
    using assms by simp_all
  have "unesc_post (take start (b_data b)) (length (b_data b)) (unesc (drop start (b_data b))) (r, p)"
    unfolding out [symmetric]
    using unescape_loop_post [OF l(1,2) _ l(3), of False] by (simp only: if_False append_Nil append_take_drop_id)
  then show ?thesis
    using assms unfolding unescape_def out
    by (cases "unesc (drop start (b_data b))") (simp_all add: unesc_post_def)
qed

subsection \<open>Codes\<close>

text \<open>The UTF-8 bytes of a code below 65536.\<close>

definition utf8 :: "int \<Rightarrow> bytes" where
  "utf8 code = map char_of_int
     (if code < 128 then [code]
      else if code < 2048 then [192 + code div 64, 128 + code mod 64]
      else [224 + code div 4096, 128 + code div 64 mod 64, 128 + code mod 64])"

lemma or_add:
  "0 \<le> x \<Longrightarrow> x < 32 \<Longrightarrow> or 192 x = 192 + (x :: int)"
  "0 \<le> x \<Longrightarrow> x < 64 \<Longrightarrow> or 128 x = 128 + (x :: int)"
  "0 \<le> x \<Longrightarrow> x < 16 \<Longrightarrow> or 224 x = 224 + (x :: int)"
proof -
  have "\<forall>x \<in> set [0..31]. or 192 x = 192 + (x :: int)" by code_simp
  then show "0 \<le> x \<Longrightarrow> x < 32 \<Longrightarrow> or 192 x = 192 + x" by simp
  have "\<forall>x \<in> set [0..63]. or 128 x = 128 + (x :: int)" by code_simp
  then show "0 \<le> x \<Longrightarrow> x < 64 \<Longrightarrow> or 128 x = 128 + x" by simp
  have "\<forall>x \<in> set [0..15]. or 224 x = 224 + (x :: int)" by code_simp
  then show "0 \<le> x \<Longrightarrow> x < 16 \<Longrightarrow> or 224 x = 224 + x" by simp
qed

lemma and_63: "and x 63 = x mod (64 :: int)"
  using take_bit_eq_mask [of 6 x] by (simp add: take_bit_eq_mod mask_eq_exp_minus_1)

lemma code_bytes_utf8:
  assumes "0 \<le> code" and "code < 65536"
  shows "fst (code_bytes code) @ [snd (code_bytes code)] = utf8 code"
  using assms by (auto simp: code_bytes_def utf8_def drop_bit_eq_div and_63 or_add)

lemma hextoi_loop_bound:
  "hextoi_loop cs v = Inr r \<Longrightarrow> 0 \<le> v \<Longrightarrow> (v + 1) * 16 ^ length cs \<le> 2 ^ 62 \<Longrightarrow>
   0 \<le> r \<and> r < (v + 1) * 16 ^ length cs"
proof (induction cs v rule: hextoi_loop.induct)
  case (1 v)
  then show ?case by simp
next
  case (2 c cs v)
  have m: "(16 * v + 16) * 16 ^ length cs = (v + 1) * 16 ^ length (c # cs)" by (simp add: algebra_simps)
  have small: "16 * v + 16 \<le> 2 ^ 62"
  proof -
    have "16 * v + 16 \<le> (16 * v + 16) * 16 ^ length cs"
      using mult_left_mono [of 1 "16 ^ length cs" "16 * v + 16"] "2.prems"(2) by simp
    moreover have "(16 * v + 16) * 16 ^ length cs \<le> 2 ^ 62" unfolding m by (rule "2.prems"(3))
    ultimately show ?thesis by (rule order_trans)
  qed
  have step: "0 \<le> r \<and> r < (v + 1) * 16 ^ length (c # cs)"
    if w: "hextoi_loop cs (to_i64 w) = Inr r" "16 * v \<le> w" "w \<le> 16 * v + 15"
      and ih: "hextoi_loop cs (to_i64 w) = Inr r \<Longrightarrow> 0 \<le> to_i64 w \<Longrightarrow>
        (to_i64 w + 1) * 16 ^ length cs \<le> 2 ^ 62 \<Longrightarrow> 0 \<le> r \<and> r < (to_i64 w + 1) * 16 ^ length cs" for w
  proof -
    have i: "to_i64 w = w" using w small "2.prems"(2) by (intro to_i64_id) simp_all
    have le: "(w + 1) * 16 ^ length cs \<le> (v + 1) * 16 ^ length (c # cs)"
      unfolding m [symmetric] using w by (intro mult_right_mono) simp_all
    have "0 \<le> r \<and> r < (w + 1) * 16 ^ length cs"
      using w(2) "2.prems"(2) ih [unfolded i, OF w(1) [unfolded i] _ order_trans [OF le "2.prems"(3)]] by simp
    with le show ?thesis by (meson less_le_trans)
  qed
  have lits: "schar CHR ''0'' = 48" "schar CHR ''9'' = 57" "schar CHR ''A'' = 65" "schar CHR ''F'' = 70"
    "schar CHR ''a'' = 97" "schar CHR ''f'' = 102" by (simp_all add: schar_def)
  note ih = "2.IH" [OF refl, unfolded lits]
  consider (digit) "48 \<le> schar c \<and> schar c \<le> 57"
    | (upper) "\<not> (48 \<le> schar c \<and> schar c \<le> 57)" "65 \<le> schar c \<and> schar c \<le> 70"
    | (lower) "\<not> (48 \<le> schar c \<and> schar c \<le> 57)" "\<not> (65 \<le> schar c \<and> schar c \<le> 70)"
        "97 \<le> schar c \<and> schar c \<le> 102"
    | (other) "\<not> (48 \<le> schar c \<and> schar c \<le> 57)" "\<not> (65 \<le> schar c \<and> schar c \<le> 70)"
        "\<not> (97 \<le> schar c \<and> schar c \<le> 102)" by blast
  then show ?case
  proof cases
    case digit
    with "2.prems"(1) have "hextoi_loop cs (to_i64 (v * 16 + schar c - 48)) = Inr r"
      by (simp add: lits)
    then show ?thesis
      by (rule step [OF _ _ _ ih(1)]) (use digit in \<open>(linarith | blast | assumption)+\<close>)
  next
    case upper
    with "2.prems"(1) have "hextoi_loop cs (to_i64 (v * 16 + schar c - 65 + 10)) = Inr r"
      by (simp only: hextoi_loop.simps Let_def lits if_False if_True simp_thms)
    then show ?thesis
      by (rule step [OF _ _ _ ih(2)]) (use upper in \<open>(linarith | blast | assumption)+\<close>)
  next
    case lower
    with "2.prems"(1) have "hextoi_loop cs (to_i64 (v * 16 + schar c - 97 + 10)) = Inr r"
      by (simp only: hextoi_loop.simps Let_def lits if_False if_True simp_thms)
    then show ?thesis
      by (rule step [OF _ _ _ ih(3)]) (use lower in \<open>(linarith | blast | assumption)+\<close>)
  next
    case other
    with "2.prems"(1) show ?thesis
      by (simp only: hextoi_loop.simps Let_def lits if_False simp_thms sum.distinct)
  qed
qed

lemma unesc_plain: "CHR 0x5C \<notin> set s \<Longrightarrow> unesc (s @ t) = map_sum id (\<lambda>r. s @ r) (unesc t)"
  by (cases "unesc t"; induction s) auto

lemma unesc_id: "CHR 0x5C \<notin> set s \<Longrightarrow> unesc s = Inr s"
  using unesc_plain [of s "[]"] by simp

lemma unesc_esc: "CHR 0x5C \<notin> set s \<Longrightarrow> unesc (esc s) = Inr s"
  by (induction s) (auto simp: plain_escape_def)

section \<open>Properties\<close>

text \<open>
  Claim C28. On a well-formed buffer \<open>escape\<close> puts a backslash before every quote from \<open>start\<close> on and
  changes nothing else, when the block already has room for the backslashes. When it has not, the
  code writes outside the block: it never asks for more room.
\<close>

theorem escape_correct:
  assumes "wf_buffer b" and "start \<le> length (b_data b)"
  shows "if b_cap b < b_size b + int (quote_count (drop start (b_data b)))
    then escape start b = (Inl Fault, b)
    else \<exists>b'. escape start b = (Inr (), b') \<and> wf_buffer b' \<and>
      b_data b' = take start (b_data b) @ esc (drop start (b_data b))"
proof (cases "b_block b")
  case None
  with assms show ?thesis by (simp add: wf_buffer_def escape_def b_size_def)
next
  case (Some cap)
  with assms(1) have cap: "b_cap b = cap" "b_size b \<le> cap" by (simp_all add: wf_buffer_def)
  show ?thesis
  proof (cases "cap < b_size b + int (quote_count (drop start (b_data b)))")
    case True
    with cap(2) have "quote_count (drop start (b_data b)) \<noteq> 0" by auto
    with True Some cap(1) show ?thesis by (simp add: escape_def Let_def)
  next
    case False
    then have "b_size b + int (quote_count (drop start (b_data b))) \<le> cap" by simp
    from escape_ok [OF assms Some this] False cap(1) show ?thesis by (simp only: if_False)
  qed
qed

theorem escape_correct_witness:
  "(\<exists>b'. escape 1 \<lparr>b_data = ''x'' @ [CHR 0x22, CHR ''y''], b_cap = 16, b_block = Some 16\<rparr> = (Inr (), b') \<and>
     b_data b' = ''x'' @ [CHR 0x5C, CHR 0x22, CHR ''y'']) \<and>
   fst (escape 0 \<lparr>b_data = replicate 16 (CHR 0x22), b_cap = 16, b_block = Some 16\<rparr>) = Inl Fault"
  using escape_correct [of "\<lparr>b_data = ''x'' @ [CHR 0x22, CHR ''y''], b_cap = 16, b_block = Some 16\<rparr>" 1]
    escape_correct [of "\<lparr>b_data = replicate 16 (CHR 0x22), b_cap = 16, b_block = Some 16\<rparr>" 0]
  by (auto simp: wf_buffer_def b_size_def numeral_eq_Suc)

text \<open>
  Claim C29. \<open>unescape\<close>, an in-place loop with a read and a write position, computes the recursive
  function \<open>unesc\<close> of the text from \<open>start\<close> on, or raises the error of a malformed hexadecimal code.
\<close>

theorem unescape_correct:
  assumes "start \<le> length (b_data b)"
  shows "case unesc (drop start (b_data b)) of
      Inl e \<Rightarrow> e = InvalidData \<and> fst (unescape start b) = Inl e
    | Inr r \<Rightarrow> unescape start b = (Inr (), b\<lparr>b_data := take start (b_data b) @ r\<rparr>)"
proof -
  have "unesc s = Inl e \<Longrightarrow> e = InvalidData" for s e
    by (induction s rule: unesc.induct)
       (auto simp: hextoi_def dest!: hextoi_loop_errors split: list.splits if_splits sum.splits)
  with unescape_eq [OF assms] show ?thesis by (simp split: sum.splits)
qed

theorem unescape_correct_witness:
  "\<exists>b'. unescape 1 \<lparr>b_data = ''xa'' @ [CHR 0x5C] @ ''nb'' @ [CHR 0x5C, CHR 0x22], b_cap = 16, b_block = Some 16\<rparr>
     = (Inr (), b') \<and> b_data b' = ''xa'' @ [char_of_int 10, CHR ''b'', CHR 0x22]"
  using unescape_correct [of 1 "\<lparr>b_data = ''xa'' @ [CHR 0x5C] @ ''nb'' @ [CHR 0x5C, CHR 0x22],
    b_cap = 16, b_block = Some 16\<rparr>"]
  by (simp add: plain_escape_def)

text \<open>
  Unescaping what \<open>escape\<close> wrote gives the text back, for a text without backslashes. (With
  one it need not: the code leaves the backslashes themselves as they are.)
\<close>

theorem escape_roundtrip:
  assumes "wf_buffer b" and "start \<le> length (b_data b)" and "CHR 0x5C \<notin> set (drop start (b_data b))"
    and "b_size b + int (quote_count (drop start (b_data b))) \<le> b_cap b"
  shows "\<exists>b'. thn (escape start) (unescape start) b = (Inr (), b') \<and> b_data b' = b_data b"
proof (cases "b_block b")
  case None
  with assms(1) have "b_data b = []" by (simp add: wf_buffer_def)
  with unescape_eq [of start b] assms(2) show ?thesis
    by (simp add: thn_run escape_def)
next
  case (Some cap)
  with assms(1,4) have "b_size b + int (quote_count (drop start (b_data b))) \<le> cap"
    by (simp add: wf_buffer_def)
  from escape_ok [OF assms(1,2) Some this] obtain b1 where
    1: "escape start b = (Inr (), b1)" "b_data b1 = take start (b_data b) @ esc (drop start (b_data b))"
    by blast
  with assms(2) have "start \<le> length (b_data b1)" "drop start (b_data b1) = esc (drop start (b_data b))"
    "take start (b_data b1) = take start (b_data b)" by simp_all
  with unescape_eq [of start b1] 1(1) unesc_esc [OF assms(3)] show ?thesis
    by (simp only: thn_run sum.case prod.case) simp
qed

theorem escape_roundtrip_witness:
  "\<exists>b'. thn (escape 0) (unescape 0) \<lparr>b_data = ''say'' @ [CHR 0x22] @ ''hi'' @ [CHR 0x22], b_cap = 16, b_block = Some 16\<rparr> = (Inr (), b') \<and>
     b_data b' = ''say'' @ [CHR 0x22] @ ''hi'' @ [CHR 0x22]"
  using escape_roundtrip [of "\<lparr>b_data = ''say'' @ [CHR 0x22] @ ''hi'' @ [CHR 0x22], b_cap = 16, b_block = Some 16\<rparr>" 0]
  by (simp add: wf_buffer_def b_size_def)

text \<open>
  A code \<^verbatim>\<open>\uXXXX\<close> is replaced by its UTF-8 bytes, the text around it is kept. (Each half of
  a surrogate pair is a code of its own.)
\<close>

lemma unescape_code:
  assumes "b_data b = pre @ s @ CHR 0x5C # CHR ''u'' # h @ t" and "length h = 4" and "hextoi h = Inr code"
    and "CHR 0x5C \<notin> set s" and "CHR 0x5C \<notin> set t"
  shows "unescape (length pre) b = (Inr (), b\<lparr>b_data := pre @ s @ utf8 code @ t\<rparr>)"
proof -
  have "0 \<le> code \<and> code < (0 + 1) * 16 ^ length h"
    using hextoi_loop_bound [of h 0 code] assms(2,3) by (auto simp: hextoi_def split: if_splits)
  then have "fst (code_bytes code) @ [snd (code_bytes code)] = utf8 code"
    using assms(2) by (intro code_bytes_utf8) simp_all
  then have u: "fst (code_bytes code) @ snd (code_bytes code) # t = utf8 code @ t"
    by (metis append.assoc append_Cons append_Nil)
  have "unesc (CHR 0x5C # CHR ''u'' # h @ t) = Inr (utf8 code @ t)"
    using assms(2,3) unesc_id [OF assms(5)] u by simp
  then have "unesc (drop (length pre) (b_data b)) = Inr (s @ utf8 code @ t)"
    using assms(1) unesc_plain [OF assms(4)] by simp
  with unescape_eq [of "length pre" b] assms(1) show ?thesis by simp
qed

lemma unescape_code_example:
  "unescape 1 \<lparr>b_data = ''qx'' @ [CHR 0x5C] @ ''u20acy'', b_cap = 16, b_block = Some 16\<rparr> =
     (Inr (), \<lparr>b_data = ''qx'' @ map char_of_int [0xE2, 0x82, 0xAC] @ ''y'', b_cap = 16, b_block = Some 16\<rparr>)"
proof -
  have "hextoi ''20ac'' = Inr 8364" by (simp add: hextoi_def schar_def wrap_signed_def)
  from unescape_code [of "\<lparr>b_data = ''qx'' @ [CHR 0x5C] @ ''u20acy'', b_cap = 16, b_block = Some 16\<rparr>"
      "''q''" "''x''" "''20ac''" "''y''", OF _ _ this]
  show ?thesis by (simp add: utf8_def)
qed

end
