(* ===== verification/Json_Scan.thy ===== *)
theory Json_Scan imports Buffers Json_Text begin

text \<open>
  Class \<^verbatim>\<open>Json\<close> of src/json.h and src/json.cpp: the pull scanner with which the program reads the
  members of one JSON object out of a request body.

  The state is the view, the index of the next byte and the status flag; \<open>j_key\<close> and \<open>j_value\<close> are the
  two public members a successful \<open>scan\<close> leaves. Every read of the view is guarded by \<open>json_next\<close> or
  by the loop's own test; an index outside the view is an exception, never an access.
\<close>

record json =
  j_data :: bytes
  j_index :: nat
  j_status :: int
  j_key :: bytes
  j_value :: bytes
  j_level :: int

definition json_load :: "bytes \<Rightarrow> int \<Rightarrow> json" where
  "json_load data level = \<lparr>j_data = data, j_index = 0, j_status = 0, j_key = [], j_value = [],
     j_level = level\<rparr>"

definition json_next :: "(json, char) prog" where
  "json_next = (\<lambda>j.
     if j_index j \<ge> length (j_data j) then (Inl InvalidData, j)
     else (Inr (j_data j ! j_index j), j\<lparr>j_index := j_index j + 1\<rparr>))"

definition json_back :: "(json, unit) prog" where
  "json_back = modify (\<lambda>j. j\<lparr>j_index := j_index j - 1\<rparr>)"

definition json_blank :: "char \<Rightarrow> bool" where
  "json_blank a = (a = CHR '' '' \<or> a = CHR 0x0A \<or> a = CHR 0x0D \<or> a = CHR 0x09)"

function json_strip :: "(json, unit) prog" where
  "json_strip j =
     (if j_index j < length (j_data j)
      then (if json_blank (j_data j ! j_index j) then json_strip (j\<lparr>j_index := j_index j + 1\<rparr>)
            else (Inr (), j))
      else (Inl InvalidData, j))"
  by pat_completeness auto
termination
  by (relation "measure (\<lambda>j. length (j_data j) - j_index j)") auto

text \<open>\<^verbatim>\<open>Slice(&ptr[start], n)\<close>\<close>

definition json_slice :: "nat \<Rightarrow> nat \<Rightarrow> json \<Rightarrow> bytes" where
  "json_slice start n j = take n (drop start (j_data j))"

function string_loop :: "nat \<Rightarrow> (json, bytes) prog" where
  "string_loop start j =
     (if j_index j < length (j_data j)
      then (if j_data j ! j_index j = CHR 0x22 \<and> j_data j ! (j_index j - 1) \<noteq> CHR 0x5C
            then (let j = j\<lparr>j_index := j_index j + 1\<rparr>
                  in (Inr (json_slice start (j_index j - start - 1) j), j))
            else string_loop start (j\<lparr>j_index := j_index j + 1\<rparr>))
      else (Inl InvalidData, j))"
  by pat_completeness auto
termination
  by (relation "measure (\<lambda>(start, j). length (j_data j) - j_index j)") auto

declare json_strip.simps [simp del] string_loop.simps [simp del]

definition json_read_string :: "(json, bytes) prog" where
  "json_read_string = bnd json_next (\<lambda>a.
     if a \<noteq> CHR 0x22 then throw InvalidData else (\<lambda>j. string_loop (j_index j) j))"

text \<open>The loop of \<open>read_value\<close> ends with the flag \<^verbatim>\<open>is_number\<close>, after the byte that follows the value.\<close>

definition value_end :: "char \<Rightarrow> bool" where
  "value_end a = (a = CHR '' '' \<or> a = CHR '','' \<or> a = CHR 0x7D \<or> a = CHR 0x0A \<or> a = CHR 0x0D)"

definition not_digit :: "char \<Rightarrow> bool" where
  "not_digit a = (schar a < schar CHR ''0'' \<or> schar a > schar CHR ''9'')"

function value_loop :: "nat \<Rightarrow> bool \<Rightarrow> (json, bool) prog" where
  "value_loop start is_number j =
     (case json_next j of
        (Inl e, j') \<Rightarrow> (Inl e, j')
      | (Inr a, j') \<Rightarrow>
          (if value_end a then (Inr is_number, j')
           else (let is_number = (if not_digit a then False else is_number) in
             if \<not> is_number \<and> int (j_index j') - int start > 5 then (Inl InvalidData, j')
             else value_loop start is_number j')))"
  by pat_completeness auto
termination
  by (relation "measure (\<lambda>(start, b, j). length (j_data j) - j_index j)")
     (auto simp: json_next_def split: if_splits)

declare value_loop.simps [simp del]

definition json_read_value :: "(json, bytes) prog" where
  "json_read_value = (\<lambda>j. let start = j_index j in
     bnd (value_loop start True) (\<lambda>is_number.
     thn json_back
    (bnd (gets (\<lambda>j. json_slice start (j_index j - start) j)) (\<lambda>result.
     if \<not> is_number \<and> \<not> (equal_lit result ''null'' \<or> equal_lit result ''true'' \<or> equal_lit result ''false'')
     then throw InvalidData else ret result))) j)"

section \<open>Progress of the reads\<close>

text \<open>
  \<open>advances j j'\<close>: the same view, the index not moved back and not past the end; the flag, the key
  and the value are untouched.
\<close>

definition advances :: "json \<Rightarrow> json \<Rightarrow> bool" where
  "advances j j' = (j_data j' = j_data j \<and> j_status j' = j_status j \<and> j_key j' = j_key j \<and>
     j_value j' = j_value j \<and> j_index j \<le> j_index j' \<and>
     (j_index j \<le> length (j_data j) \<longrightarrow> j_index j' \<le> length (j_data j)))"

lemma advances_refl [simp]: "advances j j"
  by (simp add: advances_def)

lemma advances_trans: "advances j j' \<Longrightarrow> advances j' j'' \<Longrightarrow> advances j j''"
  unfolding advances_def by (metis order_trans)

lemma advances_data: "advances j j' \<Longrightarrow> j_data j' = j_data j"
  by (simp add: advances_def)

lemma advances_index: "advances j j' \<Longrightarrow> j_index j \<le> j_index j'"
  by (simp add: advances_def)

lemma advances_upd [simp]:
  "advances j (j\<lparr>j_index := i\<rparr>) \<longleftrightarrow>
     j_index j \<le> i \<and> (j_index j \<le> length (j_data j) \<longrightarrow> i \<le> length (j_data j))"
  by (simp add: advances_def)

lemma advances_step: "j_index j < length (j_data j) \<Longrightarrow> advances j (j\<lparr>j_index := Suc (j_index j)\<rparr>)"
  by simp

lemma json_next_Inr:
  assumes "json_next j = (Inr a, j')"
  shows "advances j j'" and "j_index j < length (j_data j)" and "a = j_data j ! j_index j"
    and "j' = j\<lparr>j_index := Suc (j_index j)\<rparr>"
  using assms by (auto simp: json_next_def split: if_splits)

lemma json_next_Inl: "json_next j = (Inl e, j') \<Longrightarrow> e = InvalidData \<and> j' = j"
  by (auto simp: json_next_def split: if_splits)

lemma json_next_run:
  "j_index j < length (j_data j) \<Longrightarrow>
   json_next j = (Inr (j_data j ! j_index j), j\<lparr>j_index := Suc (j_index j)\<rparr>)"
  "\<not> j_index j < length (j_data j) \<Longrightarrow> json_next j = (Inl InvalidData, j)"
  by (auto simp: json_next_def)

text \<open>What a read promises: it advances, and raises nothing but \<open>InvalidData\<close>.\<close>

definition good_read :: "json \<Rightarrow> (exn + 'a) \<times> json \<Rightarrow> bool" where
  "good_read j out = (advances j (snd out) \<and> (\<forall>e. fst out = Inl e \<longrightarrow> e = InvalidData))"

lemma good_read_simps [simp]:
  "good_read j (Inr x, j') = advances j j'"
  "good_read j (Inl e, j') = (advances j j' \<and> e = InvalidData)"
  by (auto simp: good_read_def)

lemma good_read_from: "advances j j' \<Longrightarrow> good_read j' out \<Longrightarrow> good_read j out"
  by (auto simp: good_read_def intro: advances_trans)

lemma good_read_step:
  "j_index j < length (j_data j) \<Longrightarrow> good_read (j\<lparr>j_index := Suc (j_index j)\<rparr>) out \<Longrightarrow> good_read j out"
  by (rule good_read_from [OF advances_step])

lemma good_readD: "good_read j out \<Longrightarrow> out = (r, j') \<Longrightarrow> advances j j'"
  by (auto simp: good_read_def)

lemma good_read_next: "good_read j (json_next j)"
  by (simp add: json_next_def)

lemma good_read_strip: "good_read j (json_strip j)"
proof (induction j rule: json_strip.induct)
  case (1 j)
  show ?case
    unfolding json_strip.simps [of j]
    using "1.IH" by (auto intro: good_read_step)
qed

lemma json_strip_Inr:
  "json_strip j = (Inr u, j') \<Longrightarrow>
   j_index j' < length (j_data j') \<and> \<not> json_blank (j_data j' ! j_index j')"
proof (induction j rule: json_strip.induct)
  case (1 j)
  show ?case
    using "1.IH" "1.prems" unfolding json_strip.simps [of j] by (simp split: if_splits)
qed

lemma good_read_string_loop: "good_read j (string_loop start j)"
proof (induction start j rule: string_loop.induct)
  case (1 start j)
  show ?case
    unfolding string_loop.simps [of start j]
    using "1.IH" by (auto simp: Let_def intro: good_read_step)
qed

lemma string_loop_Inr:
  "string_loop start j = (Inr v, j') \<Longrightarrow>
   j_index j < j_index j' \<and> v = json_slice start (j_index j' - start - 1) j'"
proof (induction start j rule: string_loop.induct)
  case (1 start j)
  show ?case
    using "1.IH" "1.prems" unfolding string_loop.simps [of start j]
    by (auto simp: Let_def split: if_splits)
qed

lemma good_read_read_string: "good_read j (json_read_string j)"
proof (cases "json_next j")
  case (Pair r j1)
  then show ?thesis
    using good_read_next [of j] good_read_from [of j j1] good_read_string_loop [of j1 "j_index j1"]
    by (cases r) (auto simp: json_read_string_def bnd_run good_read_def intro: advances_trans)
qed

lemma json_read_string_Inr:
  assumes "json_read_string j = (Inr v, j')"
  shows "Suc (j_index j) < j_index j'"
    and "v = json_slice (j_index j + 1) (j_index j' - j_index j - 2) j'"
proof -
  from assms obtain a j1 where 1: "json_next j = (Inr a, j1)" and 2: "string_loop (j_index j1) j1 = (Inr v, j')"
    by (auto simp: json_read_string_def bnd_run split: prod.splits sum.splits if_splits)
  from json_next_Inr(4) [OF 1] have "j_index j1 = Suc (j_index j)" by simp
  with string_loop_Inr [OF 2] show "Suc (j_index j) < j_index j'"
    and "v = json_slice (j_index j + 1) (j_index j' - j_index j - 2) j'" by simp_all
qed

text \<open>Progress, in the form the termination of the next loop needs.\<close>

lemma object_loop_less:
  assumes "(Inr a, j') = json_next j"
  shows "length (j_data j') - j_index j' < length (j_data j) - j_index j"
    and "(Inr v, j'') = json_read_string (j'\<lparr>j_index := j_index j' - Suc 0\<rparr>) \<Longrightarrow>
      length (j_data j'') - j_index j'' < length (j_data j) - j_index j"
proof -
  note n = json_next_Inr [OF assms [symmetric]]
  from n(2,4) show "length (j_data j') - j_index j' < length (j_data j) - j_index j" by simp
  assume r: "(Inr v, j'') = json_read_string (j'\<lparr>j_index := j_index j' - Suc 0\<rparr>)"
  have j: "j'\<lparr>j_index := j_index j' - Suc 0\<rparr> = j" using n(4) by simp
  have "Suc (j_index j) < j_index j''" using json_read_string_Inr(1) r [symmetric] unfolding j .
  moreover have "j_data j'' = j_data j"
    using good_readD [OF good_read_read_string r [unfolded j, symmetric]] by (rule advances_data)
  ultimately show "length (j_data j'') - j_index j'' < length (j_data j) - j_index j"
    using n(2) by simp
qed

text \<open>The loop of \<open>read_object\<close>: a quote is given back and read again as a string.\<close>

function object_loop :: "nat \<Rightarrow> int \<Rightarrow> (json, bytes) prog" where
  "object_loop start lvl j =
     (case json_next j of
        (Inl e, j') \<Rightarrow> (Inl e, j')
      | (Inr a, j') \<Rightarrow>
          (if a = CHR 0x7B \<or> a = CHR ''['' then object_loop start (lvl + 1) j'
           else if a = CHR 0x7D \<or> a = CHR '']'' then
             (if lvl - 1 = 0 then (Inr (json_slice start (j_index j' - start) j'), j')
              else object_loop start (lvl - 1) j')
           else if a = CHR 0x22 then
             (case json_read_string (j'\<lparr>j_index := j_index j' - 1\<rparr>) of
                (Inl e, j'') \<Rightarrow> (Inl e, j'')
              | (Inr _, j'') \<Rightarrow> object_loop start lvl j'')
           else object_loop start lvl j'))"
  by pat_completeness auto
termination
  by (relation "measure (\<lambda>(start, lvl, j). length (j_data j) - j_index j)")
     (auto simp: object_loop_less)

declare object_loop.simps [simp del]

definition json_read_object :: "(json, bytes) prog" where
  "json_read_object = (\<lambda>j. object_loop (j_index j) 0 j)"

text \<open>\<open>scan\<close>: what stands before a member, returning whether there is one, then the member itself.\<close>

definition json_scan_head :: "(json, bool) prog" where
  "json_scan_head = thn json_strip (\<lambda>j.
     (if j_status j = 0 then
        bnd json_next (\<lambda>a. if a \<noteq> CHR 0x7B then throw InvalidData else
          thn json_strip
         (bnd json_next (\<lambda>a. if a = CHR 0x7D then ret False else thn json_back (ret True))))
      else if j_status j = 1 then
        bnd json_next (\<lambda>a. if a = CHR 0x7D then ret False
          else if a \<noteq> CHR '','' then throw InvalidData else ret True)
      else ret True) j)"

definition json_scan_member :: "(json, bool) prog" where
  "json_scan_member =
     thn json_strip
    (bnd json_read_string (\<lambda>k. thn (modify (\<lambda>j. j\<lparr>j_key := k\<rparr>))
    (thn json_strip
    (bnd json_next (\<lambda>a. if a \<noteq> CHR '':'' then throw InvalidData else
     thn json_strip
    (bnd json_next (\<lambda>a. thn json_back
    (bnd (if a = CHR 0x22 then json_read_string
          else if a = CHR 0x7B \<or> a = CHR ''['' then json_read_object
          else json_read_value)
     (\<lambda>v. thn (modify (\<lambda>j. j\<lparr>j_value := v, j_status := 1\<rparr>)) (ret True))))))))))"

definition json_scan :: "(json, bool) prog" where
  "json_scan = (\<lambda>j. if j_data j = [] then (Inr False, j)
     else bnd json_scan_head (\<lambda>go. if \<not> go then ret False else json_scan_member) j)"

definition json_decode_value :: "(int \<Rightarrow> bool) \<Rightarrow> json \<Rightarrow> (buffer, unit) prog" where
  "json_decode_value ok j = thn (buf_set ok (Some (j_value j))) (unescape 0)"

text \<open>The loop \<^verbatim>\<open>while(json.scan())\<close> of the handlers: the members read, and the exception that ends it, if any.\<close>

definition moves :: "json \<Rightarrow> json \<Rightarrow> bool" where
  "moves j j' = (j_data j' = j_data j \<and> j_index j \<le> j_index j' \<and>
     (j_index j \<le> length (j_data j) \<longrightarrow> j_index j' \<le> length (j_data j)))"

lemma moves_refl [simp]: "moves j j"
  by (simp add: moves_def)

lemma moves_trans: "moves j j' \<Longrightarrow> moves j' j'' \<Longrightarrow> moves j j''"
  unfolding moves_def by (metis order_trans)

lemma advances_moves: "advances j j' \<Longrightarrow> moves j j'"
  by (simp add: advances_def moves_def)

text \<open>\<open>safe_read m\<close>: \<open>m\<close> moves forward inside the view and raises nothing but \<open>InvalidData\<close>.\<close>

definition safe_read :: "(json, 'a) prog \<Rightarrow> bool" where
  "safe_read m = (\<forall>j. moves j (snd (m j)) \<and> (\<forall>e. fst (m j) = Inl e \<longrightarrow> e = InvalidData))"

named_theorems safe_intros \<open>rules for \<open>safe_read\<close>\<close>

lemma safe_readI: "(\<And>j. good_read j (m j)) \<Longrightarrow> safe_read m"
  by (auto simp: safe_read_def good_read_def intro: advances_moves)

lemma safe_ret [safe_intros]: "safe_read (ret x)"
  by (simp add: safe_read_def)

lemma safe_throw [safe_intros]: "safe_read (throw InvalidData)"
  by (simp add: safe_read_def)

lemma safe_gets [safe_intros]: "safe_read (gets f)"
  by (simp add: safe_read_def)

lemma safe_bnd [safe_intros]:
  assumes "safe_read m" and "\<And>x. safe_read (f x)"
  shows "safe_read (bnd m f)"
  unfolding safe_read_def
proof
  fix j
  obtain r j1 where 1: "m j = (r, j1)" by (cases "m j")
  show "moves j (snd (bnd m f j)) \<and> (\<forall>e. fst (bnd m f j) = Inl e \<longrightarrow> e = InvalidData)"
  proof (cases r)
    case (Inl e)
    with assms(1) 1 show ?thesis by (auto simp: bnd_run safe_read_def dest: spec [of _ j])
  next
    case (Inr x)
    have "moves j j1" using assms(1) 1 unfolding safe_read_def by (metis snd_conv)
    moreover have "moves j1 (snd (f x j1)) \<and> (\<forall>e. fst (f x j1) = Inl e \<longrightarrow> e = InvalidData)"
      using assms(2) unfolding safe_read_def by blast
    ultimately show ?thesis using 1 Inr by (auto simp: bnd_run intro: moves_trans)
  qed
qed

lemma safe_thn [safe_intros]: "safe_read m \<Longrightarrow> safe_read n \<Longrightarrow> safe_read (thn m n)"
  by (simp add: thn_def safe_bnd)

lemma safe_if [safe_intros]:
  "(b \<Longrightarrow> safe_read m) \<Longrightarrow> (\<not> b \<Longrightarrow> safe_read n) \<Longrightarrow> safe_read (if b then m else n)"
  by simp

lemma safe_key [safe_intros]: "safe_read (modify (\<lambda>j. j\<lparr>j_key := k\<rparr>))"
  by (simp add: safe_read_def moves_def)

lemma safe_value [safe_intros]: "safe_read (modify (\<lambda>j. j\<lparr>j_value := v, j_status := n\<rparr>))"
  by (simp add: safe_read_def moves_def)

lemma safe_next [safe_intros]: "safe_read json_next"
  by (rule safe_readI) (rule good_read_next)

lemma safe_strip [safe_intros]: "safe_read json_strip"
  by (rule safe_readI) (rule good_read_strip)

lemma safe_read_string [safe_intros]: "safe_read json_read_string"
  by (rule safe_readI) (rule good_read_read_string)

text \<open>Reading a byte and giving it back only looks at it.\<close>

lemma peek_eq: "bnd json_next (\<lambda>a. thn json_back (f a)) =
   (\<lambda>j. if j_index j < length (j_data j) then f (j_data j ! j_index j) j else (Inl InvalidData, j))"
  by (rule ext) (simp add: bnd_run json_next_def json_back_def)

lemma safe_peek [safe_intros]:
  "(\<And>a. safe_read (f a)) \<Longrightarrow> safe_read (bnd json_next (\<lambda>a. thn json_back (f a)))"
  unfolding peek_eq safe_read_def by simp

lemma peek_if: "bnd json_next (\<lambda>a. if a = c then m else thn json_back n) =
   (\<lambda>j. if j_index j < length (j_data j)
        then (if j_data j ! j_index j = c then thn json_next m j else n j) else (Inl InvalidData, j))"
  by (rule ext) (simp add: bnd_run thn_run json_next_def json_back_def)

lemma safe_peek_if [safe_intros]:
  assumes "safe_read m" and "safe_read n"
  shows "safe_read (bnd json_next (\<lambda>a. if a = c then m else thn json_back n))"
  using safe_thn [OF safe_next assms(1)] assms(2) unfolding peek_if safe_read_def by simp

lemma good_read_value_loop: "good_read j (value_loop start b j)"
proof (induction start b j rule: value_loop.induct)
  case (1 start b j)
  show ?case
  proof (cases "j_index j < length (j_data j)")
    case True
    note n = json_next_run(1) [OF True]
    from True "1.IH" [OF n [symmetric] refl _ refl] show ?thesis
      unfolding value_loop.simps [of start b j] n by (auto simp: Let_def intro: good_read_step)
  next
    case False
    then show ?thesis unfolding value_loop.simps [of start b j] json_next_run(2) [OF False] by simp
  qed
qed

lemma value_loop_Inr: "value_loop start b j = (Inr r, j') \<Longrightarrow> j_index j < j_index j'"
proof (induction start b j rule: value_loop.induct)
  case (1 start b j)
  show ?case
  proof (cases "j_index j < length (j_data j)")
    case True
    note n = json_next_run(1) [OF True]
    from "1.prems" "1.IH" [OF n [symmetric] refl _ refl] show ?thesis
      unfolding value_loop.simps [of start b j] n by (auto simp: Let_def split: if_splits)
  next
    case False
    with "1.prems" show ?thesis
      unfolding value_loop.simps [of start b j] json_next_run(2) [OF False] by simp
  qed
qed

lemma good_read_object_loop: "good_read j (object_loop start lvl j)"
proof (induction start lvl j rule: object_loop.induct)
  case (1 start lvl j)
  show ?case
  proof (cases "j_index j < length (j_data j)")
    case True
    note n = json_next_run(1) [OF True]
    have giveback: "j\<lparr>j_index := Suc (j_index j), j_index := j_index (j\<lparr>j_index := Suc (j_index j)\<rparr>) - 1\<rparr> = j"
      by simp
    obtain r j2 where s: "json_read_string j = (r, j2)" by (cases "json_read_string j")
    have a: "advances j j2" using good_readD [OF good_read_read_string s] .
    have e: "\<And>e. r = Inl e \<Longrightarrow> e = InvalidData" using good_read_read_string [of j] s by auto
    let ?c = "j_data j ! j_index j" and ?j1 = "j\<lparr>j_index := Suc (j_index j)\<rparr>"
    have adv: "advances j ?j1" using True by simp
    note step = object_loop.simps [of start lvl j, unfolded n, unfolded prod.case sum.case giveback s]
    consider (open_br) "?c = CHR 0x7B \<or> ?c = CHR ''[''"
      | (close_br) "\<not> (?c = CHR 0x7B \<or> ?c = CHR ''['')" "?c = CHR 0x7D \<or> ?c = CHR '']''"
      | (quote) "\<not> (?c = CHR 0x7B \<or> ?c = CHR ''['')" "\<not> (?c = CHR 0x7D \<or> ?c = CHR '']'')" "?c = CHR 0x22"
      | (other) "\<not> (?c = CHR 0x7B \<or> ?c = CHR ''['')" "\<not> (?c = CHR 0x7D \<or> ?c = CHR '']'')" "?c \<noteq> CHR 0x22"
      by blast
    then show ?thesis
    proof cases
      case open_br
      with "1.IH"(1) [OF n [symmetric] refl open_br] good_read_step [OF True] show ?thesis unfolding step if_P [OF open_br] by blast
    next
      case close_br
      show ?thesis
      proof (cases "lvl - 1 = 0")
        case True
        with adv show ?thesis unfolding step if_not_P [OF close_br(1)] if_P [OF close_br(2)] by simp
      next
        case False
        with "1.IH"(2) [OF n [symmetric] refl close_br False] good_read_step [OF True] show ?thesis
          unfolding step if_not_P [OF close_br(1)] if_P [OF close_br(2)] if_not_P [OF False] by blast
      qed
    next
      case quote
      show ?thesis
      proof (cases r)
        case (Inl x)
        with a e show ?thesis unfolding step if_not_P [OF quote(1)] if_not_P [OF quote(2)] if_P [OF quote(3)]
          by simp
      next
        case (Inr v)
        have "good_read j2 (object_loop start lvl j2)"
          using "1.IH"(3) [OF n [symmetric] refl quote, unfolded giveback, OF s [unfolded Inr, symmetric] refl] .
        with a have "good_read j (object_loop start lvl j2)" by (rule good_read_from)
        then show ?thesis unfolding step Inr if_not_P [OF quote(1)] if_not_P [OF quote(2)] if_P [OF quote(3)]
          by simp
      qed
    next
      case other
      with "1.IH"(4) [OF n [symmetric] refl other] good_read_step [OF True] show ?thesis
        unfolding step if_not_P [OF other(1)] if_not_P [OF other(2)] if_not_P [OF other(3)] by blast
    qed
  next
    case False
    then show ?thesis unfolding object_loop.simps [of start lvl j] json_next_run(2) [OF False] by simp
  qed
qed

lemma safe_read_object [safe_intros]: "safe_read json_read_object"
  by (rule safe_readI) (simp add: json_read_object_def good_read_object_loop)

lemma safe_read_value [safe_intros]: "safe_read json_read_value"
proof (rule safe_readI)
  fix j
  show "good_read j (json_read_value j)"
  proof (cases "value_loop (j_index j) True j")
    case (Pair r j')
    with good_read_value_loop [of j "j_index j" True] value_loop_Inr [of "j_index j" True j]
    show ?thesis
      by (cases r)
        (auto simp: json_read_value_def bnd_run thn_run json_back_def Let_def advances_def)
  qed
qed

lemma safe_if_state:
  "safe_read m \<Longrightarrow> safe_read n \<Longrightarrow> safe_read n' \<Longrightarrow>
   safe_read (\<lambda>j. (if P j then m else if Q j then n else n') j)"
  by (auto simp: safe_read_def)

lemma safe_guard:
  "safe_read m \<Longrightarrow> safe_read (\<lambda>j. if P j then (Inr x, j) else m j)"
  by (auto simp: safe_read_def)

lemma safe_scan_head: "safe_read json_scan_head"
  unfolding json_scan_head_def by (intro safe_thn safe_strip safe_if_state) (intro safe_intros)+

lemma safe_scan_member: "safe_read json_scan_member"
  unfolding json_scan_member_def by (intro safe_intros)

lemma safe_scan: "safe_read json_scan"
  unfolding json_scan_def by (intro safe_guard safe_bnd safe_scan_head safe_if safe_ret safe_scan_member)

text \<open>\<open>strict_read m\<close>: when \<open>m\<close> returns true it has moved forward.\<close>

definition strict_read :: "(json, bool) prog \<Rightarrow> bool" where
  "strict_read m = (\<forall>j j'. m j = (Inr True, j') \<longrightarrow> j_index j < j_index j')"

named_theorems strict_intros \<open>rules for \<open>strict_read\<close>\<close>

lemma strict_ret_False [strict_intros]: "strict_read (ret False)"
  by (simp add: strict_read_def)

lemma strict_if [strict_intros]: "strict_read m \<Longrightarrow> strict_read n \<Longrightarrow> strict_read (if b then m else n)"
  by simp

lemma safe_read_index: "safe_read m \<Longrightarrow> m j = (r, j') \<Longrightarrow> j_index j \<le> j_index j'"
  unfolding safe_read_def moves_def by (metis snd_conv)

lemma strict_bnd [strict_intros]:
  assumes "safe_read m" and "\<And>x. strict_read (f x)"
  shows "strict_read (bnd m f)"
  unfolding strict_read_def
proof (intro allI impI)
  fix j j' assume "bnd m f j = (Inr True, j')"
  then obtain x j1 where 1: "m j = (Inr x, j1)" "f x j1 = (Inr True, j')"
    by (auto simp: bnd_run split: prod.splits sum.splits)
  from safe_read_index [OF assms(1) 1(1)] 1(2) assms(2) show "j_index j < j_index j'"
    unfolding strict_read_def by (meson le_less_trans)
qed

lemma strict_thn [strict_intros]: "safe_read m \<Longrightarrow> strict_read n \<Longrightarrow> strict_read (thn m n)"
  by (simp add: thn_def strict_bnd)

lemma strict_string [strict_intros]:
  assumes "\<And>v. safe_read (f v)"
  shows "strict_read (bnd json_read_string f)"
  unfolding strict_read_def
proof (intro allI impI)
  fix j j' assume "bnd json_read_string f j = (Inr True, j')"
  then obtain x j1 where 1: "json_read_string j = (Inr x, j1)" "f x j1 = (Inr True, j')"
    by (auto simp: bnd_run split: prod.splits sum.splits)
  from json_read_string_Inr(1) [OF 1(1)] safe_read_index [OF assms 1(2)]
  show "j_index j < j_index j'" by simp
qed

lemma strict_guard:
  "strict_read m \<Longrightarrow> strict_read (\<lambda>j. if P j then (Inr False, j) else m j)"
  by (auto simp: strict_read_def)

lemma strict_scan_member: "strict_read json_scan_member"
  unfolding json_scan_member_def by (intro strict_thn strict_string safe_intros)

lemma strict_scan: "strict_read json_scan"
  unfolding json_scan_def
  by (intro strict_guard strict_bnd safe_scan_head strict_if strict_ret_False strict_scan_member)

lemma json_scan_inside:
  assumes "json_scan j = (Inr True, j')"
  shows "j_index j < length (j_data j)"
proof (rule ccontr)
  assume out: "\<not> j_index j < length (j_data j)"
  have "json_strip j = (Inl InvalidData, j)" using out json_strip.simps [of j] by simp
  then have "json_scan j = (if j_data j = [] then (Inr False, j) else (Inl InvalidData, j))"
    by (simp add: json_scan_def json_scan_head_def bnd_run thn_run)
  with assms show False by (simp split: if_splits)
qed

lemma json_scan_less:
  assumes "(Inr True, j') = json_scan j"
  shows "length (j_data j') - j_index j' < length (j_data j) - j_index j"
proof -
  note s = assms [symmetric]
  have "moves j j'" using safe_scan s unfolding safe_read_def by (metis snd_conv)
  then have "j_data j' = j_data j" by (simp add: moves_def)
  moreover have "j_index j < j_index j'" using strict_scan s unfolding strict_read_def by blast
  ultimately show ?thesis using json_scan_inside [OF s] by simp
qed

function json_members :: "json \<Rightarrow> (bytes \<times> bytes) list \<times> exn option" where
  "json_members j = (case json_scan j of
     (Inl e, j') \<Rightarrow> ([], Some e)
   | (Inr True, j') \<Rightarrow> (case json_members j' of (ms, e) \<Rightarrow> ((j_key j', j_value j') # ms, e))
   | (Inr False, j') \<Rightarrow> ([], None))"
  by pat_completeness auto
termination
  by (relation "measure (\<lambda>j. length (j_data j) - j_index j)") (auto simp: json_scan_less)

declare json_members.simps [simp del]

section \<open>Reading back a rendered object\<close>

text \<open>What lies ahead of the index, and moving over \<open>n\<close> bytes of it.\<close>

definition ahead :: "json \<Rightarrow> bytes" where
  "ahead j = drop (j_index j) (j_data j)"

definition fwd :: "nat \<Rightarrow> json \<Rightarrow> json" where
  "fwd n j = j\<lparr>j_index := j_index j + n\<rparr>"

lemma fwd_simps [simp]:
  "fwd n (fwd m j) = fwd (m + n) j"
  "fwd 0 j = j"
  "j_data (fwd n j) = j_data j"
  "j_status (fwd n j) = j_status j"
  "j_index (fwd n j) = j_index j + n"
  by (simp_all add: fwd_def add.assoc)

lemma ahead_fwd [simp]: "ahead (fwd n j) = drop n (ahead j)"
  by (simp add: ahead_def add.commute)

lemma ahead_upd [simp]:
  "ahead (j\<lparr>j_key := k\<rparr>) = ahead j" "ahead (j\<lparr>j_value := v\<rparr>) = ahead j"
  "ahead (j\<lparr>j_status := n\<rparr>) = ahead j"
  by (simp_all add: ahead_def)

lemma ahead_Cons:
  assumes "ahead j = c # s"
  shows "j_index j < length (j_data j)" and "j_data j ! j_index j = c"
proof -
  have "drop (j_index j) (j_data j) \<noteq> []" using assms by (simp add: ahead_def)
  then show "j_index j < length (j_data j)" by simp
  show "j_data j ! j_index j = c" using assms unfolding ahead_def by (rule nth_via_drop)
qed

lemma next_ahead: "ahead j = c # s \<Longrightarrow> json_next j = (Inr c, fwd 1 j)"
  using ahead_Cons [of j c s] by (simp add: json_next_run(1) fwd_def)

lemma strip_ahead:
  "ahead j = ws @ c # s \<Longrightarrow> \<forall>w \<in> set ws. json_blank w \<Longrightarrow> \<not> json_blank c \<Longrightarrow>
   json_strip j = (Inr (), fwd (length ws) j)"
proof (induction ws arbitrary: j)
  case Nil
  then show ?case using ahead_Cons [of j c s] json_strip.simps [of j] by simp
next
  case (Cons w ws)
  have "json_strip j = json_strip (fwd 1 j)"
    using ahead_Cons [of j w "ws @ c # s"] Cons.prems json_strip.simps [of j] by (simp add: fwd_def)
  with Cons.IH [of "fwd 1 j"] Cons.prems show ?case by simp
qed

text \<open>
  A string is closed by the first quote without a backslash before it, so its text may hold quotes
  only after a backslash and may not end in one. (A backslash before that backslash makes no
  difference to the code: a text that ends in an escaped backslash is not a string for it.)
\<close>

fun open_str :: "char \<Rightarrow> bytes \<Rightarrow> bool" where
  "open_str p [] = (p \<noteq> CHR 0x5C)"
| "open_str p (c # s) = (\<not> (c = CHR 0x22 \<and> p \<noteq> CHR 0x5C) \<and> open_str c s)"

definition plain_string :: "bytes \<Rightarrow> bool" where
  "plain_string s = open_str (CHR 0x22) s"

lemma string_loop_ahead:
  "ahead j = s @ CHR 0x22 # rest \<Longrightarrow> 0 < j_index j \<Longrightarrow> open_str (j_data j ! (j_index j - 1)) s \<Longrightarrow>
   string_loop start j = (Inr (json_slice start (j_index j + length s - start) j), fwd (length s + 1) j)"
proof (induction s arbitrary: j)
  case Nil
  then show ?case
    using ahead_Cons [of j "CHR 0x22" rest] string_loop.simps [of start j]
    by (simp add: Let_def json_slice_def fwd_def)
next
  case (Cons c s)
  note a = ahead_Cons [of j c "s @ CHR 0x22 # rest"]
  have "string_loop start j = string_loop start (fwd 1 j)"
    using a Cons.prems string_loop.simps [of start j] by (auto simp: fwd_def)
  with Cons.IH [of "fwd 1 j"] Cons.prems a show ?case by (simp add: json_slice_def)
qed

lemma read_string_ahead:
  assumes "ahead j = CHR 0x22 # s @ CHR 0x22 # rest" and "plain_string s"
  shows "json_read_string j = (Inr s, fwd (length s + 2) j)"
proof -
  have n: "json_next j = (Inr (CHR 0x22), fwd 1 j)" using next_ahead [OF assms(1)] .
  have q: "j_data j ! j_index j = CHR 0x22" using ahead_Cons(2) [OF assms(1)] .
  have "json_slice (Suc (j_index j)) (length s) j = s"
    using assms(1) by (simp add: json_slice_def ahead_def drop_Suc tl_drop [symmetric])
  with string_loop_ahead [of "fwd 1 j" s rest "Suc (j_index j)"] assms q show ?thesis
    by (simp add: json_read_string_def bnd_run n plain_string_def json_slice_def)
qed

text \<open>Values without quotes or brackets: a run of digits, or one of the three words.\<close>

definition is_digit :: "char \<Rightarrow> bool" where
  "is_digit c = (\<not> not_digit c)"

definition plain_word :: "bytes \<Rightarrow> bool" where
  "plain_word w = ((w \<noteq> [] \<and> (\<forall>c \<in> set w. is_digit c)) \<or> w = ''null'' \<or> w = ''true'' \<or> w = ''false'')"

lemma digit_not_end: "is_digit c \<Longrightarrow> \<not> value_end c"
  by (auto simp: is_digit_def not_digit_def value_end_def schar_def)

lemma value_loop_digits:
  "ahead j = w @ c # rest \<Longrightarrow> \<forall>d \<in> set w. is_digit d \<Longrightarrow> value_end c \<Longrightarrow>
   value_loop start True j = (Inr True, fwd (length w + 1) j)"
proof (induction w arbitrary: j)
  case Nil
  then show ?case
    using next_ahead [of j c rest] value_loop.simps [of start True j] by simp
next
  case (Cons d w)
  have "value_loop start True j = value_loop start True (fwd 1 j)"
    using next_ahead [of j d "w @ c # rest"] Cons.prems digit_not_end [of d]
      value_loop.simps [of start True j] by (simp add: Let_def is_digit_def)
  with Cons.IH [of "fwd 1 j"] Cons.prems show ?case by simp
qed

lemma value_loop_letters:
  "ahead j = w @ c # rest \<Longrightarrow> \<forall>d \<in> set w. not_digit d \<and> \<not> value_end d \<Longrightarrow> value_end c \<Longrightarrow>
   w \<noteq> [] \<or> \<not> b \<Longrightarrow> j_index j + length w \<le> start + 5 \<Longrightarrow>
   value_loop start b j = (Inr False, fwd (length w + 1) j)"
proof (induction w arbitrary: j b)
  case Nil
  then show ?case
    using next_ahead [of j c rest] value_loop.simps [of start b j] by simp
next
  case (Cons d w)
  have "value_loop start b j = value_loop start False (fwd 1 j)"
    using next_ahead [of j d "w @ c # rest"] Cons.prems
      value_loop.simps [of start b j] by (simp add: Let_def)
  with Cons.IH [of "fwd 1 j" False] Cons.prems show ?case by simp
qed

lemma read_value_ahead:
  assumes "ahead j = w @ c # rest" and "plain_word w" and "value_end c"
  shows "json_read_value j = (Inr w, fwd (length w) j)"
proof -
  have letters: "\<forall>d \<in> set w. not_digit d \<and> \<not> value_end d" "w \<noteq> []" "length w \<le> 5"
    if "\<not> (\<forall>d \<in> set w. is_digit d)"
    using that assms(2) by (auto simp: plain_word_def not_digit_def value_end_def schar_def)
  have loop: "value_loop (j_index j) True j = (Inr (\<forall>d \<in> set w. is_digit d), fwd (length w + 1) j)"
  proof (cases "\<forall>d \<in> set w. is_digit d")
    case True
    with value_loop_digits [OF assms(1) True assms(3)] show ?thesis by simp
  next
    case False
    with value_loop_letters [OF assms(1) letters(1) [OF False] assms(3), of True "j_index j"] letters [OF False]
    show ?thesis by simp
  qed
  have "json_slice (j_index j) (length w) j = w" using assms(1) by (simp add: json_slice_def ahead_def)
  moreover have "(\<forall>d \<in> set w. is_digit d) \<or> w = ''null'' \<or> w = ''true'' \<or> w = ''false''"
    using assms(2) by (auto simp: plain_word_def)
  ultimately show ?thesis
    using loop by (simp add: json_read_value_def bnd_run thn_run json_back_def json_slice_def fwd_def Let_def)
qed

text \<open>Objects and arrays: brackets of either kind are only counted.\<close>

datatype obj_token = Open_tok char | Close_tok char | Text_tok bytes | Other_tok char

fun tok_text :: "obj_token \<Rightarrow> bytes" where
  "tok_text (Open_tok c) = [c]"
| "tok_text (Close_tok c) = [c]"
| "tok_text (Text_tok s) = CHR 0x22 # s @ [CHR 0x22]"
| "tok_text (Other_tok c) = [c]"

fun valid_tok :: "obj_token \<Rightarrow> bool" where
  "valid_tok (Open_tok c) = (c = CHR 0x7B \<or> c = CHR ''['')"
| "valid_tok (Close_tok c) = (c = CHR 0x7D \<or> c = CHR '']'')"
| "valid_tok (Text_tok s) = plain_string s"
| "valid_tok (Other_tok c) = (c \<notin> {CHR 0x7B, CHR ''['', CHR 0x7D, CHR '']'', CHR 0x22})"

fun balanced :: "int \<Rightarrow> obj_token list \<Rightarrow> bool" where
  "balanced lvl [] = False"
| "balanced lvl (Open_tok c # ts) = balanced (lvl + 1) ts"
| "balanced lvl (Close_tok c # ts) = (if lvl - 1 = 0 then ts = [] else balanced (lvl - 1) ts)"
| "balanced lvl (Text_tok s # ts) = balanced lvl ts"
| "balanced lvl (Other_tok c # ts) = balanced lvl ts"

definition toks_text :: "obj_token list \<Rightarrow> bytes" where
  "toks_text ts = concat (map tok_text ts)"

lemma toks_text_simps [simp]: "toks_text [] = []" "toks_text (x # ts) = tok_text x @ toks_text ts"
  by (simp_all add: toks_text_def)

lemma object_loop_ahead:
  "ahead j = toks_text ts @ rest \<Longrightarrow> \<forall>x \<in> set ts. valid_tok x \<Longrightarrow> balanced lvl ts \<Longrightarrow>
   object_loop start lvl j =
     (Inr (json_slice start (j_index j + length (toks_text ts) - start) j), fwd (length (toks_text ts)) j)"
proof (induction lvl ts arbitrary: j rule: balanced.induct)
  case (1 lvl)
  then show ?case by simp
next
  case (2 lvl c ts)
  have "object_loop start lvl j = object_loop start (lvl + 1) (fwd 1 j)"
    using next_ahead [of j c "toks_text ts @ rest"] "2.prems" object_loop.simps [of start lvl j] by simp
  with "2.IH" [of "fwd 1 j"] "2.prems" show ?case by (simp add: json_slice_def)
next
  case (3 lvl c ts)
  have n: "json_next j = (Inr c, fwd 1 j)" using next_ahead [of j c "toks_text ts @ rest"] "3.prems" by simp
  have c: "\<not> (c = CHR 0x7B \<or> c = CHR ''['')" "c = CHR 0x7D \<or> c = CHR '']''" using "3.prems" by auto
  show ?case
  proof (cases "lvl - 1 = 0")
    case True
    with "3.prems" c show ?thesis
      unfolding object_loop.simps [of start lvl j] n by (auto simp: json_slice_def)
  next
    case False
    have "object_loop start lvl j = object_loop start (lvl - 1) (fwd 1 j)"
      using False c unfolding object_loop.simps [of start lvl j] n by auto
    with "3.IH" [OF False, of "fwd 1 j"] "3.prems" False show ?thesis by (simp add: json_slice_def)
  qed
next
  case (4 lvl s ts)
  have n: "json_next j = (Inr (CHR 0x22), fwd 1 j)" using next_ahead [of j "CHR 0x22"] "4.prems" by simp
  have "json_read_string j = (Inr s, fwd (length s + 2) j)"
    using read_string_ahead [of j s "toks_text ts @ rest"] "4.prems" by simp
  then have "object_loop start lvl j = object_loop start lvl (fwd (length s + 2) j)"
    unfolding object_loop.simps [of start lvl j] n by (simp add: fwd_def)
  with "4.IH" [of "fwd (length s + 2) j"] "4.prems" show ?case by (simp add: json_slice_def add.assoc)
next
  case (5 lvl c ts)
  have n: "json_next j = (Inr c, fwd 1 j)" using next_ahead [of j c "toks_text ts @ rest"] "5.prems" by simp
  have "object_loop start lvl j = object_loop start lvl (fwd 1 j)"
    using "5.prems" unfolding object_loop.simps [of start lvl j] n by auto
  with "5.IH" [of "fwd 1 j"] "5.prems" show ?case by (simp add: json_slice_def)
qed

lemma read_object_ahead:
  assumes "ahead j = toks_text ts @ rest" and "\<forall>x \<in> set ts. valid_tok x" and "balanced 0 ts"
  shows "json_read_object j = (Inr (toks_text ts), fwd (length (toks_text ts)) j)"
  using object_loop_ahead [OF assms, of "j_index j"] assms(1)
  by (simp add: json_read_object_def json_slice_def ahead_def)

subsection \<open>Members\<close>

datatype jvalue = Str_val bytes | Word_val bytes | Obj_val "obj_token list"

fun value_text :: "jvalue \<Rightarrow> bytes" where
  "value_text (Str_val s) = CHR 0x22 # s @ [CHR 0x22]"
| "value_text (Word_val w) = w"
| "value_text (Obj_val ts) = toks_text ts"

fun value_view :: "jvalue \<Rightarrow> bytes" where
  "value_view (Str_val s) = s"
| "value_view (Word_val w) = w"
| "value_view (Obj_val ts) = toks_text ts"

fun valid_value :: "jvalue \<Rightarrow> bool" where
  "valid_value (Str_val s) = plain_string s"
| "valid_value (Word_val w) = plain_word w"
| "valid_value (Obj_val ts) = ((\<exists>c ts'. ts = Open_tok c # ts') \<and> (\<forall>x \<in> set ts. valid_tok x) \<and> balanced 0 ts)"

record member_text =
  m_before :: bytes
  m_key :: bytes
  m_after_key :: bytes
  m_before_value :: bytes
  m_value :: jvalue
  m_after :: bytes

definition render_member :: "member_text \<Rightarrow> bytes" where
  "render_member m = m_before m @ CHR 0x22 # m_key m @ CHR 0x22 # m_after_key m @ CHR '':'' #
     m_before_value m @ value_text (m_value m) @ m_after m"

definition blanks :: "bytes \<Rightarrow> bool" where
  "blanks ws = (\<forall>w \<in> set ws. json_blank w)"

text \<open>A number or word followed by a tab is refused by the code.\<close>

definition valid_member :: "member_text \<Rightarrow> bool" where
  "valid_member m = (blanks (m_before m) \<and> blanks (m_after_key m) \<and> blanks (m_before_value m) \<and>
     blanks (m_after m) \<and> plain_string (m_key m) \<and> valid_value (m_value m) \<and>
     (\<forall>w. m_value m = Word_val w \<longrightarrow> (case m_after m of [] \<Rightarrow> True | c # _ \<Rightarrow> c \<noteq> CHR 0x09)))"

fun render_members :: "member_text list \<Rightarrow> bytes" where
  "render_members [] = [CHR 0x7D]"
| "render_members [m] = render_member m @ [CHR 0x7D]"
| "render_members (m # ms) = render_member m @ CHR '','' # render_members ms"

definition render_object :: "bytes \<Rightarrow> member_text list \<Rightarrow> bytes" where
  "render_object lead ms = lead @ CHR 0x7B # render_members ms"

lemma digit_start:
  assumes "is_digit d"
  shows "\<not> json_blank d" and "d \<noteq> CHR 0x22" and "d \<noteq> CHR 0x7B" and "d \<noteq> CHR ''[''"
  using assms by (auto simp: is_digit_def not_digit_def json_blank_def schar_def)

lemma plain_word_start:
  assumes "plain_word w"
  shows "w \<noteq> []" and "\<not> json_blank (hd w)" and "hd w \<notin> {CHR 0x22, CHR 0x7B, CHR ''[''}"
proof -
  have "(w \<noteq> [] \<and> is_digit (hd w)) \<or> w = ''null'' \<or> w = ''true'' \<or> w = ''false''"
    using assms hd_in_set [of w] by (auto simp: plain_word_def)
  then show "w \<noteq> []" and "\<not> json_blank (hd w)" and "hd w \<notin> {CHR 0x22, CHR 0x7B, CHR ''[''}"
    using digit_start [of "hd w"] by (auto simp: json_blank_def)
qed

lemma value_text_start: "valid_value v \<Longrightarrow> value_text v \<noteq> [] \<and> \<not> json_blank (hd (value_text v))"
  using plain_word_start by (cases v) (auto simp: json_blank_def)

lemma scan_member_ahead:
  assumes "ahead j = render_member m @ c # rest" and "valid_member m" and "c = CHR '','' \<or> c = CHR 0x7D"
  shows "\<exists>j'. json_scan_member j = (Inr True, j') \<and> j_data j' = j_data j \<and> j_status j' = 1 \<and>
    j_key j' = m_key m \<and> j_value j' = value_view (m_value m) \<and> ahead j' = m_after m @ c # rest"
proof -
  note v = assms(2) [unfolded valid_member_def blanks_def]
  let ?tail = "m_after m @ c # rest"
  let ?v = "value_text (m_value m)"
  define j1 where "j1 = fwd (length (m_before m)) j"
  have s1: "json_strip j = (Inr (), j1)"
    unfolding j1_def using assms(1) v
    by (intro strip_ahead [where c = "CHR 0x22"]) (auto simp: render_member_def json_blank_def)
  have a1: "ahead j1 = CHR 0x22 # m_key m @ CHR 0x22 # m_after_key m @ CHR '':'' # m_before_value m @ ?v @ ?tail"
    using assms(1) by (simp add: j1_def render_member_def)
  define j2 where "j2 = (fwd (length (m_key m) + 2) j1)\<lparr>j_key := m_key m\<rparr>"
  have s2: "json_read_string j1 = (Inr (m_key m), fwd (length (m_key m) + 2) j1)"
    using read_string_ahead [OF a1] v by blast
  have a2: "ahead j2 = m_after_key m @ CHR '':'' # m_before_value m @ ?v @ ?tail"
    using a1 by (simp add: j2_def)
  define j3 where "j3 = fwd (length (m_after_key m)) j2"
  have s3: "json_strip j2 = (Inr (), j3)"
    unfolding j3_def using v by (intro strip_ahead [OF a2]) (auto simp: json_blank_def)
  have a3: "ahead j3 = CHR '':'' # m_before_value m @ ?v @ ?tail" using a2 by (simp add: j3_def)
  note s4 = next_ahead [OF a3]
  have a4: "ahead (fwd 1 j3) = m_before_value m @ ?v @ ?tail" using a3 by simp
  obtain d vt where d: "?v = d # vt" "\<not> json_blank d"
    using value_text_start [of "m_value m"] v by (cases ?v) auto
  define j5 where "j5 = fwd (length (m_before_value m)) (fwd 1 j3)"
  have s5: "json_strip (fwd 1 j3) = (Inr (), j5)"
    unfolding j5_def using a4 d v by (intro strip_ahead [where c = d and s = "vt @ ?tail"]) auto
  have a5: "ahead j5 = ?v @ ?tail" using a3 by (simp add: j5_def)
  then have s6: "json_next j5 = (Inr d, fwd 1 j5)" using d(1) next_ahead [of j5 d] by simp
  have back6: "json_back (fwd 1 j5) = (Inr (), j5)" by (simp add: json_back_def fwd_def)
  have s7: "(if d = CHR 0x22 then json_read_string
      else if d = CHR 0x7B \<or> d = CHR ''['' then json_read_object else json_read_value) j5 =
      (Inr (value_view (m_value m)), fwd (length ?v) j5)"
  proof (cases "m_value m")
    case (Str_val s)
    with d a5 v read_string_ahead [of j5 s ?tail] show ?thesis by simp
  next
    case (Word_val w)
    have "\<exists>c' r'. ?tail = c' # r' \<and> value_end c'"
      using v Word_val assms(3) by (cases "m_after m") (auto simp: value_end_def json_blank_def)
    then obtain c' r' where t: "?tail = c' # r'" "value_end c'" by blast
    have "d \<noteq> CHR 0x22 \<and> d \<noteq> CHR 0x7B \<and> d \<noteq> CHR ''[''"
      using d(1) v Word_val plain_word_start(3) [of w] by auto
    with read_value_ahead [of j5 w c' r'] a5 t v Word_val show ?thesis by simp
  next
    case (Obj_val ts)
    with d v have "d \<noteq> CHR 0x22" "d = CHR 0x7B \<or> d = CHR ''[''" by auto
    with read_object_ahead [of j5 ts ?tail] a5 v Obj_val show ?thesis by simp
  qed
  have "json_scan_member j = (Inr True, (fwd (length ?v) j5)\<lparr>j_value := value_view (m_value m), j_status := 1\<rparr>)"
    unfolding json_scan_member_def thn_Inr [where m = json_strip, OF s1]
      bnd_Inr [where m = json_read_string, OF s2] thn_modify j2_def [symmetric]
      thn_Inr [where m = json_strip, OF s3] bnd_Inr [where m = json_next, OF s4]
    by (simp add: thn_Inr [where m = json_strip, OF s5 [simplified]] bnd_Inr [where m = json_next, OF s6]
        thn_Inr [where m = json_back, OF back6 [simplified]] bnd_Inr [where m = "if d = CHR 0x22 then _ else _", OF s7])
  moreover have "ahead ((fwd (length ?v) j5)\<lparr>j_value := value_view (m_value m), j_status := 1\<rparr>) = ?tail"
    using a5 by simp
  ultimately show ?thesis
    by (auto simp: j5_def j3_def j2_def j1_def fwd_def)
qed

lemma scan_head_next:
  assumes "ahead j = ws @ CHR '','' # rest" and "blanks ws" and "j_status j = 1"
  shows "json_scan_head j = (Inr True, fwd (length ws + 1) j)"
proof -
  have "json_strip j = (Inr (), fwd (length ws) j)"
    using assms(1,2) unfolding blanks_def by (rule strip_ahead) (simp add: json_blank_def)
  moreover have "json_next (fwd (length ws) j) = (Inr (CHR '',''), fwd (length ws + 1) j)"
    using next_ahead [of "fwd (length ws) j"] assms(1) by simp
  ultimately show ?thesis using assms(3) by (simp add: json_scan_head_def thn_run bnd_run)
qed

lemma scan_head_last:
  assumes "ahead j = ws @ CHR 0x7D # rest" and "blanks ws" and "j_status j = 1"
  shows "json_scan_head j = (Inr False, fwd (length ws + 1) j)"
proof -
  have "json_strip j = (Inr (), fwd (length ws) j)"
    using assms(1,2) unfolding blanks_def by (rule strip_ahead) (simp add: json_blank_def)
  moreover have "json_next (fwd (length ws) j) = (Inr (CHR 0x7D), fwd (length ws + 1) j)"
    using next_ahead [of "fwd (length ws) j"] assms(1) by simp
  ultimately show ?thesis using assms(3) by (simp add: json_scan_head_def thn_run bnd_run)
qed

lemma scan_head_first:
  assumes "ahead j = lead @ CHR 0x7B # ws @ c # rest" and "blanks lead" and "blanks ws"
    and "\<not> json_blank c" and "j_status j = 0"
  shows "json_scan_head j =
    (if c = CHR 0x7D then (Inr False, fwd (length lead + 1 + length ws + 1) j)
     else (Inr True, fwd (length lead + 1 + length ws) j))"
proof -
  let ?j1 = "fwd (length lead) j" and ?j2 = "fwd (length lead + 1) j"
  let ?j3 = "fwd (length lead + 1 + length ws) j"
  have s1: "json_strip j = (Inr (), ?j1)"
    using assms(1,2) unfolding blanks_def by (rule strip_ahead) (simp add: json_blank_def)
  have s2: "json_next ?j1 = (Inr (CHR 0x7B), ?j2)" using next_ahead [of ?j1] assms(1) by simp
  have a2: "ahead ?j2 = ws @ c # rest" using assms(1) by simp
  have s3: "json_strip (fwd (length lead + 1) j) = (Inr (), ?j3)"
    using strip_ahead [OF a2 assms(3) [unfolded blanks_def] assms(4)] by simp
  have s4: "json_next ?j3 = (Inr c, fwd 1 ?j3)"
    using next_ahead [of ?j3 c rest] assms(1) by simp
  have s5: "json_back (fwd 1 ?j3) = (Inr (), ?j3)" by (simp add: json_back_def fwd_def)
  have i: "j_status ?j1 = 0" using assms(5) by simp
  show ?thesis
    unfolding json_scan_head_def thn_Inr [where m = json_strip, OF s1] if_P [OF i]
      bnd_Inr [where m = json_next, OF s2]
    by (simp only: simp_thms if_False thn_Inr [where m = json_strip, OF s3] bnd_Inr [where m = json_next, OF s4])
       (simp add: thn_Inr [where m = json_back, OF s5 [simplified]])
qed

lemma ahead_data: "ahead j = a @ b # c \<Longrightarrow> j_data j \<noteq> []"
  by (auto simp: ahead_def)

text \<open>The rest of the members, after the head has found one.\<close>

definition members_of :: "member_text list \<Rightarrow> (bytes \<times> bytes) list" where
  "members_of ms = map (\<lambda>m. (m_key m, value_view (m_value m))) ms"

lemma members_ahead:
  "ms \<noteq> [] \<Longrightarrow> \<forall>m \<in> set ms. valid_member m \<Longrightarrow> ahead j1 = render_members ms @ rest \<Longrightarrow>
   j_data j \<noteq> [] \<Longrightarrow> json_scan_head j = (Inr True, j1) \<Longrightarrow>
   json_members j = (members_of ms, None)"
proof (induction ms arbitrary: j j1 rule: render_members.induct)
  case 1
  then show ?case by simp
next
  case (2 m)
  have v: "valid_member m" using "2.prems" by simp
  obtain j' where j': "json_scan_member j1 = (Inr True, j')" "j_data j' = j_data j1" "j_status j' = 1"
    "j_key j' = m_key m" "j_value j' = value_view (m_value m)" "ahead j' = m_after m @ CHR 0x7D # rest"
    using scan_member_ahead [of j1 m "CHR 0x7D" rest] "2.prems" v by auto
  have s: "json_scan j = (Inr True, j')" using "2.prems"(4,5) j'(1) by (simp add: json_scan_def bnd_run)
  have h: "json_scan_head j' = (Inr False, fwd (length (m_after m) + 1) j')"
    using scan_head_last [OF j'(6) _ j'(3)] v by (simp add: valid_member_def)
  have "json_scan j' = (Inr False, fwd (length (m_after m) + 1) j')"
    using ahead_data [OF j'(6)] h by (simp add: json_scan_def bnd_run)
  with s j'(4,5) show ?case
    by (simp add: json_members.simps [of j] json_members.simps [of j'] members_of_def)
next
  case (3 m m' ms)
  have v: "valid_member m" using "3.prems" by simp
  let ?rest = "render_members (m' # ms) @ rest"
  obtain j' where j': "json_scan_member j1 = (Inr True, j')" "j_data j' = j_data j1" "j_status j' = 1"
    "j_key j' = m_key m" "j_value j' = value_view (m_value m)" "ahead j' = m_after m @ CHR '','' # ?rest"
    using scan_member_ahead [of j1 m "CHR '',''" ?rest] "3.prems" v by auto
  have s: "json_scan j = (Inr True, j')" using "3.prems"(4,5) j'(1) by (simp add: json_scan_def bnd_run)
  have h: "json_scan_head j' = (Inr True, fwd (length (m_after m) + 1) j')"
    using scan_head_next [OF j'(6) _ j'(3)] v by (simp add: valid_member_def)
  have "ahead (fwd (length (m_after m) + 1) j') = ?rest" using j'(6) by simp
  then have "json_members j' = (members_of (m' # ms), None)"
    using "3.IH" [OF _ _ _ ahead_data [OF j'(6)] h] "3.prems"(2) by simp
  with s j'(4,5) show ?case by (simp add: json_members.simps [of j] members_of_def)
qed

lemma render_members_start:
  assumes "valid_member m"
  shows "\<exists>r. render_members (m # ms) = m_before m @ CHR 0x22 # r"
  by (cases ms) (auto simp: render_member_def)

section \<open>Properties\<close>

text \<open>
  Claim C27. Whatever the view holds, one call of \<open>scan\<close> keeps it, moves the index forward inside it,
  raises nothing but \<open>InvalidData\<close>, and has moved strictly when it returns true: the loops
  \<^verbatim>\<open>while(json.scan())\<close> of the handlers end.
\<close>

theorem json_scan_safe:
  assumes "json_scan j = (r, j')"
  shows "j_data j' = j_data j \<and> j_index j \<le> j_index j' \<and>
    (j_index j \<le> length (j_data j) \<longrightarrow> j_index j' \<le> length (j_data j)) \<and>
    (\<forall>e. r = Inl e \<longrightarrow> e = InvalidData) \<and> (r = Inr True \<longrightarrow> j_index j < j_index j')"
proof -
  have "moves j j'" and "\<forall>e. r = Inl e \<longrightarrow> e = InvalidData"
    using safe_scan assms unfolding safe_read_def by (metis snd_conv, metis fst_conv)
  moreover have "r = Inr True \<longrightarrow> j_index j < j_index j'"
    using strict_scan assms unfolding strict_read_def by blast
  ultimately show ?thesis by (simp add: moves_def)
qed

theorem json_scan_safe_witness:
  "\<exists>j'. json_scan (json_load [CHR 0x7B, CHR 0x22, CHR ''a'', CHR 0x22, CHR '':'', CHR ''7'', CHR 0x7D] 0) =
       (Inr True, j') \<and> j_index j' = 6 \<and> 0 < j_index j'"
proof -
  let ?j = "json_load [CHR 0x7B, CHR 0x22, CHR ''a'', CHR 0x22, CHR '':'', CHR ''7'', CHR 0x7D] 0"
  have s: "fst (json_scan ?j) = Inr True" "j_index (snd (json_scan ?j)) = 6"
    by code_simp+
  then have r: "json_scan ?j = (Inr True, snd (json_scan ?j))" by (metis prod.collapse)
  from json_scan_safe [OF r] have "j_index ?j < j_index (snd (json_scan ?j))" by blast
  then have "0 < j_index (snd (json_scan ?j))" by (simp add: json_load_def)
  with s r show ?thesis by blast
qed

text \<open>
  Claim C26. Reading back an object: blanks, an opening brace, members with their blanks, separated by
  commas, and a closing brace give exactly the keys and the values of the members, in order. A string
  value is its text without the quotes, still escaped; a number or word is itself; an object or array
  is its whole text.
\<close>

theorem json_members_render:
  assumes "blanks lead" and "ms \<noteq> []" and "\<forall>m \<in> set ms. valid_member m"
  shows "json_members (json_load (render_object lead ms @ rest) level) =
    (map (\<lambda>m. (m_key m, value_view (m_value m))) ms, None)"
proof -
  let ?j = "json_load (render_object lead ms @ rest) level"
  obtain m ms' where ms: "ms = m # ms'" using assms(2) by (cases ms) auto
  with assms(3) have vm: "valid_member m" by simp
  then obtain r where r: "render_members ms = m_before m @ CHR 0x22 # r"
    using render_members_start [of m ms'] ms by auto
  have a: "ahead ?j = lead @ CHR 0x7B # m_before m @ CHR 0x22 # r @ rest"
    using r by (simp add: ahead_def json_load_def render_object_def)
  have "json_scan_head ?j = (Inr True, fwd (length lead + 1 + length (m_before m)) ?j)"
    using scan_head_first [OF a assms(1)] vm by (simp add: valid_member_def json_blank_def json_load_def)
  note h = this
  text \<open>The blanks before the first member are skipped twice; the member may as well have none.\<close>
  let ?m = "m\<lparr>m_before := []\<rparr>"
  have "render_members (?m # ms') = CHR 0x22 # r"
    using r ms by (cases ms') (simp_all add: render_member_def)
  then have "ahead (fwd (length lead + 1 + length (m_before m)) ?j) = render_members (?m # ms') @ rest"
    using a by simp
  moreover have "\<forall>m \<in> set (?m # ms'). valid_member m"
    using assms(3) ms by (auto simp: valid_member_def blanks_def)
  ultimately have "json_members ?j = (members_of (?m # ms'), None)"
    using members_ahead [OF _ _ _ ahead_data [OF a] h, of "?m # ms'"] by simp
  then show ?thesis using ms by (simp add: members_of_def)
qed

theorem json_members_render_witness:
  "json_members (json_load (render_object ''  ''
     [\<lparr>m_before = [], m_key = ''id'', m_after_key = [], m_before_value = '' '', m_value = Word_val ''15'', m_after = []\<rparr>,
      \<lparr>m_before = '' '', m_key = ''name'', m_after_key = [], m_before_value = [], m_value = Str_val ''w'', m_after = [CHR 0x0A]\<rparr>,
      \<lparr>m_before = [], m_key = ''params'', m_after_key = [], m_before_value = [],
       m_value = Obj_val [Open_tok (CHR ''[''), Text_tok ''x'', Close_tok (CHR '']'')], m_after = []\<rparr>] @ ''zz'') 0) =
   ([(''id'', ''15''), (''name'', ''w''), (''params'', ''['' @ [CHR 0x22, CHR ''x'', CHR 0x22] @ '']'')], None)"
proof (subst json_members_render, goal_cases)
  case 3
  show ?case
    by (simp add: valid_member_def blanks_def json_blank_def plain_string_def plain_word_def is_digit_def
        not_digit_def schar_def)
qed (simp_all add: blanks_def json_blank_def)

end
