(* ===== verification/Worker_List.thy ===== *)
theory Worker_List imports Prelude begin

text \<open>
  src/workerlist.h and src/workerlist.cpp: the doubly linked list of the workers registered with a
  queue, with its items on the heap.

  An item is a record at an address, a null pointer is \<open>None\<close>, a use of an address that holds no item
  (freed, or never allocated) is a \<open>Fault\<close>. \<open>WorkerList::lock\<close> is taken and released inside each
  operation, so it has no state between them. The link count of the connection, which an item holds
  as long as it lives, is the broker's.
\<close>

record witem =
  wi_prev :: "nat option"
  wi_next :: "nat option"
  wi_conn :: nat

record wlist =
  wl_head :: "nat option"
  wl_heap :: "nat \<Rightarrow> witem option"

definition empty_wlist :: wlist where
  "empty_wlist = \<lparr>wl_head = None, wl_heap = (\<lambda>_. None)\<rparr>"

text \<open>A write through a pointer.\<close>

definition wl_store :: "nat \<Rightarrow> (witem \<Rightarrow> witem) \<Rightarrow> (wlist, unit) prog" where
  "wl_store a f = (\<lambda>l. case wl_heap l a of
     None \<Rightarrow> (Inl Fault, l)
   | Some it \<Rightarrow> (Inr (), l\<lparr>wl_heap := (wl_heap l)(a \<mapsto> f it)\<rparr>))"

text \<open>\<open>n\<close> is the address \<^verbatim>\<open>new\<close> returned.\<close>

definition wl_push :: "nat \<Rightarrow> nat \<Rightarrow> (wlist, nat) prog" where
  "wl_push n conn = (\<lambda>l.
     let l = l\<lparr>wl_heap := (wl_heap l)(n \<mapsto> \<lparr>wi_prev = None, wi_next = None, wi_conn = conn\<rparr>)\<rparr> in
     (case wl_head l of
        Some h \<Rightarrow>
          thn (wl_store n (\<lambda>it. it\<lparr>wi_next := Some h\<rparr>))
         (thn (wl_store h (\<lambda>it. it\<lparr>wi_prev := Some n\<rparr>))
         (thn (modify (\<lambda>l. l\<lparr>wl_head := Some n\<rparr>)) (ret n))) l
      | None \<Rightarrow> (Inr n, l\<lparr>wl_head := Some n\<rparr>)))"

definition wl_pop :: "nat \<Rightarrow> (wlist, unit) prog" where
  "wl_pop a = (\<lambda>l. case wl_heap l a of
     None \<Rightarrow> (Inl Fault, l)
   | Some it \<Rightarrow>
       thn (if wl_head l = Some a
            then thn (modify (\<lambda>l. l\<lparr>wl_head := wi_next it\<rparr>))
                     (case wi_next it of None \<Rightarrow> ret () | Some h \<Rightarrow> wl_store h (\<lambda>it. it\<lparr>wi_prev := None\<rparr>))
            else thn (case wi_prev it of None \<Rightarrow> ret ()
                        | Some p \<Rightarrow> wl_store p (\<lambda>jt. jt\<lparr>wi_next := wi_next it\<rparr>))
                     (case wi_next it of None \<Rightarrow> ret ()
                        | Some n \<Rightarrow> wl_store n (\<lambda>jt. jt\<lparr>wi_prev := wi_prev it\<rparr>)))
           (modify (\<lambda>l. l\<lparr>wl_heap := (wl_heap l)(a := None)\<rparr>)) l)"

text \<open>The loop of \<^verbatim>\<open>Connect::pub\<close> over the items, and the destructor's \<^verbatim>\<open>while(head) head->pop()\<close>. Either may
  run forever on a broken list.\<close>

partial_function (option) wl_walk :: "(nat \<Rightarrow> witem option) \<Rightarrow> nat option \<Rightarrow> nat list option" where
  "wl_walk heap item = (case item of
     None \<Rightarrow> Some []
   | Some a \<Rightarrow> (case heap a of
       None \<Rightarrow> None
     | Some it \<Rightarrow> Option.bind (wl_walk heap (wi_next it)) (\<lambda>cs. Some (wi_conn it # cs))))"

partial_function (option) wl_destroy :: "wlist \<Rightarrow> wlist option" where
  "wl_destroy l = (case wl_head l of
     None \<Rightarrow> Some l
   | Some h \<Rightarrow> (case wl_pop h l of (Inl e, l') \<Rightarrow> None | (Inr _, l') \<Rightarrow> wl_destroy l'))"

section \<open>The list a heap represents\<close>

fun seg :: "(nat \<Rightarrow> witem option) \<Rightarrow> nat option \<Rightarrow> nat option \<Rightarrow> nat list \<Rightarrow> bool" where
  "seg h p c [] = (c = None)"
| "seg h p c (x # xs) =
     (c = Some x \<and> (\<exists>it. h x = Some it \<and> wi_prev it = p \<and> seg h (Some x) (wi_next it) xs))"

definition wl_rep :: "wlist \<Rightarrow> nat list \<Rightarrow> bool" where
  "wl_rep l xs = (distinct xs \<and> seg (wl_heap l) None (wl_head l) xs \<and> dom (wl_heap l) = set xs)"

lemma seg_upd [simp]: "x \<notin> set xs \<Longrightarrow> seg (h(x := v)) p c xs = seg h p c xs"
  by (induction xs arbitrary: p c) auto

lemma seg_cons:
  "c = Some a \<Longrightarrow> h a = Some it \<Longrightarrow> wi_prev it = p \<Longrightarrow> seg h (Some a) (wi_next it) xs \<Longrightarrow> seg h p c (a # xs)"
  by simp

lemma seg_agree: "seg h p c xs \<Longrightarrow> \<forall>x \<in> set xs. h' x = h x \<Longrightarrow> seg h' p c xs"
  by (induction xs arbitrary: p c) auto

lemma seg_prev:
  assumes "seg h p c xs" and "distinct xs" and "c = Some x" and "h x = Some it"
  shows "seg (h(x \<mapsto> it\<lparr>wi_prev := q\<rparr>)) q c xs"
  using assms by (cases xs) auto

lemma seg_hd: "seg h p c xs \<Longrightarrow> c = (case xs of [] \<Rightarrow> None | x # _ \<Rightarrow> Some x)"
  by (cases xs) auto

lemma wl_rep_empty [simp]: "wl_rep empty_wlist []"
  by (simp add: wl_rep_def empty_wlist_def)

lemma wl_push_rep:
  assumes "wl_rep l xs" and "n \<notin> set xs"
  shows "\<exists>l'. wl_push n conn l = (Inr n, l') \<and> wl_rep l' (n # xs) \<and>
    map (\<lambda>a. map_option wi_conn (wl_heap l' a)) xs = map (\<lambda>a. map_option wi_conn (wl_heap l a)) xs \<and>
    map_option wi_conn (wl_heap l' n) = Some conn"
proof (cases xs)
  case Nil
  with assms show ?thesis
    by (auto simp: wl_push_def wl_rep_def dom_def Let_def)
next
  case (Cons x ys)
  with assms obtain it where it: "wl_heap l x = Some it" "wl_head l = Some x"
    "seg (wl_heap l) (Some x) (wi_next it) ys" "x \<noteq> n"
    by (auto simp: wl_rep_def)
  with assms Cons show ?thesis
    by (auto simp: wl_push_def wl_store_def Let_def wl_rep_def thn_run fun_upd_twist dom_def
        intro!: map_cong)
qed

lemma seg_cut:
  assumes "seg h p c (ys @ y # x # zs)" and "distinct (ys @ y # x # zs)"
  obtains it jt where "h x = Some it" and "h y = Some jt" and "wi_prev it = Some y"
    and "zs = [] \<Longrightarrow> seg (h(y \<mapsto> jt\<lparr>wi_next := wi_next it\<rparr>)) p c (ys @ [y] @ zs)"
    and "wi_next it = (case zs of [] \<Rightarrow> None | z # _ \<Rightarrow> Some z)"
    and "\<And>z zs' kt. zs = z # zs' \<Longrightarrow> h z = Some kt \<Longrightarrow>
      seg (h(y \<mapsto> jt\<lparr>wi_next := wi_next it\<rparr>, z \<mapsto> kt\<lparr>wi_prev := Some y\<rparr>)) p c (ys @ [y] @ zs)"
    and "\<And>z zs'. zs = z # zs' \<Longrightarrow> \<exists>kt. h z = Some kt"
  using assms
proof (induction ys arbitrary: p c thesis)
  case Nil
  from Nil(2) obtain jt it where 1: "c = Some y" "h y = Some jt" "wi_prev jt = p" "wi_next jt = Some x"
    "h x = Some it" "wi_prev it = Some y" "seg h (Some x) (wi_next it) zs"
    by auto
  show ?case
    by (rule Nil(1) [of it jt]) (use 1 Nil(3) in \<open>auto dest: seg_hd elim!: seg_agree split: list.splits\<close>)
next
  case (Cons a ys)
  from Cons.prems(2) obtain at where a: "c = Some a" "h a = Some at" "wi_prev at = p"
    "seg h (Some a) (wi_next at) (ys @ y # x # zs)" by auto
  from Cons.prems(3) have d: "distinct (ys @ y # x # zs)" "a \<notin> set (ys @ y # x # zs)" by auto
  show ?case
  proof (rule Cons.IH [OF _ a(4) d(1)])
    fix it jt
    assume 1: "h x = Some it" "h y = Some jt" "wi_prev it = Some y"
      and last: "zs = [] \<Longrightarrow> seg (h(y \<mapsto> jt\<lparr>wi_next := wi_next it\<rparr>)) (Some a) (wi_next at) (ys @ [y] @ zs)"
      and nx: "wi_next it = (case zs of [] \<Rightarrow> None | z # _ \<Rightarrow> Some z)"
      and step: "\<And>z zs' kt. zs = z # zs' \<Longrightarrow> h z = Some kt \<Longrightarrow>
        seg (h(y \<mapsto> jt\<lparr>wi_next := wi_next it\<rparr>, z \<mapsto> kt\<lparr>wi_prev := Some y\<rparr>)) (Some a) (wi_next at) (ys @ [y] @ zs)"
      and some: "\<And>z zs'. zs = z # zs' \<Longrightarrow> \<exists>kt. h z = Some kt"
    show thesis
    proof (rule Cons.prems(1) [OF 1(1,2,3) _ nx _ some], goal_cases)
      case 1
      have "seg (h(y \<mapsto> jt\<lparr>wi_next := wi_next it\<rparr>)) p c (a # ys @ [y] @ zs)"
        using a d by (intro seg_cons [of c a _ at] last 1) auto
      then show ?case by (simp only: append_Cons)
    next
      case (2 z zs' kt)
      have "seg (h(y \<mapsto> jt\<lparr>wi_next := wi_next it\<rparr>, z \<mapsto> kt\<lparr>wi_prev := Some y\<rparr>)) p c (a # ys @ [y] @ zs)"
        using a d 2 by (intro seg_cons [of c a _ at] step) auto
      then show ?case by (simp only: append_Cons)
    qed
  qed
qed

lemma wl_pop_done:
  assumes "wl_pop a l = (Inr (), l')" and "wl_head l' = c" and "wl_heap l' = h"
    and "distinct ys" and "seg h None c ys" and "dom h = set ys" and "remove1 a xs = ys"
    and "\<forall>b. b \<noteq> a \<longrightarrow> map_option wi_conn (h b) = map_option wi_conn (wl_heap l b)"
  shows "\<exists>l'. wl_pop a l = (Inr (), l') \<and> wl_rep l' (remove1 a xs) \<and>
    (\<forall>b \<in> set xs - {a}. map_option wi_conn (wl_heap l' b) = map_option wi_conn (wl_heap l b))"
  by (rule exI [of _ l']) (use assms in \<open>simp add: wl_rep_def\<close>)

lemma wl_pop_rep:
  assumes "wl_rep l xs" and "a \<in> set xs"
  shows "\<exists>l'. wl_pop a l = (Inr (), l') \<and> wl_rep l' (remove1 a xs) \<and>
    (\<forall>b \<in> set xs - {a}. map_option wi_conn (wl_heap l' b) = map_option wi_conn (wl_heap l b))"
proof -
  obtain ys zs where xs: "xs = ys @ a # zs" and ys: "a \<notin> set ys"
    using assms(2) by (meson split_list_first)
  have d: "distinct xs" and s: "seg (wl_heap l) None (wl_head l) xs" and dm: "dom (wl_heap l) = set xs"
    using assms(1) by (simp_all add: wl_rep_def)
  have r: "remove1 a xs = ys @ zs" using xs ys by (simp add: remove1_append)
  show ?thesis
  proof (cases ys rule: rev_cases)
    case Nil
    with s xs obtain it where it: "wl_heap l a = Some it" "wl_head l = Some a"
      "seg (wl_heap l) (Some a) (wi_next it) zs" by auto
    show ?thesis
    proof (cases zs)
      case Nil
      with it have "wl_pop a l = (Inr (), l\<lparr>wl_head := None, wl_heap := (wl_heap l)(a := None)\<rparr>)"
        by (simp add: wl_pop_def thn_run)
      moreover have "dom ((wl_heap l)(a := None)) = {}" using dm xs Nil \<open>ys = []\<close> by (simp only: dom_fun_upd) simp
      ultimately show ?thesis using r Nil \<open>ys = []\<close>
        by (intro wl_pop_done [where ys = "[]" and c = None and h = "(wl_heap l)(a := None)"])
          (assumption | simp)+
    next
      case (Cons z zs')
      with it(3) obtain kt where kt: "wi_next it = Some z" "wl_heap l z = Some kt"
        "seg (wl_heap l) (Some z) (wi_next kt) zs'" by auto
      have ne: "z \<noteq> a" "z \<notin> set zs'" "a \<notin> set zs'" using d xs Cons by auto
      let ?h = "(wl_heap l)(z \<mapsto> kt\<lparr>wi_prev := None\<rparr>, a := None)"
      have "wl_pop a l = (Inr (), l\<lparr>wl_head := Some z, wl_heap := ?h\<rparr>)"
        using it kt ne by (simp add: wl_pop_def wl_store_def thn_run)
      moreover have "seg ?h (Some z) (wi_next kt) zs'"
        by (rule seg_agree [OF kt(3)]) (use ne in auto)
      moreover have "dom ?h = set (z # zs')"
        using dm xs Cons ne \<open>ys = []\<close> unfolding dom_fun_upd by auto
      ultimately show ?thesis using r Cons \<open>ys = []\<close> ne kt(2) d xs
        by (intro wl_pop_done [where ys = "z # zs'" and c = "Some z" and h = ?h]) (assumption | simp)+
    qed
  next
    case (snoc ys' y)
    have xs': "xs = ys' @ y # a # zs" using xs snoc by simp
    obtain it jt where h: "wl_heap l a = Some it" "wl_heap l y = Some jt" "wi_prev it = Some y"
      and z0: "zs = [] \<Longrightarrow> seg ((wl_heap l)(y \<mapsto> jt\<lparr>wi_next := wi_next it\<rparr>)) None (wl_head l) (ys' @ [y] @ zs)"
      and nx: "wi_next it = (case zs of [] \<Rightarrow> None | z # _ \<Rightarrow> Some z)"
      and z1: "\<And>z zs' kt. zs = z # zs' \<Longrightarrow> wl_heap l z = Some kt \<Longrightarrow>
        seg ((wl_heap l)(y \<mapsto> jt\<lparr>wi_next := wi_next it\<rparr>, z \<mapsto> kt\<lparr>wi_prev := Some y\<rparr>)) None (wl_head l)
          (ys' @ [y] @ zs)"
      and z2: "\<And>z zs'. zs = z # zs' \<Longrightarrow> \<exists>kt. wl_heap l z = Some kt"
    proof (rule seg_cut [OF s [unfolded xs'] d [unfolded xs']], goal_cases)
      case (1 it jt)
      show thesis by (rule that [OF 1(2-8)])
    qed
    have hd: "wl_head l \<noteq> Some a" using s d xs' by (cases ys') auto
    show ?thesis
    proof (cases zs)
      case Nil
      let ?h1 = "(wl_heap l)(y \<mapsto> jt\<lparr>wi_next := wi_next it\<rparr>)"
      let ?h = "?h1(a := None)"
      have ne: "a \<noteq> y" "a \<notin> set ys'" using d xs' by auto
      have run: "wl_pop a l = (Inr (), l\<lparr>wl_heap := ?h\<rparr>)"
        using h hd nx Nil by (simp add: wl_pop_def wl_store_def thn_run)
      have sg: "seg ?h None (wl_head l) (ys' @ [y])"
        by (rule seg_agree [OF z0 [OF Nil, unfolded Nil append_Nil2]]) (use ne in auto)
      have dm': "dom ?h = set (ys' @ [y])"
        using dm xs' Nil ne unfolding dom_fun_upd by auto
      have r': "remove1 a xs = ys' @ [y]" using r Nil snoc by simp
      show ?thesis by (rule wl_pop_done [OF run _ _ _ sg dm' r']) (use d xs' h(2) in simp_all)
    next
      case (Cons z zs')
      from z2 [OF Cons] obtain kt where kt: "wl_heap l z = Some kt" by blast
      let ?h1 = "(wl_heap l)(y \<mapsto> jt\<lparr>wi_next := wi_next it\<rparr>, z \<mapsto> kt\<lparr>wi_prev := Some y\<rparr>)"
      let ?h = "?h1(a := None)"
      have ne: "a \<noteq> y" "a \<notin> set ys'" "a \<noteq> z" "y \<noteq> z" "a \<notin> set zs'" using d xs' Cons by auto
      have run: "wl_pop a l = (Inr (), l\<lparr>wl_heap := ?h\<rparr>)"
        using h hd nx Cons kt ne by (simp add: wl_pop_def wl_store_def thn_run)
      have sg: "seg ?h None (wl_head l) (ys' @ [y] @ zs)"
        by (rule seg_agree [OF z1 [OF Cons kt]]) (use ne Cons in auto)
      have dm': "dom ?h = set (ys' @ [y] @ zs)"
        using dm xs' Cons ne unfolding dom_fun_upd by auto
      have r': "remove1 a xs = ys' @ [y] @ zs" using r snoc by simp
      show ?thesis by (rule wl_pop_done [OF run _ _ _ sg dm' r']) (use d xs' h(2) kt in simp_all)
    qed
  qed
qed

section \<open>The contract of the register of workers\<close>

text \<open>What the broker relies on: registering puts a worker in front, an item leaves from any place.\<close>

locale worker_ring =
  fixes rep :: "'s \<Rightarrow> nat list \<Rightarrow> bool"
    and worker_of :: "'s \<Rightarrow> nat \<Rightarrow> nat option"
    and push :: "nat \<Rightarrow> nat \<Rightarrow> ('s, nat) prog"
    and pop :: "nat \<Rightarrow> ('s, unit) prog"
  assumes push: "rep s xs \<Longrightarrow> a \<notin> set xs \<Longrightarrow> \<exists>s'. push a c s = (Inr a, s') \<and> rep s' (a # xs) \<and>
      worker_of s' a = Some c \<and> (\<forall>b \<in> set xs. worker_of s' b = worker_of s b)"
    and pop: "rep s xs \<Longrightarrow> a \<in> set xs \<Longrightarrow> \<exists>s'. pop a s = (Inr (), s') \<and> rep s' (remove1 a xs) \<and>
      (\<forall>b \<in> set xs - {a}. worker_of s' b = worker_of s b)"
begin

lemma push_pop:
  assumes "rep s xs" and "a \<notin> set xs"
  shows "\<exists>s'. thn (push a c) (pop a) s = (Inr (), s') \<and> rep s' xs \<and>
    (\<forall>b \<in> set xs. worker_of s' b = worker_of s b)"
proof -
  from push [OF assms] obtain s1 where 1: "push a c s = (Inr a, s1)" "rep s1 (a # xs)"
    "\<forall>b \<in> set xs. worker_of s1 b = worker_of s b" by blast
  from pop [OF 1(2), of a] obtain s2 where 2: "pop a s1 = (Inr (), s2)" "rep s2 xs"
    "\<forall>b \<in> set xs - {a}. worker_of s2 b = worker_of s1 b" by auto
  with 1 assms(2) show ?thesis by (auto simp: thn_run)
qed

lemma pop_all: "rep s xs \<Longrightarrow> distinct xs \<Longrightarrow> \<exists>s'. for_each xs pop s = (Inr (), s') \<and> rep s' []"
proof (induction xs arbitrary: s)
  case (Cons a xs)
  from pop [OF Cons.prems(1), of a] obtain s1 where 1: "pop a s = (Inr (), s1)" "rep s1 xs" by auto
  from Cons.IH [OF 1(2)] Cons.prems(2) 1(1) show ?case by (auto simp: thn_run)
qed auto

end

definition wl_worker :: "wlist \<Rightarrow> nat \<Rightarrow> nat option" where
  "wl_worker l a = map_option wi_conn (wl_heap l a)"

interpretation ring: worker_ring wl_rep wl_worker wl_push wl_pop
proof
  fix l xs a c
  assume "wl_rep l xs" "a \<notin> set xs"
  from wl_push_rep [OF this, of c] show "\<exists>l'. wl_push a c l = (Inr a, l') \<and> wl_rep l' (a # xs) \<and>
    wl_worker l' a = Some c \<and> (\<forall>b \<in> set xs. wl_worker l' b = wl_worker l b)"
    by (auto simp: wl_worker_def)
next
  fix l xs a
  assume "wl_rep l xs" "a \<in> set xs"
  from wl_pop_rep [OF this] show "\<exists>l'. wl_pop a l = (Inr (), l') \<and> wl_rep l' (remove1 a xs) \<and>
    (\<forall>b \<in> set xs - {a}. wl_worker l' b = wl_worker l b)"
    by (simp add: wl_worker_def)
qed

lemma seg_walk: "seg h p c xs \<Longrightarrow> wl_walk h c = Some (map (\<lambda>a. wi_conn (the (h a))) xs)"
proof (induction xs arbitrary: p c)
  case Nil
  then show ?case by (simp add: wl_walk.simps)
next
  case (Cons a xs)
  then obtain it where "c = Some a" "h a = Some it" "seg h (Some a) (wi_next it) xs" by auto
  with Cons.IH show ?case by (subst wl_walk.simps) simp
qed

lemma rep_walk: "wl_rep l xs \<Longrightarrow> wl_walk (wl_heap l) (wl_head l) = Some (map (\<lambda>a. the (wl_worker l a)) xs)"
proof -
  assume r: "wl_rep l xs"
  then have s: "seg (wl_heap l) None (wl_head l) xs" and d: "dom (wl_heap l) = set xs"
    by (simp_all add: wl_rep_def)
  have "wi_conn (the (wl_heap l a)) = the (wl_worker l a)" if "a \<in> set xs" for a
  proof -
    from that have "a \<in> dom (wl_heap l)" by (simp only: d)
    then show ?thesis by (auto simp: wl_worker_def)
  qed
  then show ?thesis unfolding seg_walk [OF s] by simp
qed

section \<open>Properties\<close>

text \<open>
  A worker pushed is the first one a visit of the list sees, before all workers seen so far.
\<close>

theorem worker_push_visit:
  assumes "wl_rep l xs" and "n \<notin> set xs" and "wl_walk (wl_heap l) (wl_head l) = Some cs"
  shows "\<exists>l'. wl_push n c l = (Inr n, l') \<and> wl_rep l' (n # xs) \<and>
    wl_walk (wl_heap l') (wl_head l') = Some (c # cs)"
proof -
  from ring.push [OF assms(1,2)] obtain l' where l': "wl_push n c l = (Inr n, l')" "wl_rep l' (n # xs)"
    "wl_worker l' n = Some c" "\<forall>b \<in> set xs. wl_worker l' b = wl_worker l b" by blast
  from rep_walk [OF l'(2)] rep_walk [OF assms(1)] assms(3) l' show ?thesis by auto
qed

theorem worker_push_visit_witness:
  "\<exists>l'. wl_push 5 42 empty_wlist = (Inr 5, l') \<and> wl_walk (wl_heap l') (wl_head l') = Some [42]"
proof -
  have "wl_walk (wl_heap empty_wlist) (wl_head empty_wlist) = Some []"
    by (simp add: wl_walk.simps empty_wlist_def)
  from worker_push_visit [OF wl_rep_empty _ this, of 5 42] show ?thesis by auto
qed

text \<open>
  Claim C31. An item popped from any place of a well-linked list leaves a well-linked list, without a bad
  access; a visit sees the remaining workers, in the same order.
\<close>

theorem worker_pop_visit:
  assumes "wl_rep l (xs @ a # ys)"
  shows "\<exists>l'. wl_pop a l = (Inr (), l') \<and> wl_rep l' (xs @ ys) \<and>
    wl_walk (wl_heap l') (wl_head l') = Some (map (\<lambda>b. the (wl_worker l b)) (xs @ ys))"
proof -
  have d: "distinct (xs @ a # ys)" using assms by (simp add: wl_rep_def)
  then have r: "remove1 a (xs @ a # ys) = xs @ ys" by (simp add: remove1_append)
  from ring.pop [OF assms, of a] r obtain l' where l': "wl_pop a l = (Inr (), l')" "wl_rep l' (xs @ ys)"
    "\<forall>b \<in> set (xs @ a # ys) - {a}. wl_worker l' b = wl_worker l b" by auto
  have "map (\<lambda>b. the (wl_worker l' b)) (xs @ ys) = map (\<lambda>b. the (wl_worker l b)) (xs @ ys)"
    using l'(3) d by (intro map_cong) auto
  with rep_walk [OF l'(2)] l' show ?thesis by (simp only: simp_thms)  blast
qed

theorem worker_pop_visit_witness:
  "\<exists>l l'. thn (wl_push 1 10) (thn (wl_push 2 20) (wl_push 3 30)) empty_wlist = (Inr 3, l) \<and>
     wl_pop 2 l = (Inr (), l') \<and> wl_walk (wl_heap l') (wl_head l') = Some [30, 10]"
proof -
  from ring.push [OF wl_rep_empty, of 1 10] obtain l1 where
    1: "wl_push 1 10 empty_wlist = (Inr 1, l1)" "wl_rep l1 [1]" "wl_worker l1 1 = Some 10" by auto
  from ring.push [OF 1(2), of 2 20] obtain l2 where
    2: "wl_push 2 20 l1 = (Inr 2, l2)" "wl_rep l2 [2, 1]" "wl_worker l2 1 = Some 10" using 1(3) by auto
  from ring.push [OF 2(2), of 3 30] obtain l3 where
    3: "wl_push 3 30 l2 = (Inr 3, l3)" "wl_rep l3 [3, 2, 1]" "wl_worker l3 3 = Some 30"
      "wl_worker l3 1 = Some 10" using 2(3) by auto
  from 3(2) have "wl_rep l3 ([3] @ 2 # [1])" by simp
  from worker_pop_visit [OF this] 1 2 3 show ?thesis by (auto simp: thn_run)
qed

text \<open>
  Claim C32. The destructor's loop, which pops the head until there is none, ends with an empty list and
  every item freed.
\<close>

theorem worker_destroy_ends:
  assumes "wl_rep l xs"
  shows "\<exists>l'. wl_destroy l = Some l' \<and> wl_head l' = None \<and> wl_heap l' = (\<lambda>_. None)"
  using assms
proof (induction xs arbitrary: l)
  case Nil
  then show ?case by (simp add: wl_rep_def wl_destroy.simps)
next
  case (Cons a xs)
  then have h: "wl_head l = Some a" by (simp add: wl_rep_def)
  from ring.pop [OF Cons.prems, of a] obtain l1 where "wl_pop a l = (Inr (), l1)" "wl_rep l1 xs" by auto
  with Cons.IH [of l1] h show ?case by (subst wl_destroy.simps) simp
qed

theorem worker_destroy_ends_witness:
  "\<exists>l. wl_push 1 10 empty_wlist = (Inr 1, l) \<and> (\<exists>l'. wl_destroy l = Some l' \<and> wl_head l' = None)"
proof -
  from ring.push [OF wl_rep_empty, of 1 10] obtain l1 where
    "wl_push 1 10 empty_wlist = (Inr 1, l1)" "wl_rep l1 [1]" by auto
  with worker_destroy_ends [of l1 "[1]"] show ?thesis by blast
qed

end
