(* ===== verification/Broker_State.thy ===== *)
theory Broker_State imports Buffers Mapper Json_Scan Worker_List begin

text \<open>
  The state the request handlers of src/connect.cpp and src/server.cpp share, and the operations on one
  connection: link counting, socket modes, sending a response.

  \<^item> A \<^verbatim>\<open>Connect\<close> object is a record at an address (a number); \<open>s_conns\<close> is the heap they live in. A use of
    an address without an object, one that was deleted, is a \<open>Fault\<close>.
  \<^item> Buffers of a connection are the bytes they hold (theory \<open>Buffers\<close> shows that adding to a buffer
    appends and cannot fail while memory lasts); a null and an empty view are told apart nowhere in
    these handlers.
  \<^item> The queue lines are the elements of \<open>s_queue_list\<close>, \<open>None\<close> for a null pointer. A registered worker's
    \<^verbatim>\<open>WorkerItem\<close> is the index of the line whose ring it is in; a ring is the list of its workers, head
    first (theory \<open>Worker_List\<close>).
  \<^item> One handler runs at a time. \<open>ql_locked\<close> and \<open>s_global_locked\<close> are the mutexes a handler may leave
    locked or find locked; locks taken and released around single accesses have no state.
  \<^item> What the handlers read from outside is in the state: the clock \<open>s_now\<close>, the numbers \<^verbatim>\<open>rand\<close>
    returns, the descriptor \<^verbatim>\<open>socket\<close> returns, and \<open>s_junk\<close>, the value a local variable has before it is
    assigned. So is, one answer after the other, what the code leaves to the memory (\<open>s_memory\<close>): what a view of a
    receive buffer shows when the buffer was written again since (\<open>mm_stale\<close>), and whether the block of a connection's
    buffer stays where it is when bytes are added (\<open>mm_room\<close>), as the capacities are not part of the state.
  \<^item> What \<^verbatim>\<open>send\<close> has taken from a connection is kept as \<open>c_wire\<close>.
  Log output is left out.
\<close>

datatype status = Net | Worker_wait_job | Worker_wait_result | Migration | Client_wait_result | Busy
  | Worker_mode_async

datatype request_type = Rt_none | Rt_get | Rt_get_plus | Rt_worker | Rt_async | Rt_pub | Rt_result
  | Rt_create | Rt_del

datatype http_step = Http_start | Http_header | Http_read_body | Http_request_completed

record message =
  msg_priority :: int
  msg_required :: bytes
  msg_conn :: "nat option"
  msg_buf :: bytes
  msg_name :: bytes

record queue =
  q_workers :: "nat list"
  q_clients :: "message list"

record queue_line =
  ql_name :: bytes
  ql_last_worker :: int
  ql_locked :: bool
  ql_queue :: "queue list"
  ql_info :: bytes
  ql_ring :: "nat list"

record direct_message =
  dm_data :: bytes
  dm_counter :: "32 word"

record connect =
  c_socket_status :: int
  c_socket_active :: int
  c_link :: int
  c_fd :: nat
  c_keep_alive :: bool
  c_send_buffer :: bytes
  c_wire :: bytes
  c_nloop :: nat
  c_need_loop :: nat
  c_go_loop :: bool
  c_http_step :: http_step
  c_content_length :: int
  c_http_version :: int
  c_buffer :: bytes
  c_path :: bytes
  c_header_option :: bytes
  c_name :: bytes
  c_type :: request_type
  c_status :: status
  c_body :: bytes
  c_id :: bytes
  c_fail_on_disconnect :: bool
  c_noid :: bool
  c_no_response :: bool
  c_worker_mode :: bool
  c_priority :: int
  c_ping :: "32 word"
  c_ping_timeout :: "32 word"
  c_connection_id :: bytes
  c_required_worker :: bytes
  c_client :: "nat option"
  c_json :: json
  c_info :: bytes
  c_worker_item :: "nat option"
  c_worker_sub_name :: bytes
  c_direct_message :: "nat list"

text \<open>\<open>l_countdown\<close> is a local variable of \<^verbatim>\<open>Loop::_loop\<close>.\<close>

record loop =
  l_dead :: "nat list"
  l_to_send :: "nat list"
  l_poll :: "nat \<Rightarrow> int option"
  l_accept_request :: bool
  l_del_locked :: bool
  l_stat_request :: "64 word"
  l_stat_call :: "64 word"
  l_stat_result :: "64 word"
  l_stat_recv :: "64 word"
  l_stat_send :: "64 word"
  l_stat_ioevent :: "64 word"
  l_countdown :: int

datatype gc_item = Gc_message message | Gc_direct nat

text \<open>The local variables of the service thread: the processor time each loop had used, the time of the last
  look and the countdown to the next cleaning.\<close>

record service =
  sv_used :: "nat \<Rightarrow> 64 word"
  sv_prev :: "64 word"
  sv_clean :: int

text \<open>What the memory answers: the bytes a stale view shows, and whether a block stays where it is.\<close>

record memory =
  mm_stale :: "nat \<Rightarrow> bytes"
  mm_room :: "nat \<Rightarrow> bool"

record server =
  s_conns :: "nat \<Rightarrow> connect option"
  s_connections :: "nat \<Rightarrow> nat option"
  s_max_fd :: nat
  s_mapper :: mapper
  s_queue_list :: "queue_line option list"
  s_wait_response :: "bytes \<Rightarrow> nat option"
  s_dms :: "nat \<Rightarrow> direct_message option"
  s_next_dm :: nat
  s_loops :: "loop list"
  s_threads :: nat
  s_jsonrpc2 :: bool
  s_version :: bytes
  s_global_locked :: bool
  s_gc :: "gc_item list"
  s_gen_index :: "32 word"
  s_now :: "32 word"
  s_rand :: "nat \<Rightarrow> 32 word"
  s_nrand :: nat
  s_junk :: int
  s_memory :: memory
  s_nmemory :: nat
  s_active_loop :: nat
  s_fake_fd :: int
  s_socket :: int
  s_service :: service
  s_stat_connect :: "64 word"
  s_stat_starttime :: "64 word"

text \<open>A memory that answers without surprises, for the states at which theorems are applied.\<close>

definition calm_memory :: memory where
  "calm_memory = \<lparr>mm_stale = (\<lambda>_. []), mm_room = (\<lambda>_. True)\<rparr>"

section \<open>Access to connections, loops and queue lines\<close>

definition get_c :: "nat \<Rightarrow> (server, connect) prog" where
  "get_c c = (\<lambda>s. case s_conns s c of None \<Rightarrow> (Inl Fault, s) | Some r \<Rightarrow> (Inr r, s))"

definition upd_c :: "nat \<Rightarrow> (connect \<Rightarrow> connect) \<Rightarrow> (server, unit) prog" where
  "upd_c c f = (\<lambda>s. case s_conns s c of
     None \<Rightarrow> (Inl Fault, s)
   | Some r \<Rightarrow> (Inr (), s\<lparr>s_conns := (s_conns s)(c \<mapsto> f r)\<rparr>))"

definition upd_loop :: "nat \<Rightarrow> (loop \<Rightarrow> loop) \<Rightarrow> (server, unit) prog" where
  "upd_loop n f = (\<lambda>s.
     if n < length (s_loops s) then (Inr (), s\<lparr>s_loops := (s_loops s)[n := f (s_loops s ! n)]\<rparr>)
     else (Inl Fault, s))"

definition get_loop :: "nat \<Rightarrow> (server, loop) prog" where
  "get_loop n = (\<lambda>s. if n < length (s_loops s) then (Inr (s_loops s ! n), s) else (Inl Fault, s))"

definition get_ql :: "nat \<Rightarrow> (server, queue_line) prog" where
  "get_ql q = (\<lambda>s.
     if q < length (s_queue_list s)
     then (case s_queue_list s ! q of None \<Rightarrow> (Inl Fault, s) | Some ql \<Rightarrow> (Inr ql, s))
     else (Inl Fault, s))"

definition upd_ql :: "nat \<Rightarrow> (queue_line \<Rightarrow> queue_line) \<Rightarrow> (server, unit) prog" where
  "upd_ql q f = bnd (get_ql q) (\<lambda>ql.
     modify (\<lambda>s. s\<lparr>s_queue_list := (s_queue_list s)[q := Some (f ql)]\<rparr>))"

text \<open>\<^verbatim>\<open>&ql->queue[r]\<close>, an array of \<^verbatim>\<open>threads\<close> queues.\<close>

definition get_queue_of :: "nat \<Rightarrow> nat \<Rightarrow> (server, queue) prog" where
  "get_queue_of q r = bnd (get_ql q) (\<lambda>ql.
     if r < length (ql_queue ql) then ret (ql_queue ql ! r) else throw Fault)"

definition upd_queue_of :: "nat \<Rightarrow> nat \<Rightarrow> (queue \<Rightarrow> queue) \<Rightarrow> (server, unit) prog" where
  "upd_queue_of q r f = bnd (get_queue_of q r) (\<lambda>x.
     upd_ql q (\<lambda>ql. ql\<lparr>ql_queue := (ql_queue ql)[r := f x]\<rparr>))"

text \<open>\<^verbatim>\<open>ql->mutex\<close> and \<^verbatim>\<open>global_lock\<close>; a \<^verbatim>\<open>lock_guard\<close> unlocks on the way out of an exception too, but there is
  no way out for a thread that is blocked.\<close>

definition lock_ql :: "nat \<Rightarrow> (server, unit) prog" where
  "lock_ql q = bnd (get_ql q) (\<lambda>ql.
     if ql_locked ql then throw Deadlock else upd_ql q (\<lambda>ql. ql\<lparr>ql_locked := True\<rparr>))"

definition unlock_ql :: "nat \<Rightarrow> (server, unit) prog" where
  "unlock_ql q = upd_ql q (\<lambda>ql. ql\<lparr>ql_locked := False\<rparr>)"

definition guard_ql :: "nat \<Rightarrow> (server, 'a) prog \<Rightarrow> (server, 'a) prog" where
  "guard_ql q m = thn (lock_ql q) (\<lambda>s. case m s of (r, s') \<Rightarrow>
     (r, if stuck r then s' else snd (unlock_ql q s')))"

definition guard_global :: "(server, 'a) prog \<Rightarrow> (server, 'a) prog" where
  "guard_global m = (\<lambda>s.
     if s_global_locked s then (Inl Deadlock, s)
     else (case m (s\<lparr>s_global_locked := True\<rparr>) of (r, s') \<Rightarrow>
       (r, if stuck r then s' else s'\<lparr>s_global_locked := False\<rparr>)))"

section \<open>Links and modes of a connection\<close>

definition is_closed :: "connect \<Rightarrow> bool" where
  "is_closed r = (c_socket_status r = - 1)"

definition conn_close :: "nat \<Rightarrow> (server, unit) prog" where
  "conn_close c = upd_c c (\<lambda>r. r\<lparr>c_socket_status := - 1\<rparr>)"

definition conn_link :: "nat \<Rightarrow> (server, unit) prog" where
  "conn_link c = upd_c c (\<lambda>r. r\<lparr>c_link := c_link r + 1\<rparr>)"

definition conn_unlink :: "nat \<Rightarrow> (server, unit) prog" where
  "conn_unlink c = thn (upd_c c (\<lambda>r. r\<lparr>c_link := c_link r - 1\<rparr>))
     (bnd (get_c c) (\<lambda>r.
        if c_link r = 0 then upd_loop (c_nloop r) (\<lambda>l. l\<lparr>l_dead := l_dead l @ [c]\<rparr>)
        else if c_link r < 0 then throw (Thrown ''Wrong link count'') else ret ()))"

definition write_mode :: "bool \<Rightarrow> nat \<Rightarrow> (server, unit) prog" where
  "write_mode active c = bnd (get_c c) (\<lambda>r.
     let st = c_socket_status r in
     if active then
       (if and st 2 \<noteq> 0 then ret ()
        else thn (upd_c c (\<lambda>r. r\<lparr>c_socket_status := or st 2\<rparr>))
                 (upd_loop (c_nloop r) (\<lambda>l. l\<lparr>l_to_send := l_to_send l @ [c]\<rparr>)))
     else
       (if and st 2 = 0 then ret ()
        else thn (upd_c c (\<lambda>r. r\<lparr>c_socket_status := and st 0xfd\<rparr>))
                 (upd_loop (c_nloop r) (\<lambda>l. l\<lparr>l_to_send := l_to_send l @ [c]\<rparr>))))"

text \<open>\<^verbatim>\<open>epoll_ctl\<close> fails when the descriptor is not registered, or is already when it is added.\<close>

definition set_poll_mode :: "nat \<Rightarrow> nat \<Rightarrow> int \<Rightarrow> (server, unit) prog" where
  "set_poll_mode n fd st = bnd (get_loop n) (\<lambda>l.
     if st = - 1 then
       (if l_poll l fd = None then throw (Thrown ''epoll_ctl EPOLL_CTL_DEL'')
        else upd_loop n (\<lambda>l. l\<lparr>l_poll := (l_poll l)(fd := None)\<rparr>))
     else
       (if l_poll l fd = None then throw (Thrown ''epoll_ctl EPOLL_CTL_MOD'')
        else upd_loop n (\<lambda>l. l\<lparr>l_poll := (l_poll l)(fd \<mapsto> and st 3)\<rparr>)))"

definition switch_mode :: "nat \<Rightarrow> (server, unit) prog" where
  "switch_mode c = bnd (get_c c) (\<lambda>r.
     if c_socket_status r = c_socket_active r then ret ()
     else thn (set_poll_mode (c_nloop r) (c_fd r) (c_socket_status r))
              (upd_c c (\<lambda>r. r\<lparr>c_socket_active := c_socket_status r\<rparr>)))"

definition read_mode :: "bool \<Rightarrow> nat \<Rightarrow> (server, unit) prog" where
  "read_mode active c = bnd (get_c c) (\<lambda>r.
     let st = c_socket_status r in
     if active then
       (if and st 1 \<noteq> 0 then ret ()
        else thn (upd_c c (\<lambda>r. r\<lparr>c_socket_status := or st 1\<rparr>))
                 (set_poll_mode (c_nloop r) (c_fd r) (or st 1)))
     else
       (if and st 1 = 0 then ret ()
        else thn (upd_c c (\<lambda>r. r\<lparr>c_socket_status := and st 0xfe\<rparr>))
                 (set_poll_mode (c_nloop r) (c_fd r) (and st 0xfe))))"

section \<open>Sending\<close>

definition crlf :: bytes where
  "crlf = [CHR 0x0D, CHR 0x0A]"

definition add_send :: "nat \<Rightarrow> bytes \<Rightarrow> (server, unit) prog" where
  "add_send c xs = upd_c c (\<lambda>r. r\<lparr>c_send_buffer := c_send_buffer r @ xs\<rparr>)"

definition send_status :: "nat \<Rightarrow> bytes \<Rightarrow> (server, unit) prog" where
  "send_status c status =
     thn (add_send c ''HTTP/1.1 '')
    (thn (add_send c status)
    (thn (add_send c crlf)
    (bnd (get_c c) (\<lambda>r. whenp (c_keep_alive r) (add_send c (''Connection: keep-alive'' @ crlf))))))"

definition send_header :: "nat \<Rightarrow> bytes \<Rightarrow> bytes \<Rightarrow> (server, unit) prog" where
  "send_header c key value =
     thn (add_send c key) (thn (add_send c '': '') (thn (add_send c value) (add_send c crlf)))"

definition send_done_body :: "nat \<Rightarrow> bytes \<Rightarrow> (server, unit) prog" where
  "send_done_body c body = bnd (get_c c) (\<lambda>r.
     if is_closed r then throw (Thrown ''Trying to send to closed socket'')
     else thn (if body = [] then add_send c (''Content-Length: 0'' @ crlf @ crlf)
               else thn (add_send c ''Content-Length: '')
                   (thn (add_send c (number_bytes (int (length body))))
                   (thn (add_send c (crlf @ crlf)) (add_send c body))))
              (write_mode True c))"

definition send_done :: "nat \<Rightarrow> (server, unit) prog" where
  "send_done c = bnd (get_c c) (\<lambda>r.
     if is_closed r then throw (Thrown ''Trying to send to closed socket'')
     else thn (add_send c (''Content-Length: 0'' @ crlf @ crlf)) (write_mode True c))"

definition quoted :: "bytes \<Rightarrow> bytes" where
  "quoted s = CHR 0x22 # s @ [CHR 0x22]"

definition jsonrpc_error :: "bytes \<Rightarrow> bytes \<Rightarrow> bytes" where
  "jsonrpc_error code text = CHR 0x7B # quoted ''jsonrpc'' @ '': '' @ quoted ''2.0'' @ '', '' @
     quoted ''error'' @ '': '' @ CHR 0x7B # quoted ''code'' @ '': '' @ code @ '', '' @ quoted ''message'' @
     '': '' @ quoted text @ CHR 0x7D # '', '' @ quoted ''id'' @ '': null'' @ [CHR 0x7D]"

definition jsonrpc_message :: "int \<Rightarrow> bytes" where
  "jsonrpc_message err =
     (if err = - 32700 then jsonrpc_error ''-32700'' ''Parse error''
      else if err = - 32600 then jsonrpc_error ''-32600'' ''Invalid Request''
      else if err = - 32601 then jsonrpc_error ''-32601'' ''Method not found''
      else if err = - 32602 then jsonrpc_error ''-32602'' ''Invalid params''
      else if err = - 1 then jsonrpc_error ''-32001'' ''Error, see http code''
      else if err = 1 then CHR 0x7B # quoted ''jsonrpc'' @ '': '' @ quoted ''2.0'' @ '', '' @ quoted ''result'' @
        '': true, '' @ quoted ''id'' @ '': null'' @ [CHR 0x7D]
      else jsonrpc_error ''-32603'' ''Internal error'')"

definition send_done_code :: "nat \<Rightarrow> int \<Rightarrow> (server, unit) prog" where
  "send_done_code c err = bnd (gets s_jsonrpc2) (\<lambda>j.
     if \<not> j then send_done c else send_done_body c (jsonrpc_message err))"

definition reply :: "nat \<Rightarrow> bytes \<Rightarrow> int \<Rightarrow> (server, unit) prog" where
  "reply c status err = thn (send_status c status) (send_done_code c err)"

section \<open>Direct messages and deferred deletion\<close>

definition dm_link :: "nat \<Rightarrow> (server, unit) prog" where
  "dm_link d = (\<lambda>s. case s_dms s d of
     None \<Rightarrow> (Inl Fault, s)
   | Some x \<Rightarrow> (Inr (), s\<lparr>s_dms := (s_dms s)(d \<mapsto> x\<lparr>dm_counter := dm_counter x + 1\<rparr>)\<rparr>))"

text \<open>\<^verbatim>\<open>if(dm->unlink() == 0) delete dm;\<close>\<close>

definition dm_unlink :: "nat \<Rightarrow> (server, unit) prog" where
  "dm_unlink d = (\<lambda>s. case s_dms s d of
     None \<Rightarrow> (Inl Fault, s)
   | Some x \<Rightarrow>
       (let n = dm_counter x - 1 in
        (Inr (), s\<lparr>s_dms := (if n = 0 then (s_dms s)(d := None)
                            else (s_dms s)(d \<mapsto> x\<lparr>dm_counter := n\<rparr>))\<rparr>)))"

definition gc_add :: "gc_item \<Rightarrow> (server, unit) prog" where
  "gc_add g = modify (\<lambda>s. s\<lparr>s_gc := s_gc s @ [g]\<rparr>)"

definition delete_message :: "message \<Rightarrow> (server, unit) prog" where
  "delete_message msg = (case msg_conn msg of None \<Rightarrow> ret () | Some c \<Rightarrow> conn_unlink c)"

fun gc_free :: "gc_item \<Rightarrow> (server, unit) prog" where
  "gc_free (Gc_message msg) = delete_message msg"
| "gc_free (Gc_direct d) = dm_unlink d"

text \<open>A scope with a local \<^verbatim>\<open>GC\<close>: its destructor releases the list on every way out. An exception out
  of a destructor ends the process.\<close>

definition with_gc :: "(server, 'a) prog \<Rightarrow> (server, 'a) prog" where
  "with_gc m = (\<lambda>s. case m (s\<lparr>s_gc := []\<rparr>) of (r, s1) \<Rightarrow>
     (case for_each (s_gc s1) gc_free (s1\<lparr>s_gc := s_gc s\<rparr>) of
        (Inl e, s2) \<Rightarrow> (Inl Fault, s2)
      | (Inr _, s2) \<Rightarrow> (r, s2)))"

definition generate_id :: "(server, bytes) prog" where
  "generate_id = (\<lambda>s.
     let i = s_gen_index s + 1;
         v = push_bit 16 i + and (s_rand s (s_nrand s)) 0xffff
     in (Inr (hex_bytes (ucast v)), s\<lparr>s_gen_index := i, s_nrand := s_nrand s + 1\<rparr>))"

text \<open>The next answer of the memory.\<close>

definition next_stale :: "(server, bytes) prog" where
  "next_stale = (\<lambda>s. (Inr (mm_stale (s_memory s) (s_nmemory s)), s\<lparr>s_nmemory := s_nmemory s + 1\<rparr>))"

definition next_room :: "(server, bool) prog" where
  "next_room = (\<lambda>s. (Inr (mm_room (s_memory s) (s_nmemory s)), s\<lparr>s_nmemory := s_nmemory s + 1\<rparr>))"

section \<open>Registered workers\<close>

text \<open>\<^verbatim>\<open>list->push(conn)\<close> with the assignment of its result to \<^verbatim>\<open>worker_item\<close>, and \<^verbatim>\<open>worker_item->pop()\<close>, whose
  destructor unlinks the connection and clears the pointer.\<close>

definition ring_push :: "nat \<Rightarrow> nat \<Rightarrow> (server, unit) prog" where
  "ring_push q c =
     thn (conn_link c)
    (thn (upd_ql q (\<lambda>ql. ql\<lparr>ql_ring := c # ql_ring ql\<rparr>))
         (upd_c c (\<lambda>r. r\<lparr>c_worker_item := Some q\<rparr>)))"

definition ring_pop :: "nat \<Rightarrow> (server, unit) prog" where
  "ring_pop c = bnd (get_c c) (\<lambda>r. case c_worker_item r of
     None \<Rightarrow> throw Fault
   | Some q \<Rightarrow>
       thn (upd_ql q (\<lambda>ql. ql\<lparr>ql_ring := remove1 c (ql_ring ql)\<rparr>))
      (thn (conn_unlink c)
           (upd_c c (\<lambda>r. r\<lparr>c_worker_item := None\<rparr>))))"

end
