(* ===== verification/Broker_Queues.thy ===== *)
theory Broker_Queues imports Broker_State begin

text \<open>
  src/server.cpp: the queue lines by name, and the two handlers that match requests with workers,
  \<^verbatim>\<open>client_request\<close> (a client asks, a waiting worker is looked for) and \<^verbatim>\<open>_add_worker\<close> (a worker asks, a
  waiting request is looked for).
\<close>

section \<open>Queue lines by name\<close>

definition mapper_op :: "(mapper, 'a) prog \<Rightarrow> (server, 'a) prog" where
  "mapper_op m = (\<lambda>s. case m (s_mapper s) of (r, mp) \<Rightarrow> (r, s\<lparr>s_mapper := mp\<rparr>))"

text \<open>\<^verbatim>\<open>_queue_list[n-1]\<close>, a pointer that may be null.\<close>

definition queue_at :: "nat \<Rightarrow> (server, nat option) prog" where
  "queue_at n = (\<lambda>s.
     if n - 1 < length (s_queue_list s)
     then (Inr (if s_queue_list s ! (n - 1) = None then None else Some (n - 1)), s)
     else (Inl Fault, s))"

definition new_queue_line :: "nat \<Rightarrow> bytes \<Rightarrow> queue_line" where
  "new_queue_line threads key =
     \<lparr>ql_name = key, ql_last_worker = 0, ql_locked = False,
      ql_queue = replicate threads \<lparr>q_workers = [], q_clients = []\<rparr>, ql_info = [], ql_ring = []\<rparr>"

fun free_slot :: "nat \<Rightarrow> queue_line option list \<Rightarrow> nat option" where
  "free_slot i [] = None"
| "free_slot i (None # qs) = Some i"
| "free_slot i (Some ql # qs) = free_slot (i + 1) qs"

text \<open>The search counts in 16 bits and does not end when there are 65536 lines and none is free. The line
  that got the number 65536 is under no name, so it is never deleted and never found free.\<close>

definition place_queue :: "queue_line \<Rightarrow> (server, nat) prog" where
  "place_queue ql = (\<lambda>s. case free_slot 0 (take 65536 (s_queue_list s)) of
     Some i \<Rightarrow> (Inr (i + 1), s\<lparr>s_queue_list := (s_queue_list s)[i := Some ql]\<rparr>)
   | None \<Rightarrow>
       (if 65536 \<le> length (s_queue_list s) then (Inl Deadlock, s)
        else (Inr (length (s_queue_list s) + 1), s\<lparr>s_queue_list := s_queue_list s @ [Some ql]\<rparr>)))"

definition find_queue :: "bytes \<Rightarrow> (server, nat) prog" where
  "find_queue key = (\<lambda>s. (mapper_find (s_mapper s) key, s))"

definition get_queue :: "bytes \<Rightarrow> bool \<Rightarrow> (server, nat option) prog" where
  "get_queue key create = bnd (find_queue key) (\<lambda>n.
     if n \<noteq> 0 then queue_at n
     else if \<not> create then ret None
     else guard_global (bnd (find_queue key) (\<lambda>n.
       if n \<noteq> 0 then queue_at n
       else bnd (gets s_threads) (\<lambda>threads.
            bnd (place_queue (new_queue_line threads key)) (\<lambda>n.
            thn (mapper_op (mapper_add key (n mod 65536))) (ret (Some (n - 1))))))))"

section \<open>Deleting a queue line\<close>

definition tell_closed :: "nat \<Rightarrow> (server, unit) prog" where
  "tell_closed c = bnd (get_c c) (\<lambda>r. whenp (\<not> is_closed r) (reply c ''400 Closed'' (- 1)))"

definition drop_client :: "message \<Rightarrow> (server, unit) prog" where
  "drop_client msg = thn (gc_add (Gc_message msg))
     (case msg_conn msg of None \<Rightarrow> ret () | Some c \<Rightarrow> tell_closed c)"

definition drop_worker :: "nat \<Rightarrow> (server, unit) prog" where
  "drop_worker w = thn (conn_unlink w) (tell_closed w)"

text \<open>\<^verbatim>\<open>delete ql\<close>: the ring's destructor pops every item; the line's own mutex is still locked.\<close>

definition free_queue_line :: "queue_line \<Rightarrow> (server, unit) prog" where
  "free_queue_line ql = for_each (ql_ring ql) (\<lambda>c.
     thn (conn_unlink c) (upd_c c (\<lambda>r. r\<lparr>c_worker_item := None\<rparr>)))"

definition delete_queue :: "bytes \<Rightarrow> (server, unit) prog" where
  "delete_queue key = guard_global (bnd (mapper_op (mapper_del key)) (\<lambda>n.
     if n = 0 then ret ()
     else bnd (get_ql (n - 1)) (\<lambda>ql.
       thn (modify (\<lambda>s. s\<lparr>s_queue_list := (s_queue_list s)[n - 1 := None]\<rparr>))
      (with_gc
        (if ql_locked ql then throw Deadlock
         else thn (for_each (ql_queue ql) (\<lambda>q.
                thn (for_each (q_clients q) drop_client) (for_each (q_workers q) drop_worker)))
              (free_queue_line ql))))))"

section \<open>The identifier of a request\<close>

text \<open>\<^verbatim>\<open>while(json.scan()) if(json.key == k) { ...; break; }\<close>\<close>

function json_find :: "bytes \<Rightarrow> (json, bytes option) prog" where
  "json_find k j = (case json_scan j of
     (Inl e, j') \<Rightarrow> (Inl e, j')
   | (Inr True, j') \<Rightarrow> (if j_key j' = k then (Inr (Some (j_value j')), j') else json_find k j')
   | (Inr False, j') \<Rightarrow> (Inr None, j'))"
  by pat_completeness auto
termination
  by (relation "measure (\<lambda>(k, j). length (j_data j) - j_index j)") (auto simp: json_scan_less)

declare json_find.simps [simp del]

definition conn_json :: "nat \<Rightarrow> (json, 'a) prog \<Rightarrow> (server, 'a) prog" where
  "conn_json c m = bnd (get_c c) (\<lambda>r. case m (c_json r) of (x, j) \<Rightarrow>
     thn (upd_c c (\<lambda>r. r\<lparr>c_json := j\<rparr>)) (lift_res x))"

definition scan_id :: "nat \<Rightarrow> (server, bytes) prog" where
  "scan_id c = bnd (conn_json c (json_find ''id'')) (\<lambda>v. case v of
     None \<Rightarrow> ret []
   | Some i \<Rightarrow> thn (upd_c c (\<lambda>r. r\<lparr>c_id := i\<rparr>)) (ret i))"

text \<open>The id of a client's request: its own, else the one in its body, else a new one. \<open>None\<close> when the
  body is not an object the scanner accepts.\<close>

definition request_id :: "nat \<Rightarrow> (server, bytes option) prog" where
  "request_id c = bnd (get_c c) (\<lambda>r.
     if c_id r \<noteq> [] then ret (Some (c_id r))
     else bnd (catch_invalid (bnd (scan_id c) (\<lambda>i. ret (Some i))) (ret None)) (\<lambda>i.
       case i of
         None \<Rightarrow> ret None
       | Some i \<Rightarrow>
           (if i \<noteq> [] then ret (Some i)
            else bnd generate_id (\<lambda>i. thn (upd_c c (\<lambda>r. r\<lparr>c_id := i\<rparr>)) (ret (Some i))))))"

section \<open>A request looks for a worker\<close>

text \<open>The order in which the per-loop queues are tried: the own one first.\<close>

definition loop_order :: "nat \<Rightarrow> nat \<Rightarrow> nat list" where
  "loop_order n threads = n # filter (\<lambda>i. i \<noteq> n) [0..<threads]"

definition set_workers :: "nat \<Rightarrow> nat \<Rightarrow> nat list \<Rightarrow> (server, unit) prog" where
  "set_workers q r ws = upd_queue_of q r (\<lambda>x. x\<lparr>q_workers := ws\<rparr>)"

definition set_clients :: "nat \<Rightarrow> nat \<Rightarrow> message list \<Rightarrow> (server, unit) prog" where
  "set_clients q r ms = upd_queue_of q r (\<lambda>x. x\<lparr>q_clients := ms\<rparr>)"

text \<open>The request names a worker, and it is not this one.\<close>

definition other_worker :: "nat \<Rightarrow> nat \<Rightarrow> (server, bool) prog" where
  "other_worker c w = bnd (get_c c) (\<lambda>client.
     if c_required_worker client = [] then ret False
     else bnd (get_c w) (\<lambda>worker. ret (c_required_worker client \<noteq> c_connection_id worker)))"

text \<open>\<open>kept\<close> are the workers passed over because the request names another one.\<close>

fun pick_worker :: "nat \<Rightarrow> nat \<Rightarrow> nat \<Rightarrow> nat list \<Rightarrow> nat list \<Rightarrow> (server, nat option) prog" where
  "pick_worker c q r kept [] = ret None"
| "pick_worker c q r kept (w # ws) = bnd (other_worker c w) (\<lambda>other.
     if other then pick_worker c q r (kept @ [w]) ws
     else thn (set_workers q r (kept @ ws))
         (thn (conn_unlink w)
         (bnd (get_c w) (\<lambda>worker.
          if is_closed worker then pick_worker c q r kept ws
          else if c_status worker \<noteq> Worker_wait_job then pick_worker c q r kept ws
          else thn (upd_c w (\<lambda>r. r\<lparr>c_status := Busy\<rparr>)) (ret (Some w))))))"

fun find_worker :: "nat \<Rightarrow> nat \<Rightarrow> nat list \<Rightarrow> (server, nat option) prog" where
  "find_worker c q [] = ret None"
| "find_worker c q (r # rs) = bnd (get_queue_of q r) (\<lambda>x.
     bnd (pick_worker c q r [] (q_workers x)) (\<lambda>w. case w of
       Some w \<Rightarrow> ret (Some w)
     | None \<Rightarrow> find_worker c q rs))"

text \<open>The request is put behind the last one of at least its priority, else in front.\<close>

fun insert_loop :: "message \<Rightarrow> message list \<Rightarrow> message list \<Rightarrow> message list" where
  "insert_loop msg [] after = msg # after"
| "insert_loop msg (x # earlier) after =
     (if msg_priority msg \<le> msg_priority x then rev (x # earlier) @ msg # after
      else insert_loop msg earlier (x # after))"

definition insert_message :: "message \<Rightarrow> message list \<Rightarrow> message list" where
  "insert_message msg ms = insert_loop msg (rev ms) []"

definition free_worker :: "nat \<Rightarrow> (server, unit) prog" where
  "free_worker w = upd_c w (\<lambda>r. r\<lparr>c_status := (if c_worker_mode r then Worker_mode_async else Net)\<rparr>)"

text \<open>The worker goes back to the front of its queue, still waiting.\<close>

definition return_worker :: "nat \<Rightarrow> nat \<Rightarrow> (server, unit) prog" where
  "return_worker q w =
     thn (conn_link w)
    (thn (upd_c w (\<lambda>r. r\<lparr>c_status := Worker_wait_job\<rparr>))
    (bnd (get_c w) (\<lambda>worker.
       upd_queue_of q (c_nloop worker) (\<lambda>x. x\<lparr>q_workers := w # q_workers x\<rparr>))))"

definition attach :: "nat \<Rightarrow> nat \<Rightarrow> (server, unit) prog" where
  "attach w c = thn (upd_c w (\<lambda>r. r\<lparr>c_client := Some c\<rparr>)) (conn_link c)"

definition wait_for :: "bytes \<Rightarrow> nat \<Rightarrow> (server, unit) prog" where
  "wait_for sid c = modify (\<lambda>s. s\<lparr>s_wait_response := (s_wait_response s)(sid \<mapsto> c)\<rparr>)"

text \<open>A waiting worker has been taken for the request of client \<open>c\<close>.\<close>

definition hand_over :: "nat \<Rightarrow> bytes \<Rightarrow> nat \<Rightarrow> nat \<Rightarrow> (server, int) prog" where
  "hand_over q name c w = bnd (get_c c) (\<lambda>client. bnd (get_c w) (\<lambda>worker.
     if c_no_response client then
       thn (free_worker w)
      (thn (send_status w ''200 OK'')
      (thn (send_header w ''Name'' name)
      (thn (send_header w ''Async'' ''true'')
      (thn (send_done_body w (c_body client))
      (thn (reply c ''200 OK'' 1) (ret 0))))))
     else if c_noid worker then
       thn (attach w c)
      (thn (upd_c c (\<lambda>r. r\<lparr>c_status := Client_wait_result\<rparr>))
      (thn (upd_c w (\<lambda>r. r\<lparr>c_status := Worker_wait_result\<rparr>))
      (thn (send_status w ''200 OK'')
      (thn (send_header w ''Name'' name)
      (thn (send_done_body w (c_body client)) (ret 0))))))
     else bnd (request_id c) (\<lambda>i. case i of
       None \<Rightarrow> thn (return_worker q w) (thn (reply c ''400 No Id'' (- 1)) (ret (- 3)))
     | Some sid \<Rightarrow> bnd (gets s_wait_response) (\<lambda>wait.
         if wait sid \<noteq> None
         then thn (return_worker q w) (thn (reply c ''400 Collision Id'' (- 1)) (ret (- 3)))
         else
           thn (whenp (c_fail_on_disconnect worker) (attach w c))
          (thn (send_status w ''200 OK'')
          (thn (send_header w ''Id'' sid)
          (thn (send_header w ''Name'' name)
          (thn (send_done_body w (c_body client))
          (thn (wait_for sid c)
          (thn (conn_link c)
          (thn (upd_c c (\<lambda>r. r\<lparr>c_status := Client_wait_result\<rparr>))
          (thn (upd_c w (\<lambda>r. r\<lparr>c_status := Net\<rparr>)) (ret 0)))))))))))))"

text \<open>No worker is waiting: the request is queued.\<close>

definition enqueue :: "nat \<Rightarrow> nat \<Rightarrow> bytes \<Rightarrow> nat \<Rightarrow> (server, int) prog" where
  "enqueue n q name c = bnd (get_c c) (\<lambda>client. bnd (get_ql q) (\<lambda>ql.
     if c_header_option client = ''if present'' \<and> ql_ring ql = []
     then thn (reply c ''204 No Content'' 1) (ret 0)
     else
       thn (upd_c c (\<lambda>r. r\<lparr>c_required_worker := []\<rparr>))
      (bnd (if c_no_response client
            then thn (upd_c c (\<lambda>r. r\<lparr>c_body := []\<rparr>))
                (ret \<lparr>msg_priority = c_priority client, msg_required = c_required_worker client,
                      msg_conn = None, msg_buf = c_body client, msg_name = name\<rparr>)
            else thn (upd_c c (\<lambda>r. r\<lparr>c_name := name\<rparr>))
                (thn (conn_link c)
                (ret \<lparr>msg_priority = c_priority client, msg_required = c_required_worker client,
                      msg_conn = Some c, msg_buf = [], msg_name = []\<rparr>)))
       (\<lambda>msg.
        thn (upd_queue_of q n (\<lambda>x. x\<lparr>q_clients := insert_message msg (q_clients x)\<rparr>))
       (thn (if c_no_response client then reply c ''200 OK'' 1
             else upd_c c (\<lambda>r. r\<lparr>c_status := Client_wait_result\<rparr>))
        (ret 0))))))"

definition client_request :: "nat \<Rightarrow> bytes \<Rightarrow> nat \<Rightarrow> (server, int) prog" where
  "client_request n name c =
     thn (upd_loop n (\<lambda>l. l\<lparr>l_stat_call := l_stat_call l + 1\<rparr>))
    (bnd (get_queue name False) (\<lambda>q. case q of
       None \<Rightarrow> thn (reply c ''404 Not Found'' (- 32601)) (ret (- 1))
     | Some q \<Rightarrow> guard_ql q (bnd (gets s_threads) (\<lambda>threads.
         bnd (find_worker c q (loop_order n threads)) (\<lambda>w. case w of
           Some w \<Rightarrow> hand_over q name c w
         | None \<Rightarrow> enqueue n q name c)))))"

section \<open>A worker looks for a request\<close>

definition conn_gc :: "nat \<Rightarrow> (server, unit) prog" where
  "conn_gc c = bnd (get_c c) (\<lambda>r. with_gc
     (thn (for_each (c_direct_message r) (\<lambda>d. gc_add (Gc_direct d)))
          (upd_c c (\<lambda>r. r\<lparr>c_direct_message := []\<rparr>))))"

text \<open>
  The request of a message taken from the queue, for worker \<open>w\<close>: \<open>Some sid\<close> when it can be handed over
  (\<open>sid\<close> is empty when no id is needed), \<open>None\<close> when the search goes on.
\<close>

definition try_message :: "nat \<Rightarrow> message \<Rightarrow> (server, bytes option) prog" where
  "try_message w msg = (case msg_conn msg of
     None \<Rightarrow> ret (Some [])
   | Some c \<Rightarrow> bnd (get_c c) (\<lambda>client.
       if is_closed client then ret None
       else if c_status client \<noteq> Client_wait_result then ret None
       else thn (upd_c c (\<lambda>r. r\<lparr>c_status := Busy\<rparr>))
           (bnd (get_c w) (\<lambda>worker.
            if c_noid worker then ret (Some [])
            else bnd (request_id c) (\<lambda>i. case i of
              None \<Rightarrow> thn (reply c ''400 No Id'' (- 1)) (ret None)
            | Some sid \<Rightarrow> bnd (gets s_wait_response) (\<lambda>wait.
                if wait sid \<noteq> None
                then thn (reply c ''400 Collision Id'' (- 1))
                    (thn (upd_c c (\<lambda>r. r\<lparr>c_status := Net\<rparr>)) (ret None))
                else ret (Some sid)))))))"

fun pick_message :: "nat \<Rightarrow> nat \<Rightarrow> nat \<Rightarrow> message list \<Rightarrow> message list \<Rightarrow>
    (server, (message \<times> bytes) option) prog" where
  "pick_message w q r kept [] = ret None"
| "pick_message w q r kept (msg # ms) = bnd (get_c w) (\<lambda>worker.
     if msg_required msg \<noteq> [] \<and> msg_required msg \<noteq> c_connection_id worker
     then pick_message w q r (kept @ [msg]) ms
     else thn (set_clients q r (kept @ ms))
         (thn (gc_add (Gc_message msg))
         (bnd (try_message w msg) (\<lambda>t. case t of
            Some sid \<Rightarrow> ret (Some (msg, sid))
          | None \<Rightarrow> pick_message w q r kept ms))))"

fun find_message :: "nat \<Rightarrow> nat \<Rightarrow> nat list \<Rightarrow> (server, (message \<times> bytes) option) prog" where
  "find_message w q [] = ret None"
| "find_message w q (r # rs) = bnd (get_queue_of q r) (\<lambda>x.
     bnd (pick_message w q r [] (q_clients x)) (\<lambda>m. case m of
       Some m \<Rightarrow> ret (Some m)
     | None \<Rightarrow> find_message w q rs))"

text \<open>A request has been found. The result for a message without a client is a local variable the code
  never assigns.\<close>

definition give_message :: "nat \<Rightarrow> message \<Rightarrow> bytes \<Rightarrow> (server, int) prog" where
  "give_message w msg sid = bnd (get_c w) (\<lambda>worker. case msg_conn msg of
     None \<Rightarrow>
       thn (free_worker w)
      (thn (send_status w ''200 OK'')
      (thn (send_header w ''Name'' (msg_name msg))
      (thn (send_header w ''Async'' ''true'')
      (thn (send_done_body w (msg_buf msg)) (gets s_junk)))))
   | Some c \<Rightarrow>
       thn (whenp (c_fail_on_disconnect worker) (attach w c))
      (bnd (get_c c) (\<lambda>client.
       if c_noid worker then
         thn (upd_c w (\<lambda>r. r\<lparr>c_status := Worker_wait_result\<rparr>))
        (thn (send_status w ''200 OK'')
        (thn (send_header w ''Name'' (c_name client))
        (thn (send_done_body w (c_body client)) (ret 1))))
       else
         thn (send_status w ''200 OK'')
        (thn (send_header w ''Id'' (c_id client))
        (thn (send_header w ''Name'' (c_name client))
        (thn (send_done_body w (c_body client))
        (thn (wait_for sid c)
        (thn (conn_link c)
        (thn (upd_c w (\<lambda>r. r\<lparr>c_status := Net\<rparr>)) (ret 1))))))))))"

fun drop_stale :: "nat \<Rightarrow> nat \<Rightarrow> nat \<Rightarrow> nat list \<Rightarrow> nat list \<Rightarrow> (server, unit) prog" where
  "drop_stale w q r kept [] = ret ()"
| "drop_stale w q r kept (v # vs) = bnd (get_c v) (\<lambda>conn.
     if is_closed conn \<or> v = w
     then thn (set_workers q r (kept @ vs)) (thn (conn_unlink v) (drop_stale w q r kept vs))
     else drop_stale w q r (kept @ [v]) vs)"

text \<open>No request is waiting: the worker is.\<close>

definition wait_job :: "nat \<Rightarrow> nat \<Rightarrow> nat \<Rightarrow> (server, int) prog" where
  "wait_job n q w =
     thn (bnd (get_queue_of q n) (\<lambda>x. drop_stale w q n [] (q_workers x)))
    (thn (upd_queue_of q n (\<lambda>x. x\<lparr>q_workers := q_workers x @ [w]\<rparr>))
    (thn (conn_link w)
    (thn (upd_c w (\<lambda>r. r\<lparr>c_status := Worker_wait_job\<rparr>)) (ret 0))))"

definition register_worker :: "nat \<Rightarrow> bytes \<Rightarrow> nat \<Rightarrow> (server, unit) prog" where
  "register_worker q name w = bnd (get_c w) (\<lambda>r.
     if c_worker_item r \<noteq> None then ret ()
     else thn (whenp (c_worker_mode r \<or> c_noid r \<or> c_status r = Worker_wait_job) (ring_push q w))
              (whenp (\<not> c_worker_mode r \<and> c_noid r) (upd_c w (\<lambda>r. r\<lparr>c_worker_sub_name := name\<rparr>))))"

text \<open>The text of \<^verbatim>\<open>info\<close> after \<^verbatim>\<open>json::unescape\<close>, empty when that throws.\<close>

definition unescaped :: "bytes \<Rightarrow> bytes" where
  "unescaped s = (case unescape 0 \<lparr>b_data = s, b_cap = int (length s), b_block = Some (int (length s))\<rparr> of
     (Inl e, b) \<Rightarrow> [] | (Inr _, b) \<Rightarrow> b_data b)"

definition add_one_worker :: "nat \<Rightarrow> bytes \<Rightarrow> nat \<Rightarrow> (server, int) prog" where
  "add_one_worker n name w = (let name = (if name \<noteq> [] \<and> hd name = CHR ''/'' then slice_remove 1 name else name) in
     bnd (get_queue name True) (\<lambda>q. case q of None \<Rightarrow> throw Fault | Some q \<Rightarrow>
       bnd (get_c w) (\<lambda>r0.
       thn (whenp (c_info r0 \<noteq> []) (upd_ql q (\<lambda>ql. ql\<lparr>ql_info := unescaped (c_info r0)\<rparr>)))
      (thn (whenp (c_connection_id r0 = [])
             (bnd generate_id (\<lambda>i. upd_c w (\<lambda>r. r\<lparr>c_connection_id := i\<rparr>))))
      (thn (whenp (\<not> c_worker_mode r0 \<and> c_worker_item r0 \<noteq> None \<and> slice_compare (c_worker_sub_name r0) name \<noteq> 0)
             (thn (ring_pop w) (conn_gc w)))
      (bnd (get_c w) (\<lambda>r.
       if c_direct_message r \<noteq> [] then thn (write_mode True w) (ret 1)
       else with_gc
        (bnd (gets s_now) (\<lambda>now.
         thn (upd_ql q (\<lambda>ql. ql\<lparr>ql_last_worker := uint now\<rparr>))
        (thn (lock_ql q)
        (bnd (gets s_threads) (\<lambda>threads.
         bnd (find_message w q (loop_order n threads)) (\<lambda>m.
         bnd (case m of Some (msg, sid) \<Rightarrow> give_message w msg sid | None \<Rightarrow> wait_job n q w) (\<lambda>result.
         thn (register_worker q name w)
        (thn (unlock_ql q) (ret result))))))))))))))))"

text \<open>A worker may wait for several names, separated by commas or blanks.\<close>

fun add_worker_loop :: "nat \<Rightarrow> nat \<Rightarrow> bytes \<Rightarrow> bytes \<Rightarrow> (server, unit) prog" where
  "add_worker_loop n w part [] =
     (if part \<noteq> [] then thn (add_one_worker n part w) (ret ()) else ret ())"
| "add_worker_loop n w part (a # s) =
     (if a = CHR '','' \<or> a = CHR '' ''
      then bnd (add_one_worker n part w) (\<lambda>r. if r = 1 then ret () else add_worker_loop n w [] s)
      else add_worker_loop n w (part @ [a]) s)"

definition add_worker :: "nat \<Rightarrow> bytes \<Rightarrow> nat \<Rightarrow> (server, unit) prog" where
  "add_worker n name w = add_worker_loop n w [] name"

end
