(* ===== verification/Broker_Rpc.thy ===== *)
theory Broker_Rpc imports Broker_Queues begin

text \<open>
  src/server.cpp: the results of workers on their way back to the clients, and what is undone when a
  connection goes away.
\<close>

text \<open>The connections follow each other to the loop the worker asks for.\<close>

definition migrate :: "nat \<Rightarrow> nat \<Rightarrow> (server, unit) prog" where
  "migrate w c = bnd (get_c w) (\<lambda>worker.
     thn (upd_c w (\<lambda>r. r\<lparr>c_go_loop := True\<rparr>))
         (upd_c c (\<lambda>r. r\<lparr>c_go_loop := True, c_need_loop := c_need_loop worker\<rparr>)))"

text \<open>\<open>worker\<close> is \<open>None\<close> when the result is that the worker is gone.\<close>

definition worker_result :: "bytes \<Rightarrow> nat option \<Rightarrow> (server, int) prog" where
  "worker_result i worker = bnd (gets s_wait_response) (\<lambda>wait. case wait i of
     None \<Rightarrow> ret (- 1)
   | Some c \<Rightarrow>
       thn (modify (\<lambda>s. s\<lparr>s_wait_response := (s_wait_response s)(i := None)\<rparr>))
      (thn (conn_unlink c)
      (bnd (get_c c) (\<lambda>client.
       if is_closed client then ret (- 2)
       else
         thn (case worker of
                Some w \<Rightarrow> bnd (get_c w) (\<lambda>r.
                  thn (send_status c ''200 OK'') (thn (send_header c ''Id'' i) (send_done_body c (c_body r))))
              | None \<Rightarrow>
                  thn (send_status c ''503 Service Unavailable'')
                 (thn (send_header c ''Id'' i) (send_done_code c (- 1))))
        (thn (upd_c c (\<lambda>r. r\<lparr>c_status := Net\<rparr>))
        (thn (case worker of
                Some w \<Rightarrow> bnd (get_c w) (\<lambda>r. whenp (c_nloop r \<noteq> c_need_loop r) (migrate w c))
              | None \<Rightarrow> ret ())
        (ret 0)))))))"

definition worker_result_noid :: "nat \<Rightarrow> nat \<Rightarrow> (server, int) prog" where
  "worker_result_noid n w =
     thn (upd_loop n (\<lambda>l. l\<lparr>l_stat_result := l_stat_result l + 1\<rparr>))
    (bnd (get_c w) (\<lambda>worker. case c_client worker of
       None \<Rightarrow> throw (Thrown ''No connected client for noid'')
     | Some c \<Rightarrow>
         thn (whenp (\<not> c_worker_mode worker)
                (upd_c w (\<lambda>r. r\<lparr>c_noid := False, c_fail_on_disconnect := False\<rparr>)))
        (thn (upd_c w (\<lambda>r. r\<lparr>c_client := None\<rparr>))
        (thn (conn_unlink c)
        (bnd (get_c c) (\<lambda>client.
         if is_closed client then ret (- 2)
         else
           thn (upd_c c (\<lambda>r. r\<lparr>c_status := Net\<rparr>))
          (thn (send_status c ''200 OK'')
          (bnd (get_c w) (\<lambda>r.
           thn (send_done_body c (c_body r))
          (thn (whenp (c_nloop r \<noteq> c_need_loop r) (migrate w c))
           (ret 0)))))))))))"

definition on_disconnect :: "nat \<Rightarrow> (server, unit) prog" where
  "on_disconnect c =
     thn (bnd (get_c c) (\<lambda>r. whenp (c_worker_item r \<noteq> None) (ring_pop c)))
    (thn (bnd (get_c c) (\<lambda>r. whenp (c_direct_message r \<noteq> []) (conn_gc c)))
    (thn (bnd (get_c c) (\<lambda>r. bnd (gets s_wait_response) (\<lambda>wait.
            whenp (c_status r = Client_wait_result \<and> c_id r \<noteq> [] \<and> wait (c_id r) \<noteq> None)
              (thn (modify (\<lambda>s. s\<lparr>s_wait_response := (s_wait_response s)(c_id r := None)\<rparr>))
                   (conn_unlink c)))))
    (bnd (get_c c) (\<lambda>r.
     if \<not> c_fail_on_disconnect r then ret ()
     else
       thn (if c_noid r then
              (if c_status r = Worker_wait_result then
                 (case c_client r of
                    None \<Rightarrow> throw (Thrown ''No client'')
                  | Some d \<Rightarrow> bnd (get_c d) (\<lambda>client.
                      thn (whenp (\<not> is_closed client) (reply d ''503 Service Unavailable'' (- 1)))
                          (upd_c d (\<lambda>r. r\<lparr>c_status := Net\<rparr>))))
               else if c_client r \<noteq> None then throw (Thrown ''Client is linked to pending worker'')
               else ret ())
            else (case c_client r of
               None \<Rightarrow> ret ()
             | Some d \<Rightarrow> bnd (get_c d) (\<lambda>client. thn (worker_result (c_id client) None) (ret ()))))
       (bnd (get_c c) (\<lambda>r. case c_client r of
          None \<Rightarrow> ret ()
        | Some d \<Rightarrow> thn (conn_unlink d) (upd_c c (\<lambda>r. r\<lparr>c_client := None\<rparr>))))))))"

end
