(* ===== verification/Http_Request.thy ===== *)
theory Http_Request imports Broker_Rpc begin

text \<open>
  src/connect.cpp: what a completed request does, from its path and type to the handlers of the queues,
  and the handlers that live in the connection itself (publishing, creating and deleting a queue).
\<close>

section \<open>Loops over the members of a JSON object\<close>

text \<open>\<^verbatim>\<open>while(json.scan()) { f }\<close>, with the loop's variables as the state of \<open>f\<close>, which may throw.\<close>

function json_each :: "(bytes \<Rightarrow> bytes \<Rightarrow> ('a, unit) prog) \<Rightarrow> 'a \<Rightarrow> json \<Rightarrow> (exn + unit) \<times> 'a \<times> json" where
  "json_each f a j = (case json_scan j of
     (Inl e, j') \<Rightarrow> (Inl e, a, j')
   | (Inr True, j') \<Rightarrow> (case f (j_key j') (j_value j') a of
       (Inl e, a') \<Rightarrow> (Inl e, a', j')
     | (Inr _, a') \<Rightarrow> json_each f a' j')
   | (Inr False, j') \<Rightarrow> (Inr (), a, j'))"
  by pat_completeness auto
termination
  by (relation "measure (\<lambda>(f, a, j). length (j_data j) - j_index j)") (auto simp: json_scan_less)

declare json_each.simps [simp del]

section \<open>A worker's request\<close>

record add_vars =
  av_buffer :: bytes
  av_name :: bytes
  av_info :: bytes
  av_noid :: bool
  av_fail :: bool

text \<open>\<^verbatim>\<open>json.decode_value(this->name)\<close>; a malformed escape leaves the buffer as far as it got.\<close>

definition decoded :: "bytes \<Rightarrow> (exn + unit) \<times> bytes" where
  "decoded s = (case unescape 0 \<lparr>b_data = s, b_cap = int (length s), b_block = Some (int (length s))\<rparr> of
     (r, b) \<Rightarrow> (r, b_data b))"

definition add_member :: "bytes \<Rightarrow> bytes \<Rightarrow> (add_vars, unit) prog" where
  "add_member key value = (\<lambda>v.
     if key = ''name'' then
       (case decoded value of
          (Inl e, name) \<Rightarrow> (Inl e, v\<lparr>av_buffer := name\<rparr>)
        | (Inr _, name) \<Rightarrow> (Inr (), v\<lparr>av_buffer := name, av_name := name\<rparr>))
     else if key = ''info'' then (Inr (), v\<lparr>av_info := value\<rparr>)
     else if key = ''option'' then
       (if value = ''no_id'' then (Inr (), v\<lparr>av_noid := True, av_fail := True\<rparr>)
        else if value = ''fail_on_disconnect'' then (Inr (), v\<lparr>av_fail := True\<rparr>)
        else (Inr (), v))
     else (Inr (), v))"

definition rpc_add :: "nat \<Rightarrow> (server, unit) prog" where
  "rpc_add c = bnd (get_c c) (\<lambda>r.
     case json_each add_member
       \<lparr>av_buffer = c_name r, av_name = c_name r, av_info = c_info r, av_noid = c_noid r,
        av_fail = c_fail_on_disconnect r\<rparr> (c_json r) of
     (x, v, j) \<Rightarrow>
       thn (upd_c c (\<lambda>r. r\<lparr>c_json := j, c_name := av_buffer v, c_info := av_info v, c_noid := av_noid v,
              c_fail_on_disconnect := av_fail v\<rparr>))
      (thn (lift_res x)
      (if av_name v = []
       then thn (upd_c c (\<lambda>r. r\<lparr>c_worker_mode := False\<rparr>)) (reply c ''400 No name'' (- 32602))
       else thn (whenp (c_worker_mode r) (upd_c c (\<lambda>r. r\<lparr>c_noid := True, c_fail_on_disconnect := True\<rparr>)))
                (add_worker (c_nloop r) (av_name v) c))))"

section \<open>Results\<close>

definition rpc_result :: "bytes \<Rightarrow> nat \<Rightarrow> (server, unit) prog" where
  "rpc_result i c = bnd (get_c c) (\<lambda>r.
     bnd (if i = [] \<and> j_level (c_json r) = 0
          then bnd (conn_json c (json_find ''id'')) (\<lambda>v. ret (case v of None \<Rightarrow> i | Some x \<Rightarrow> x))
          else ret i) (\<lambda>i.
     thn (if i = [] then reply c ''400 No id'' (- 1)
          else thn (upd_loop (c_nloop r) (\<lambda>l. l\<lparr>l_stat_result := l_stat_result l + 1\<rparr>))
              (bnd (worker_result i (Some c)) (\<lambda>x.
               if x = 0 then reply c ''200 OK'' 1
               else if x = - 2 then reply c ''499 Closed'' (- 1)
               else reply c ''400 Wrong id'' (- 1))))
         (upd_c c (\<lambda>r. r\<lparr>c_status := Net\<rparr>))))"

section \<open>Publishing\<close>

definition dm_text :: "bytes \<Rightarrow> bytes \<Rightarrow> bytes" where
  "dm_text name body = ''HTTP/1.1 200 OK'' @ crlf @ ''Connection: keep-alive'' @ crlf @ ''Name: '' @ name @
     crlf @ ''Async: true'' @ crlf @
     (if body = [] then ''Content-Length: 0'' @ crlf @ crlf
      else ''Content-Length: '' @ number_bytes (int (length body)) @ crlf @ crlf @ body)"

definition new_dm :: "bytes \<Rightarrow> (server, nat) prog" where
  "new_dm text = (\<lambda>s. (Inr (s_next_dm s),
     s\<lparr>s_dms := (s_dms s)(s_next_dm s \<mapsto> \<lparr>dm_data = text, dm_counter = 1\<rparr>),
       s_next_dm := s_next_dm s + 1\<rparr>))"

definition give_dm :: "nat \<Rightarrow> nat \<Rightarrow> (server, unit) prog" where
  "give_dm d w = thn (dm_link d) (upd_c w (\<lambda>r. r\<lparr>c_direct_message := c_direct_message r @ [d]\<rparr>))"

definition pub_one :: "nat \<Rightarrow> nat \<Rightarrow> (server, unit) prog" where
  "pub_one d w = bnd (get_c w) (\<lambda>r.
     if c_status r = Worker_wait_job
     then thn (free_worker w) (thn (give_dm d w) (write_mode True w))
     else whenp (c_noid r) (give_dm d w))"

definition pub :: "nat \<Rightarrow> bytes \<Rightarrow> (server, unit) prog" where
  "pub c name = bnd (get_queue name False) (\<lambda>q. case q of
     None \<Rightarrow> reply c ''404 Not Found'' (- 32601)
   | Some q \<Rightarrow>
       bnd (get_c c) (\<lambda>r.
       bnd (new_dm (dm_text name (c_body r))) (\<lambda>d.
       bnd (get_ql q) (\<lambda>ql.
       thn (for_each (ql_ring ql) (pub_one d))
      (thn (reply c ''200 OK'' 1) (dm_unlink d))))))"

definition queue_name :: "bytes \<Rightarrow> bytes" where
  "queue_name name = (if hd name = CHR ''/'' then slice_remove 1 name else name)"

definition conn_create_queue :: "bytes \<Rightarrow> nat \<Rightarrow> (server, unit) prog" where
  "conn_create_queue name c =
     (if name = [] then reply c ''400 Wrong queue'' (- 32600)
      else thn (get_queue (queue_name name) True) (reply c ''200 OK'' 1))"

definition conn_delete_queue :: "bytes \<Rightarrow> nat \<Rightarrow> (server, unit) prog" where
  "conn_delete_queue name c =
     (if name = [] then reply c ''400 Wrong queue'' (- 32600)
      else thn (delete_queue (queue_name name)) (reply c ''200 OK'' 1))"

section \<open>Reports\<close>

text \<open>
  Queue names are compared as signed bytes, a prefix first; the report of \<^verbatim>\<open>rpc/help\<close> lists the queues in
  this order.
\<close>

datatype qname = Qname (qname_bytes: bytes)

instantiation qname :: linorder
begin

definition less_eq_qname :: "qname \<Rightarrow> qname \<Rightarrow> bool" where
  "less_eq_qname a b = (slice_compare (qname_bytes a) (qname_bytes b) \<le> 0)"

definition less_qname :: "qname \<Rightarrow> qname \<Rightarrow> bool" where
  "less_qname a b = (slice_compare (qname_bytes a) (qname_bytes b) < 0)"

instance
proof
  fix a b c :: qname
  show "(a < b) = (a \<le> b \<and> \<not> b \<le> a)"
    using slice_compare_swap [of "qname_bytes a" "qname_bytes b"] by (auto simp: less_eq_qname_def less_qname_def)
  show "a \<le> a"
    using slice_compare_0 [of "qname_bytes a" "qname_bytes a"] by (simp add: less_eq_qname_def del: slice_compare_0)
  show "a \<le> c" if "a \<le> b" "b \<le> c"
  proof (cases "qname_bytes a = qname_bytes b \<or> qname_bytes b = qname_bytes c")
    case True
    with that show ?thesis by (auto simp: less_eq_qname_def)
  next
    case False
    with that have "slice_compare (qname_bytes a) (qname_bytes b) < 0"
      "slice_compare (qname_bytes b) (qname_bytes c) < 0"
      by (auto simp: less_eq_qname_def order.order_iff_strict)
    from slice_compare_trans [OF this] show ?thesis by (simp add: less_eq_qname_def)
  qed
  show "a = b" if "a \<le> b" "b \<le> a"
  proof (rule ccontr)
    assume "a \<noteq> b"
    then have "qname_bytes a \<noteq> qname_bytes b" by (auto intro: qname.expand)
    with that have "slice_compare (qname_bytes a) (qname_bytes b) < 0"
      "slice_compare (qname_bytes b) (qname_bytes a) < 0"
      by (auto simp: less_eq_qname_def order.order_iff_strict)
    then show False using slice_compare_swap [of "qname_bytes a" "qname_bytes b"] by simp
  qed
  show "a \<le> b \<or> b \<le> a"
    using slice_compare_swap [of "qname_bytes b" "qname_bytes a"] by (auto simp: less_eq_qname_def)
qed

end

definition queue_lines :: "server \<Rightarrow> queue_line list" where
  "queue_lines s = concat (map (\<lambda>q. case q of None \<Rightarrow> [] | Some ql \<Rightarrow> [ql]) (s_queue_list s))"

definition count_workers :: "queue_line \<Rightarrow> nat" where
  "count_workers ql = sum_list (map (\<lambda>q. length (q_workers q)) (ql_queue ql))"

definition count_clients :: "queue_line \<Rightarrow> nat" where
  "count_clients ql = sum_list (map (\<lambda>q. length (q_clients q)) (ql_queue ql))"

definition nl :: bytes where
  "nl = [CHR 0x0A]"

definition help_line :: "bytes \<Rightarrow> bytes \<Rightarrow> bytes" where
  "help_line key text = ''  '' @ quoted key @ '' - '' @ text @ nl"

definition help_msg :: bytes where
  "help_msg = nl @ nl @ ''Type of request (header type/x-type):'' @ nl @
     help_line ''type: get'' ''get a task'' @
     help_line ''type: get+'' ''get a task with keep-alive'' @
     help_line ''type: worker'' ''worker mode'' @
     help_line ''type: async'' ''send a command async'' @
     help_line ''type: pub'' ''publish a message (send message to all workers)'' @
     help_line ''type: result'' ''result from worker to client'' @
     help_line ''type: create'' ''create a queue'' @
     help_line ''type: delete'' ''delete a queue'' @ nl @
     ''Another options (header):'' @ nl @
     help_line ''priority: 15'' ''set priority for request'' @
     help_line ''set-id: 15'' ''set id for worker'' @
     help_line ''worker-id: 15'' ''call worker with specific id'' @
     help_line ''timeout: 60'' ''timeout for worker in sec'' @ nl @
     ''rpc/details  - get details in json'' @ nl @ nl"

definition help_queue :: "queue_line \<Rightarrow> bytes" where
  "help_queue ql = ql_name ql @ replicate (20 - length (ql_name ql)) (CHR '' '') @ '' '' @
     number_bytes (int (count_clients ql)) @ ''/'' @ number_bytes (int (count_workers ql)) @
     (if ql_info ql = [] then [] else ''  '' @ ql_info ql) @ nl"

definition sorted_lines :: "server \<Rightarrow> queue_line list" where
  "sorted_lines s = sort_key (\<lambda>ql. Qname (ql_name ql)) (queue_lines s)"

definition send_help :: "nat \<Rightarrow> (server, unit) prog" where
  "send_help c = guard_global (bnd (gets (\<lambda>s.
       ''ijson '' @ s_version s @ help_msg @ concat (map help_queue (sorted_lines s)))) (\<lambda>text.
     thn (send_status c ''200 OK'') (send_done_body c text)))"

text \<open>
  \<^verbatim>\<open>rpc/details\<close> is built in a \<^verbatim>\<open>Buffer\<close> with its capacity, since it calls \<^verbatim>\<open>json::escape\<close> on it. Memory is
  assumed not to run out.
\<close>

abbreviation put_text :: "bytes \<Rightarrow> (buffer, unit) prog" where
  "put_text \<equiv> buf_add_lit (\<lambda>_. True)"

abbreviation put_bytes :: "bytes \<Rightarrow> (buffer, unit) prog" where
  "put_bytes xs \<equiv> buf_add (\<lambda>_. True) (Some xs)"

abbreviation put_number :: "int \<Rightarrow> (buffer, unit) prog" where
  "put_number \<equiv> buf_add_number (\<lambda>_. True)"

text \<open>\<^verbatim>\<open>int start = res.size(); res.add(text); json::escape(res, start);\<close>\<close>

definition put_escaped :: "bytes \<Rightarrow> (buffer, unit) prog" where
  "put_escaped text = bnd (gets (\<lambda>b. length (b_data b))) (\<lambda>start.
     thn (put_bytes text) (escape start))"

fun put_worker_ids :: "bool \<Rightarrow> bytes list \<Rightarrow> (buffer, unit) prog" where
  "put_worker_ids first [] = ret ()"
| "put_worker_ids first (i # ids) =
     thn (if first then put_bytes [CHR 0x22] else put_bytes [CHR '','', CHR 0x22])
    (thn (whenp (i \<noteq> []) (put_escaped i))
    (thn (put_bytes [CHR 0x22]) (put_worker_ids False ids)))"

definition put_queue_details :: "queue_line \<Rightarrow> bytes list \<Rightarrow> (buffer, unit) prog" where
  "put_queue_details ql ids =
     thn (put_text [CHR 0x22])
    (thn (put_bytes (ql_name ql))
    (thn (put_text (CHR 0x22 # '':'' @ CHR 0x7B # quoted ''last_worker'' @ '':''))
    (thn (put_number (ql_last_worker ql))
    (thn (put_text (CHR '','' # quoted ''worker_ids'' @ '':[''))
    (thn (put_worker_ids True ids)
    (thn (put_text (''],'' @ quoted ''workers'' @ '':''))
    (thn (put_number (int (length ids)))
    (thn (put_text (CHR '','' # quoted ''clients'' @ '':''))
    (thn (put_number (int (count_clients ql)))
    (thn (whenp (ql_info ql \<noteq> [])
            (thn (put_text (CHR '','' # quoted ''info'' @ '':'' @ [CHR 0x22]))
            (thn (put_escaped (ql_info ql)) (put_text [CHR 0x22]))))
         (put_text (CHR 0x7D # '','' @ nl))))))))))))"

text \<open>The ids of the waiting workers, loop by loop.\<close>

definition worker_ids :: "queue_line \<Rightarrow> (server, bytes list) prog" where
  "worker_ids ql = (\<lambda>s.
     let ws = concat (map q_workers (ql_queue ql)) in
     if list_all (\<lambda>w. s_conns s w \<noteq> None) ws
     then (Inr (map (\<lambda>w. c_connection_id (the (s_conns s w))) ws), s) else (Inl Fault, s))"

fun all_worker_ids :: "queue_line list \<Rightarrow> (server, (queue_line \<times> bytes list) list) prog" where
  "all_worker_ids [] = ret []"
| "all_worker_ids (ql # qls) = bnd (worker_ids ql) (\<lambda>ids.
     bnd (all_worker_ids qls) (\<lambda>rest. ret ((ql, ids) # rest)))"

definition stat_sum :: "(loop \<Rightarrow> 64 word) \<Rightarrow> server \<Rightarrow> int" where
  "stat_sum f s = sint (sum_list (map f (s_loops s)))"

definition put_info :: "server \<Rightarrow> (buffer, unit) prog" where
  "put_info s =
     thn (put_text (CHR 0x7B # quoted ''$info'' @ '':'' @ [CHR 0x7B]))
    (thn (put_text (quoted ''version'' @ '':'' @ [CHR 0x22]))
    (thn (put_text (s_version s))
    (thn (put_text (CHR 0x22 # '','' @ quoted ''uptime'' @ '':''))
    (thn (put_number (sint (ucast (s_now s) - s_stat_starttime s)))
    (thn (put_text ('','' @ quoted ''connect'' @ '':''))
    (thn (put_number (sint (s_stat_connect s)))
    (thn (put_text ('','' @ quoted ''request'' @ '':''))
    (thn (put_number (stat_sum l_stat_request s))
    (thn (put_text ('','' @ quoted ''call'' @ '':''))
    (thn (put_number (stat_sum l_stat_call s))
    (thn (put_text ('','' @ quoted ''result'' @ '':''))
    (thn (put_number (stat_sum l_stat_result s))
    (thn (put_text ('','' @ quoted ''recv'' @ '':''))
    (thn (put_number (stat_sum l_stat_recv s))
    (thn (put_text ('','' @ quoted ''send'' @ '':''))
    (thn (put_number (stat_sum l_stat_send s))
    (thn (put_text ('','' @ quoted ''io_event'' @ '':''))
    (thn (put_number (stat_sum l_stat_ioevent s))
         (put_text (CHR 0x7D # '','' @ nl))))))))))))))))))))"

definition details :: "server \<Rightarrow> (queue_line \<times> bytes list) list \<Rightarrow> (buffer, unit) prog" where
  "details s qls =
     thn (resize (\<lambda>_. True) 256)
    (thn (put_info s)
    (thn (for_each qls (\<lambda>(ql, ids). put_queue_details ql ids))
    (thn (modify (\<lambda>b. b\<lparr>b_data := take (length (b_data b) - 2) (b_data b)\<rparr>))
         (put_text [CHR 0x7D]))))"

definition send_details :: "nat \<Rightarrow> (server, unit) prog" where
  "send_details c = guard_global (bnd (gets queue_lines) (\<lambda>qls.
     bnd (all_worker_ids qls) (\<lambda>x. bnd (gets (\<lambda>s. details s x empty_buffer)) (\<lambda>out.
     case out of
       (Inl e, _) \<Rightarrow> throw e
     | (Inr _, b) \<Rightarrow> thn (send_status c ''200 OK'') (send_done_body c (b_data b))))))"

end
