(* ===== verification/Http_Conn.thy ===== *)
theory Http_Conn imports Http_Request begin

text \<open>
  src/connect.cpp: reading requests from a connection. \<open>on_recv\<close> takes the bytes of one \<^verbatim>\<open>recv\<close>, splits
  them into lines, sets the fields of the connection from them and calls \<open>header_completed\<close> when a
  request is there; \<open>on_send\<close> sends what is waiting.

  A view is the list of the bytes it had when it was made. Two views outlive that memory: \<^verbatim>\<open>header_option\<close>, a view of
  the packet or the receive buffer, when the request goes on in another packet (\<open>stale_option\<close>), and the unread rest
  that is appended to the buffer it is a part of (\<open>add_rest\<close>). What they read then is an answer of the memory.
\<close>

section \<open>The request line and the headers\<close>

text \<open>\<open>i\<close> is the position of the rest, \<open>start\<close> of the current word, \<open>part\<close> counts the words before it.\<close>

fun method_loop :: "bytes \<Rightarrow> nat \<Rightarrow> nat \<Rightarrow> nat \<Rightarrow> bytes \<Rightarrow> bytes" where
  "method_loop line i start part [] = []"
| "method_loop line i start part (a # s) =
     (if a \<noteq> CHR '' '' then method_loop line (i + 1) start part s
      else if part = 1 then
        (let start = (if i > start + 1 \<and> line ! start = CHR ''/'' then start + 1 else start)
         in take (i - start) (drop start line))
      else method_loop line (i + 1) (i + 1) (part + 1) s)"

definition read_method :: "bytes \<Rightarrow> nat \<Rightarrow> (server, int) prog" where
  "read_method line c = (let path = method_loop line 0 0 0 line in
     thn (upd_c c (\<lambda>r. r\<lparr>c_path := path, c_http_version := (if last line = CHR ''1'' then 11 else 10)\<rparr>))
         (if path = [] then ret (- 1) else ret 0))"

definition type_of_name :: "bytes \<Rightarrow> exn + request_type" where
  "type_of_name name =
     (if equal_lit name ''get'' then Inr Rt_get
      else if equal_lit name ''get+'' then Inr Rt_get_plus
      else if equal_lit name ''worker'' then Inr Rt_worker
      else if equal_lit name ''async'' then Inr Rt_async
      else if equal_lit name ''pub'' then Inr Rt_pub
      else if equal_lit name ''result'' then Inr Rt_result
      else if equal_lit name ''create'' then Inr Rt_create
      else if equal_lit name ''delete'' then Inr Rt_del
      else Inl InvalidData)"

definition set_type :: "bytes \<Rightarrow> nat \<Rightarrow> (server, unit) prog" where
  "set_type name c = bnd (lift_res (type_of_name name)) (\<lambda>t. upd_c c (\<lambda>r. r\<lparr>c_type := t\<rparr>))"

definition read_header :: "bytes \<Rightarrow> nat \<Rightarrow> (server, unit) prog" where
  "read_header data c =
     (if starts_with_lc data ''content-length: '' then
        bnd (lift_res (atoi (slice_remove 16 data))) (\<lambda>n. upd_c c (\<lambda>r. r\<lparr>c_content_length := to_i32 n\<rparr>))
      else if starts_with_lc data ''type: '' then set_type (slice_remove 6 data) c
      else if starts_with_lc data ''x-type: '' then set_type (slice_remove 8 data) c
      else if starts_with_lc data ''name: '' then upd_c c (\<lambda>r. r\<lparr>c_name := slice_remove 6 data\<rparr>)
      else if starts_with_lc data ''id: '' then upd_c c (\<lambda>r. r\<lparr>c_id := slice_remove 4 data\<rparr>)
      else if starts_with_lc data ''option: '' then upd_c c (\<lambda>r. r\<lparr>c_header_option := slice_remove 8 data\<rparr>)
      else if starts_with_lc data ''priority: '' then
        bnd (lift_res (atoi (slice_remove 10 data))) (\<lambda>n. upd_c c (\<lambda>r. r\<lparr>c_priority := to_i32 n\<rparr>))
      else if starts_with_lc data ''worker-id: '' then
        upd_c c (\<lambda>r. r\<lparr>c_required_worker := slice_remove 11 data\<rparr>)
      else if starts_with_lc data ''set-id: '' then
        upd_c c (\<lambda>r. r\<lparr>c_connection_id := slice_remove 8 data\<rparr>)
      else if starts_with_lc data ''timeout: '' then
        bnd (lift_res (atoi (slice_remove 9 data))) (\<lambda>n. bnd (gets s_now) (\<lambda>now.
          upd_c c (\<lambda>r. r\<lparr>c_ping := word_of_int n, c_ping_timeout := now + word_of_int n\<rparr>)))
      else ret ())"

section \<open>A completed request\<close>

record call_vars =
  cv_method :: bytes
  cv_id :: bytes
  cv_params :: bytes

definition call_member :: "bytes \<Rightarrow> bytes \<Rightarrow> (call_vars, unit) prog" where
  "call_member key value = modify (\<lambda>v.
     if key = ''method'' then v\<lparr>cv_method := value\<rparr>
     else if key = ''id'' \<and> cv_id v = [] then v\<lparr>cv_id := value\<rparr>
     else if key = ''params'' then v\<lparr>cv_params := value\<rparr>
     else v)"

text \<open>The requests of a connection in worker mode, and of one that owes a result.\<close>

definition worker_mode_request :: "nat \<Rightarrow> (server, unit) prog" where
  "worker_mode_request c = bnd (get_c c) (\<lambda>r.
     thn (whenp (c_status r \<noteq> Worker_mode_async) (thn (worker_result_noid (c_nloop r) c) (ret ())))
    (if c_header_option r = ''stop'' then
       thn (bnd (get_c c) (\<lambda>r. whenp (c_worker_item r \<noteq> None) (ring_pop c)))
      (thn (upd_c c (\<lambda>r. r\<lparr>c_worker_mode := False\<rparr>))
      (thn (reply c ''200 OK'' 1)
           (upd_c c (\<lambda>r. r\<lparr>c_status := Net\<rparr>))))
     else rpc_add c))"

definition noid_request :: "nat \<Rightarrow> (server, unit) prog" where
  "noid_request c = bnd (get_c c) (\<lambda>r.
     if c_path r \<noteq> ''rpc/result'' \<and> c_type r \<noteq> Rt_result then reply c ''400 Result expected'' (- 1)
     else bnd (worker_result_noid (c_nloop r) c) (\<lambda>x.
       thn (if x = 0 then reply c ''200 OK'' 1
            else if x = - 2 then reply c ''499 Closed'' (- 1) else ret ())
           (upd_c c (\<lambda>r. r\<lparr>c_status := Net\<rparr>))))"

definition typed_request :: "nat \<Rightarrow> (server, unit) prog" where
  "typed_request c =
     thn (upd_c c (\<lambda>r. r\<lparr>c_name := c_path r\<rparr>))
    (bnd (get_c c) (\<lambda>r. case c_type r of
       Rt_async \<Rightarrow>
         thn (upd_c c (\<lambda>r. r\<lparr>c_no_response := True\<rparr>))
        (thn (client_request (c_nloop r) (c_name r) c) (ret ()))
     | Rt_get_plus \<Rightarrow>
         thn (upd_c c (\<lambda>r. r\<lparr>c_noid := True, c_fail_on_disconnect := True\<rparr>)) (rpc_add c)
     | Rt_get \<Rightarrow> rpc_add c
     | Rt_worker \<Rightarrow> thn (upd_c c (\<lambda>r. r\<lparr>c_worker_mode := True\<rparr>)) (rpc_add c)
     | Rt_pub \<Rightarrow> pub c (c_name r)
     | Rt_result \<Rightarrow> rpc_result (if c_id r = [] \<and> c_path r \<noteq> ''/'' then c_path r else c_id r) c
     | Rt_create \<Rightarrow> conn_create_queue (c_path r) c
     | Rt_del \<Rightarrow> conn_delete_queue (c_path r) c
     | Rt_none \<Rightarrow> reply c ''400 Wrong type'' (- 32602)))"

definition call_method :: "bytes \<Rightarrow> bytes \<Rightarrow> nat \<Rightarrow> (server, unit) prog" where
  "call_method method i c =
     (if method = ''rpc/worker'' then thn (upd_c c (\<lambda>r. r\<lparr>c_worker_mode := True\<rparr>)) (rpc_add c)
      else if method = ''rpc/add'' then rpc_add c
      else if method = ''rpc/result'' then rpc_result i c
      else if method = ''rpc/details'' then send_details c
      else if method = ''/'' \<or> method = ''rpc/help'' then send_help c
      else bnd (get_c c) (\<lambda>r.
        thn (upd_c c (\<lambda>r. r\<lparr>c_no_response := (c_header_option r = ''async'')\<rparr>))
       (thn (client_request (c_nloop r) method c) (ret ()))))"

text \<open>\<^verbatim>\<open>rpc/call\<close> takes the method, the id and the parameters out of the body. The local \<^verbatim>\<open>id\<close> and the member
  \<^verbatim>\<open>id\<close> are equal before the loop and are set together.\<close>

definition rpc_call :: "nat \<Rightarrow> (server, unit) prog" where
  "rpc_call c = bnd (get_c c) (\<lambda>r.
     case json_each call_member \<lparr>cv_method = [], cv_id = c_id r, cv_params = []\<rparr> (c_json r) of
     (x, v, j) \<Rightarrow>
       thn (upd_c c (\<lambda>r. r\<lparr>c_json := j, c_id := cv_id v\<rparr>))
      (thn (lift_res x)
      (thn (whenp (cv_params v \<noteq> []) (upd_c c (\<lambda>r. r\<lparr>c_json := json_load (cv_params v) 1\<rparr>)))
      (let method = (if cv_method v \<noteq> [] \<and> hd (cv_method v) = CHR ''/'' then slice_remove 1 (cv_method v)
                     else cv_method v) in
       if method = [] then reply c ''400 No method'' (- 32601)
       else call_method method (cv_id v) c))))"

definition header_completed :: "nat \<Rightarrow> (server, unit) prog" where
  "header_completed c = bnd (get_c c) (\<lambda>r.
     thn (upd_loop (c_nloop r) (\<lambda>l. l\<lparr>l_stat_request := l_stat_request l + 1\<rparr>))
    (thn (upd_c c (\<lambda>r. r\<lparr>c_keep_alive := (c_http_version r = 11)\<rparr>))
    (if c_path r = ''echo'' then thn (send_status c ''200 OK'') (send_done_body c ''ok'')
     else if c_worker_mode r then worker_mode_request c
     else if c_noid r then noid_request c
     else
       thn (upd_c c (\<lambda>r. r\<lparr>c_json := json_load (c_body r) 0\<rparr>))
      (if c_type r \<noteq> Rt_none then typed_request c
       else if c_path r = ''rpc/call'' then rpc_call c
       else call_method (c_path r) (c_id r) c))))"

text \<open>\<^verbatim>\<open>try { header_completed } catch(InvalidData)\<close>\<close>

definition invalid_reply :: "nat \<Rightarrow> (server, unit) prog" where
  "invalid_reply c = reply c ''400 Invalid data'' (- 32700)"

definition complete :: "nat \<Rightarrow> (server, unit) prog" where
  "complete c = catch_invalid (header_completed c) (invalid_reply c)"

section \<open>Receiving\<close>

definition set_step :: "nat \<Rightarrow> http_step \<Rightarrow> (server, unit) prog" where
  "set_step c st = upd_c c (\<lambda>r. r\<lparr>c_http_step := st\<rparr>)"

text \<open>The fields a new request starts from.\<close>

definition reset_request :: "connect \<Rightarrow> connect" where
  "reset_request r = r\<lparr>c_body := [], c_id := [], c_header_option := [], c_info := [],
     c_json := json_load [] (j_level (c_json r)), c_name := (if c_worker_mode r then c_name r else []),
     c_content_length := 0, c_priority := 0, c_required_worker := [], c_no_response := False,
     c_type := Rt_none\<rparr>"

definition start_request :: "nat \<Rightarrow> (server, unit) prog" where
  "start_request c =
     thn (upd_c c reset_request)
    (bnd (get_c c) (\<lambda>r.
     if c_status r \<noteq> Worker_wait_result then
       (if c_worker_mode r
        then whenp (c_status r \<noteq> Worker_mode_async) (throw (Thrown ''Wrong status for worker''))
        else
          thn (upd_c c (\<lambda>r. r\<lparr>c_fail_on_disconnect := False\<rparr>))
         (thn (case c_client r of None \<Rightarrow> ret () | Some d \<Rightarrow> conn_unlink d)
              (upd_c c (\<lambda>r. r\<lparr>c_client := None, c_noid := False\<rparr>))))
     else whenp (\<not> c_noid r) (throw (Thrown ''noid is false''))))"

text \<open>An empty line ends the headers: the part of the body that is there is taken. Gives the data after it
  and whether the request is complete.\<close>

definition take_body :: "nat \<Rightarrow> bytes \<Rightarrow> (server, bytes) prog" where
  "take_body c data = bnd (get_c c) (\<lambda>r.
     if c_http_step r \<noteq> Http_header then throw InvalidData
     else
       thn (set_step c Http_request_completed)
      (if c_content_length r = 0 then ret data
       else (let n = (if c_content_length r > int (length data) then int (length data) else c_content_length r) in
         case slice_pop n data of
           (Inl e, _) \<Rightarrow> throw e
         | (Inr body, data) \<Rightarrow>
             thn (upd_c c (\<lambda>r. r\<lparr>c_body := body\<rparr>))
            (thn (whenp (int (length body) < c_content_length r) (set_step c Http_read_body))
             (ret data)))))"

text \<open>After the body: \<open>True\<close> when the next request in the data is to be read.\<close>

definition finish_request :: "nat \<Rightarrow> bytes \<Rightarrow> (server, bool) prog" where
  "finish_request c data =
     thn (upd_c c (\<lambda>r. r\<lparr>c_buffer := []\<rparr>))
    (bnd (get_c c) (\<lambda>r.
     if c_http_step r \<noteq> Http_request_completed then ret False
     else
       thn (complete c)
      (if data = [] then ret False
       else bnd (get_c c) (\<lambda>r.
         if c_status r = Net then thn (set_step c Http_start) (ret True)
         else throw (Thrown ''previous request is not finished'')))))"

text \<open>A line of the request line or the headers. \<open>False\<close> when the connection is closed for it.\<close>

definition read_line :: "nat \<Rightarrow> bytes \<Rightarrow> (server, bool) prog" where
  "read_line c line = bnd (get_c c) (\<lambda>r.
     if c_http_step r = Http_start then
       thn (start_request c)
      (bnd (read_method line c) (\<lambda>x.
       if x \<noteq> 0 then thn (conn_close c) (ret False)
       else thn (set_step c Http_header) (ret True)))
     else if c_http_step r = Http_header then
       thn (catch_invalid (read_header line c) (invalid_reply c)) (ret True)
     else ret True)"

text \<open>How the loop over the lines ends: the connection was closed, or with what was not consumed; \<open>Endless\<close> is a loop
  that has not ended in the turns it was given.\<close>

datatype lines_end = Closed | Rest bytes | Endless

fun recv_lines :: "nat \<Rightarrow> nat \<Rightarrow> bytes \<Rightarrow> (server, lines_end) prog" where
  "recv_lines 0 c data = ret Endless"
| "recv_lines (Suc fuel) c data = (case pop_line data of
     None \<Rightarrow> ret (Rest data)
   | Some (line, data) \<Rightarrow>
       (let line = rstrip line in
        if line = [] then
          bnd (take_body c data) (\<lambda>data.
          bnd (finish_request c data) (\<lambda>again.
          if again then recv_lines fuel c data else ret (Rest data)))
        else bnd (read_line c line) (\<lambda>go. if go then recv_lines fuel c data else ret Closed)))"

text \<open>When the receive buffer is not empty, what is left is a part of it and is added to the buffer it lies in; if the
  block has to be moved for that, it is given back before the bytes are read.\<close>

definition add_rest :: "nat \<Rightarrow> bytes \<Rightarrow> (server, unit) prog" where
  "add_rest c data = bnd (get_c c) (\<lambda>r.
     bnd (if c_buffer r = [] \<or> data = [] then ret True else next_room) (\<lambda>room.
     if room then upd_c c (\<lambda>r. r\<lparr>c_buffer := c_buffer r @ data\<rparr>) else throw Fault))"

definition recv_end :: "nat \<Rightarrow> bytes \<Rightarrow> (server, unit) prog" where
  "recv_end c data = bnd (get_c c) (\<lambda>r. case c_http_step r of
     Http_request_completed \<Rightarrow> set_step c Http_start
   | Http_read_body \<Rightarrow> ret ()
   | _ \<Rightarrow> add_rest c data)"

text \<open>A loop that does not end would be \<open>Deadlock\<close>; the number of bytes bounds its turns.\<close>

definition recv_requests :: "nat \<Rightarrow> bytes \<Rightarrow> (server, unit) prog" where
  "recv_requests c data = bnd (recv_lines (length data + 1) c data) (\<lambda>rest. case rest of
     Closed \<Rightarrow> ret ()
   | Rest data \<Rightarrow> recv_end c data
   | Endless \<Rightarrow> throw Deadlock)"

definition conn_ready :: "connect \<Rightarrow> bool" where
  "conn_ready r = (c_status r = Net \<or> (c_status r = Worker_wait_result \<and> c_noid r) \<or>
     (c_status r = Worker_mode_async \<and> c_worker_mode r))"

text \<open>The rest of a body that did not come with its headers.\<close>

definition recv_body :: "nat \<Rightarrow> bytes \<Rightarrow> (server, unit) prog" where
  "recv_body c data = bnd (get_c c) (\<lambda>r.
     let n = c_content_length r - int (length (c_body r)) in
     if n > int (length data)
     then upd_c c (\<lambda>r. r\<lparr>c_body := c_body r @ data, c_buffer := []\<rparr>)
     else (case slice_pop n data of
         (Inl e, _) \<Rightarrow> throw e
       | (Inr x, data) \<Rightarrow>
           thn (upd_c c (\<lambda>r. r\<lparr>c_body := c_body r @ x\<rparr>))
          (thn (bnd (get_c c) (\<lambda>r. whenp (int (length (c_body r)) = c_content_length r)
                 (thn (complete c) (set_step c Http_start))))
          (if data = [] then ret () else recv_requests c data))))"

text \<open>\<^verbatim>\<open>header_option\<close> is a view of the packet, or of the receive buffer, it was read from. When the request is not
  complete with that packet, the next one is written over it before the option is looked at.\<close>

definition stale_option :: "nat \<Rightarrow> (server, unit) prog" where
  "stale_option c = bnd (get_c c) (\<lambda>r.
     whenp (c_http_step r \<in> {Http_header, Http_read_body} \<and> c_header_option r \<noteq> [])
       (bnd next_stale (\<lambda>x. upd_c c (\<lambda>r. r\<lparr>c_header_option := x\<rparr>))))"

definition on_recv :: "nat \<Rightarrow> bytes \<Rightarrow> (server, unit) prog" where
  "on_recv c buf = bnd (get_c c) (\<lambda>r0. bnd (gets s_now) (\<lambda>now.
     thn (stale_option c)
    (thn (whenp (c_ping r0 \<noteq> 0) (upd_c c (\<lambda>r. r\<lparr>c_ping_timeout := now + c_ping r\<rparr>)))
    (if \<not> conn_ready r0 then upd_c c (\<lambda>r. r\<lparr>c_buffer := c_buffer r @ buf\<rparr>)
     else
       thn (whenp (c_buffer r0 \<noteq> []) (upd_c c (\<lambda>r. r\<lparr>c_buffer := c_buffer r @ buf\<rparr>)))
      (let data = c_buffer r0 @ buf in
       if c_http_step r0 = Http_read_body then recv_body c data else recv_requests c data)))))"

section \<open>Sending\<close>

text \<open>\<open>sent\<close> is what \<^verbatim>\<open>send\<close> returns for the bytes it is given; it takes that many of them, from the first one on.\<close>

definition raw_send :: "nat \<Rightarrow> bytes \<Rightarrow> int \<Rightarrow> (server, unit) prog" where
  "raw_send c buf sent =
     thn (upd_c c (\<lambda>r. r\<lparr>c_wire := c_wire r @ take (nat sent) buf\<rparr>))
    (bnd (get_c c) (\<lambda>r.
     whenp (sent > 0) (upd_loop (c_nloop r) (\<lambda>l. l\<lparr>l_stat_send := l_stat_send l + word_of_int sent\<rparr>))))"

definition send_direct :: "nat \<Rightarrow> int \<Rightarrow> nat \<Rightarrow> (server, unit) prog" where
  "send_direct c sent d = with_gc
     (thn (gc_add (Gc_direct d))
     (bnd (gets (\<lambda>s. s_dms s d)) (\<lambda>x. case x of
        None \<Rightarrow> throw Fault
      | Some x \<Rightarrow>
          thn (raw_send c (dm_data x) sent)
         (if sent < 0 then throw (Thrown ''Not implemented: sent < 0'')
          else whenp (sent \<noteq> int (length (dm_data x))) (add_send c (drop (nat sent) (dm_data x)))))))"

definition on_send :: "nat \<Rightarrow> int \<Rightarrow> (server, unit) prog" where
  "on_send c sent = bnd (get_c c) (\<lambda>r.
     thn (if c_send_buffer r \<noteq> [] then
            thn (raw_send c (c_send_buffer r) sent)
           (if sent < 0 then throw (Thrown ''Not implemented: sent < 0'')
            else upd_c c (\<lambda>r. r\<lparr>c_send_buffer := drop (nat sent) (c_send_buffer r)\<rparr>))
          else (case c_direct_message r of
              [] \<Rightarrow> ret ()
            | d # ds \<Rightarrow>
                thn (upd_c c (\<lambda>r. r\<lparr>c_direct_message := ds\<rparr>)) (send_direct c sent d)))
    (bnd (get_c c) (\<lambda>r.
     whenp (c_send_buffer r = [])
       (if c_keep_alive r then write_mode False c else conn_close c))))"

end
