(* ===== verification/Loop_Locks.thy ===== *)
theory Loop_Locks imports Broker_State begin

text \<open>
  The locks over the loops, classes \<^verbatim>\<open>Lock\<close> of src/utils.cpp and \<^verbatim>\<open>Server::autolock\<close>: a loop that moves
  connections holds the \<^verbatim>\<open>del_lock\<close> of every other loop, so that none of them deletes a connection meanwhile.
  The object remembers the locks it holds in a mask of 64 bits, whose bit for loop \<open>n\<close> is computed in 32 bits.
\<close>

text \<open>\<^verbatim>\<open>u64 v = 1 << n;\<close>, an \<^verbatim>\<open>int\<close> shifted and then extended with its sign. A shift by 32 or more is
  undefined in C++.\<close>

definition one_shl :: "nat \<Rightarrow> 64 word" where
  "one_shl n = scast (push_bit n (1 :: 32 word))"

definition lock_loop :: "nat \<Rightarrow> 64 word \<Rightarrow> (server, 64 word) prog" where
  "lock_loop n held =
     (if 32 \<le> n then throw Fault
      else (let v = one_shl n in
        if and held v \<noteq> 0 then ret held
        else bnd (get_loop n) (\<lambda>l.
          if l_del_locked l then throw Deadlock
          else thn (upd_loop n (\<lambda>l. l\<lparr>l_del_locked := True\<rparr>)) (ret (or held v)))))"

fun lock_loops :: "nat option \<Rightarrow> nat list \<Rightarrow> 64 word \<Rightarrow> (server, 64 word) prog" where
  "lock_loops except [] held = ret held"
| "lock_loops except (i # ns) held =
     (if except = Some i then lock_loops except ns held
      else bnd (lock_loop i held) (lock_loops except ns))"

text \<open>\<open>except\<close> is \<open>None\<close> for the default argument -1.\<close>

definition autolock :: "nat option \<Rightarrow> (server, 64 word) prog" where
  "autolock except = bnd (gets s_threads) (\<lambda>threads. lock_loops except [0..<threads] 0)"

text \<open>\<^verbatim>\<open>Lock::unlock\<close>, called by the destructor; \<open>v\<close> is shifted in 64 bits here.\<close>

fun unlock_loops :: "nat list \<Rightarrow> 64 word \<Rightarrow> 64 word \<Rightarrow> (server, unit) prog" where
  "unlock_loops [] v held = ret ()"
| "unlock_loops (i # ns) v held =
     thn (whenp (and v held \<noteq> 0) (upd_loop i (\<lambda>l. l\<lparr>l_del_locked := False\<rparr>)))
         (unlock_loops ns (push_bit 1 v) held)"

definition unlock :: "64 word \<Rightarrow> (server, unit) prog" where
  "unlock held = bnd (gets s_threads) (\<lambda>threads. unlock_loops [0..<threads] 1 held)"

text \<open>A scope with \<^verbatim>\<open>Lock lock = server->autolock(except);\<close>\<close>

definition with_locks :: "nat \<Rightarrow> (server, 'a) prog \<Rightarrow> (server, 'a) prog" where
  "with_locks except m = bnd (autolock (Some except)) (\<lambda>held s.
     case m s of (r, s') \<Rightarrow> (r, snd (unlock held s')))"

section \<open>The bits of the mask\<close>

lemma bit_one_shl:
  assumes "n < 32"
  shows "bit (one_shl n) i \<longleftrightarrow> i < 64 \<and> (i = n \<or> n = 31 \<and> 31 \<le> i)"
proof -
  have b: "bit (push_bit n (1 :: 32 word)) m \<longleftrightarrow> m = n" for m
    using assms by (auto simp: bit_push_bit_iff bit_1_iff simp del: push_bit_of_1)
  show ?thesis using assms unfolding one_shl_def bit_word_scast_iff b by auto
qed

definition holds :: "nat set \<Rightarrow> 64 word \<Rightarrow> bool" where
  "holds A held = ((\<forall>i < 32. bit held i = (i \<in> A)) \<and> (31 \<notin> A \<longrightarrow> (\<forall>i \<ge> 31. \<not> bit held i)))"

lemma and_one_shl:
  assumes "n < 32" and "holds A held"
  shows "and held (one_shl n) = 0 \<longleftrightarrow> n \<notin> A"
proof -
  have "and held (one_shl n) = 0 \<longleftrightarrow> (\<forall>i < 64. \<not> (bit held i \<and> bit (one_shl n) i))"
    by (simp add: bit_eq_iff bit_and_iff)
  also have "\<dots> \<longleftrightarrow> n \<notin> A"
  proof
    assume all: "\<forall>i < 64. \<not> (bit held i \<and> bit (one_shl n) i)"
    have "n < 64" using assms(1) by simp
    with all have "\<not> (bit held n \<and> bit (one_shl n) n)" by blast
    with assms show "n \<notin> A" by (simp add: bit_one_shl holds_def)
  next
    assume n: "n \<notin> A"
    show "\<forall>i < 64. \<not> (bit held i \<and> bit (one_shl n) i)"
    proof (cases "n = 31")
      case True
      with n assms(2) have "\<not> bit held i" if "31 \<le> i" for i using that by (simp add: holds_def)
      with True show ?thesis by (auto simp: bit_one_shl)
    next
      case False
      from n assms have "\<not> bit held n" by (simp add: holds_def)
      with False assms(1) show ?thesis by (auto simp: bit_one_shl)
    qed
  qed
  finally show ?thesis .
qed

lemma holds_or: "n < 32 \<Longrightarrow> holds A held \<Longrightarrow> holds (insert n A) (or held (one_shl n))"
  by (auto simp: holds_def bit_or_iff bit_one_shl)

section \<open>The locks taken and freed\<close>

definition mark :: "bool \<Rightarrow> nat set \<Rightarrow> loop list \<Rightarrow> loop list" where
  "mark b A ls = map (\<lambda>i. if i \<in> A then (ls ! i)\<lparr>l_del_locked := b\<rparr> else ls ! i) [0..<length ls]"

lemma length_mark [simp]: "length (mark b A ls) = length ls"
  by (simp add: mark_def)

lemma nth_mark [simp]:
  "i < length ls \<Longrightarrow> mark b A ls ! i = (if i \<in> A then (ls ! i)\<lparr>l_del_locked := b\<rparr> else ls ! i)"
  by (simp add: mark_def)

lemma mark_empty [simp]: "mark b {} ls = ls"
  by (simp add: mark_def map_nth)

lemma mark_insert:
  "n < length ls \<Longrightarrow> n \<notin> A \<Longrightarrow> (mark b A ls)[n := (mark b A ls ! n)\<lparr>l_del_locked := b\<rparr>] = mark b (insert n A) ls"
  by (rule nth_equalityI) (auto simp: nth_list_update)

lemma mark_back:
  assumes "\<forall>l \<in> set ls. \<not> l_del_locked l"
  shows "mark False A (mark True A ls) = ls"
proof (rule nth_equalityI)
  fix i assume i: "i < length (mark False A (mark True A ls))"
  with assms have "\<not> l_del_locked (ls ! i)" by simp
  then have "(ls ! i)\<lparr>l_del_locked := False\<rparr> = ls ! i" by (cases "ls ! i") simp
  with i show "mark False A (mark True A ls) ! i = ls ! i" by simp
qed simp

lemma lock_loop_run:
  assumes "n < 32" "holds A held" "n \<notin> A" "n < length (s_loops s)" "\<not> l_del_locked (s_loops s ! n)"
  shows "lock_loop n held s = (Inr (or held (one_shl n)),
    s\<lparr>s_loops := (s_loops s)[n := (s_loops s ! n)\<lparr>l_del_locked := True\<rparr>]\<rparr>)"
  using assms and_one_shl [OF assms(1,2)]
  by (simp add: lock_loop_def Let_def bnd_run thn_run get_loop_def upd_loop_def)

lemma lock_loops_run:
  assumes "distinct ns" and "\<forall>n \<in> set ns. n < 32 \<and> n < length ls \<and> n \<notin> A" and "\<forall>l \<in> set ls. \<not> l_del_locked l"
    and "holds A held" and "s_loops s = mark True A ls"
  shows "\<exists>held'. lock_loops except ns held s =
      (Inr held', s\<lparr>s_loops := mark True (A \<union> {n \<in> set ns. except \<noteq> Some n}) ls\<rparr>) \<and>
    holds (A \<union> {n \<in> set ns. except \<noteq> Some n}) held'"
  using assms
proof (induction ns arbitrary: A held s)
  case Nil
  then show ?case by (auto simp flip: Nil.prems(5))
next
  case (Cons n ns)
  show ?case
  proof (cases "except = Some n")
    case True
    then have "{m \<in> set (n # ns). except \<noteq> Some m} = {m \<in> set ns. except \<noteq> Some m}" by auto
    with Cons.IH [of A held s] Cons.prems True show ?thesis by simp
  next
    case False
    have eq: "insert n A \<union> {m \<in> set ns. except \<noteq> Some m} = A \<union> {m \<in> set (n # ns). except \<noteq> Some m}"
      using False by auto
    from Cons.prems have n: "n < 32" "n < length ls" "n \<notin> A" "\<not> l_del_locked (ls ! n)" by auto
    let ?s = "s\<lparr>s_loops := mark True (insert n A) ls\<rparr>"
    have "lock_loop n held s = (Inr (or held (one_shl n)), ?s)"
      using lock_loop_run [OF n(1) Cons.prems(4) n(3), of s] n mark_insert [OF n(2,3), of True]
      by (simp add: Cons.prems(5))
    moreover have "\<exists>held'. lock_loops except ns (or held (one_shl n)) ?s =
      (Inr held', ?s\<lparr>s_loops := mark True (insert n A \<union> {n \<in> set ns. except \<noteq> Some n}) ls\<rparr>) \<and>
      holds (insert n A \<union> {n \<in> set ns. except \<noteq> Some n}) held'"
      by (rule Cons.IH) (use Cons.prems holds_or [OF n(1) Cons.prems(4)] in auto)
    ultimately show ?thesis using False unfolding eq by (auto simp: bnd_run)
  qed
qed

lemma unlock_loops_run:
  assumes "k \<le> length ls" and "k \<le> 32" and "holds A held" and "s_loops s = mark False (A \<inter> {..<i}) ls" and "i \<le> k"
  shows "unlock_loops [i..<k] (push_bit i 1) held s = (Inr (), s\<lparr>s_loops := mark False (A \<inter> {..<k}) ls\<rparr>)"
  using assms(4,5)
proof (induction "k - i" arbitrary: i s)
  case 0
  then show ?case by (simp flip: 0(2))
next
  case (Suc d)
  then have i: "i < k" by simp
  have b: "and (push_bit i 1) held \<noteq> 0 \<longleftrightarrow> i \<in> A"
    using and_exp_eq_0_iff_not_bit [of held i] assms(2,3) i
    by (simp add: holds_def and.commute push_bit_eq_mult)
  let ?s = "s\<lparr>s_loops := mark False (A \<inter> {..<Suc i}) ls\<rparr>"
  have "whenp (and (push_bit i 1) held \<noteq> 0) (upd_loop i (\<lambda>l. l\<lparr>l_del_locked := False\<rparr>)) s = (Inr (), ?s)"
  proof (cases "i \<in> A")
    case True
    then have "A \<inter> {..<Suc i} = insert i (A \<inter> {..<i})" by auto
    with True b mark_insert [of i ls "A \<inter> {..<i}" False] i assms(1) Suc.prems(1) show ?thesis
      by (simp add: whenp_def upd_loop_def)
  next
    case False
    then have "A \<inter> {..<Suc i} = A \<inter> {..<i}" by (auto simp: less_Suc_eq)
    with False b Suc.prems(1) show ?thesis by (simp add: whenp_def flip: Suc.prems(1))
  qed
  moreover have "unlock_loops [Suc i..<k] (push_bit (Suc i) 1) held ?s =
      (Inr (), ?s\<lparr>s_loops := mark False (A \<inter> {..<k}) ls\<rparr>)"
    by (rule Suc.hyps(1)) (use Suc.hyps(2) i in simp_all)
  ultimately show ?case
    using i by (simp add: upt_conv_Cons thn_run mult.commute)
qed

lemma autolock_run:
  assumes "s_threads s \<le> 32" "length (s_loops s) = s_threads s" "\<forall>l \<in> set (s_loops s). \<not> l_del_locked l"
  shows "\<exists>held. autolock except s = (Inr held, s\<lparr>s_loops := mark True {n. n < s_threads s \<and> except \<noteq> Some n} (s_loops s)\<rparr>) \<and>
    holds {n. n < s_threads s \<and> except \<noteq> Some n} held"
proof -
  have eq: "{} \<union> {n \<in> set [0..<s_threads s]. except \<noteq> Some n} = {n. n < s_threads s \<and> except \<noteq> Some n}" by auto
  have "holds {} 0" by (simp add: holds_def)
  from lock_loops_run [of "[0..<s_threads s]" "s_loops s" "{}", OF _ _ _ this, of s except] assms show ?thesis
    unfolding eq by (simp add: autolock_def)
qed

lemma unlock_run:
  assumes "s_threads s \<le> 32" "length (s_loops s) = s_threads s" "\<forall>l \<in> set ls. \<not> l_del_locked l"
    and "holds A held" "A \<subseteq> {..<s_threads s}" "s_loops s = mark True A ls"
  shows "unlock held s = (Inr (), s\<lparr>s_loops := ls\<rparr>)"
proof -
  have "A \<inter> {..<s_threads s} = A" using assms(5) by auto
  then show ?thesis
    using unlock_loops_run [of "s_threads s" "s_loops s" A held s 0] assms mark_back [OF assms(3), of A]
    by (simp add: unlock_def)
qed

end
