(* ===== verification/Balance.thy ===== *)
theory Balance imports Prelude begin

text \<open>
  The choice of the loop that gets new connections, from \<^verbatim>\<open>Service::_start\<close> of src/service.cpp: every half second
  the processor time of each loop is compared with the time passed.
\<close>

text \<open>\<^verbatim>\<open>cpu[i] = (usage - used[i]) * 100 / frame;\<close> in 64 bits, assigned to an \<^verbatim>\<open>int\<close>. The division fails when
  no time has passed.\<close>

definition cpu_load :: "64 word \<Rightarrow> 64 word \<Rightarrow> 64 word \<Rightarrow> exn + int" where
  "cpu_load frame usage used =
     (if frame = 0 then Inl Fault else Inr (to_i32 (uint ((usage - used) * 100 div frame))))"

fun cpu_loads :: "64 word \<Rightarrow> (64 word \<times> 64 word) list \<Rightarrow> exn + int list" where
  "cpu_loads frame [] = Inr []"
| "cpu_loads frame ((usage, used) # us) = (case cpu_load frame usage used of
     Inl e \<Rightarrow> Inl e
   | Inr x \<Rightarrow> (case cpu_loads frame us of Inl e \<Rightarrow> Inl e | Inr xs \<Rightarrow> Inr (x # xs)))"

text \<open>The loop over the loads: the least so far, and the first that is not above 80.\<close>

function balance_loop :: "int list \<Rightarrow> nat \<Rightarrow> nat \<Rightarrow> nat \<times> nat option" where
  "balance_loop cpu i least =
     (if length cpu \<le> i then (least, None)
      else (let least = (if cpu ! i < cpu ! least then i else least) in
        if cpu ! i > 80 then balance_loop cpu (i + 1) least else (least, Some i)))"
  by pat_completeness auto
termination
  by (relation "measure (\<lambda>(cpu, i, least). length cpu - i)") auto

declare balance_loop.simps [simp del]

definition choose_loop :: "int list \<Rightarrow> nat" where
  "choose_loop cpu = (case balance_loop cpu 0 0 of (least, None) \<Rightarrow> least | (least, Some i) \<Rightarrow> i)"

text \<open>\<open>m\<close> is the first place of the least of the first \<open>i\<close> loads.\<close>

definition least_of :: "int list \<Rightarrow> nat \<Rightarrow> nat \<Rightarrow> bool" where
  "least_of cpu i m = (m < length cpu \<and> (\<forall>j < i. cpu ! m \<le> cpu ! j) \<and> (\<forall>j < m. cpu ! m < cpu ! j))"

lemma balance_loop_spec:
  assumes "least_of cpu i m" and "\<forall>j < i. 80 < cpu ! j" and "i \<le> length cpu" and "m \<le> i"
  shows "case balance_loop cpu i m of
      (m', None) \<Rightarrow> least_of cpu (length cpu) m' \<and> (\<forall>j < length cpu. 80 < cpu ! j)
    | (m', Some k) \<Rightarrow> k < length cpu \<and> cpu ! k \<le> 80 \<and> (\<forall>j < k. 80 < cpu ! j)"
  using assms
proof (induction cpu i m rule: balance_loop.induct)
  case (1 cpu i m)
  show ?case
  proof (cases "length cpu \<le> i")
    case True
    then show ?thesis using "1.prems" by (subst balance_loop.simps) simp
  next
    case False
    let ?m = "if cpu ! i < cpu ! m then i else m"
    show ?thesis
    proof (cases "cpu ! i > 80")
      case True
      have "least_of cpu (i + 1) ?m"
        using "1.prems"(1,4) False by (fastforce simp: least_of_def less_Suc_eq)
      then have "case balance_loop cpu (i + 1) ?m of
          (m', None) \<Rightarrow> least_of cpu (length cpu) m' \<and> (\<forall>j < length cpu. 80 < cpu ! j)
        | (m', Some k) \<Rightarrow> k < length cpu \<and> cpu ! k \<le> 80 \<and> (\<forall>j < k. 80 < cpu ! j)"
        using "1.IH" [OF False refl True] "1.prems" False True by (auto simp: less_Suc_eq)
      moreover have "balance_loop cpu i m = balance_loop cpu (i + 1) ?m"
        using False True by (subst balance_loop.simps) simp
      ultimately show ?thesis by simp
    next
      case high: False
      then have "balance_loop cpu i m = (?m, Some i)"
        using False by (subst balance_loop.simps) simp
      then show ?thesis using high False "1.prems"(2) by simp
    qed
  qed
qed

lemma first_index:
  assumes "i < length xs" and "\<not> P (xs ! i)" and "\<forall>j < i. P (xs ! j)"
  shows "length (takeWhile P xs) = i"
proof -
  have "takeWhile P xs = take i xs"
    using assms by (intro takeWhile_eq_take_P_nth) auto
  then show ?thesis using assms(1) by simp
qed

lemma choose_loop_spec:
  assumes "cpu \<noteq> []"
  shows "choose_loop cpu = (if \<exists>x \<in> set cpu. x \<le> 80 then length (takeWhile (\<lambda>x. 80 < x) cpu)
      else length (takeWhile (\<lambda>x. x \<noteq> Min (set cpu)) cpu)) \<and> choose_loop cpu < length cpu"
proof -
  have "least_of cpu 0 0" using assms by (simp add: least_of_def)
  from balance_loop_spec [OF this] have spec: "case balance_loop cpu 0 0 of
      (m', None) \<Rightarrow> least_of cpu (length cpu) m' \<and> (\<forall>j < length cpu. 80 < cpu ! j)
    | (m', Some k) \<Rightarrow> k < length cpu \<and> cpu ! k \<le> 80 \<and> (\<forall>j < k. 80 < cpu ! j)" by simp
  obtain m x where b: "balance_loop cpu 0 0 = (m, x)" by fastforce
  show ?thesis
  proof (cases x)
    case (Some k)
    with spec b have k: "k < length cpu" "cpu ! k \<le> 80" "\<forall>j < k. 80 < cpu ! j" by auto
    moreover from k have "\<exists>x \<in> set cpu. x \<le> 80" by (metis nth_mem)
    moreover have "length (takeWhile (\<lambda>x. 80 < x) cpu) = k" using k by (intro first_index) auto
    ultimately show ?thesis using b Some by (simp add: choose_loop_def)
  next
    case None
    with spec b have m: "least_of cpu (length cpu) m" "\<forall>j < length cpu. 80 < cpu ! j" by auto
    then have none: "\<not> (\<exists>x \<in> set cpu. x \<le> 80)" by (fastforce simp: in_set_conv_nth)
    have min: "Min (set cpu) = cpu ! m"
      using m(1) by (intro Min_eqI) (auto simp: least_of_def in_set_conv_nth)
    have "length (takeWhile (\<lambda>x. x \<noteq> Min (set cpu)) cpu) = m"
      unfolding min using m(1) by (intro first_index) (fastforce simp: least_of_def)+
    with m none b None show ?thesis by (simp add: choose_loop_def least_of_def)
  qed
qed

lemma cpu_loads_length: "cpu_loads frame us = Inr cpu \<Longrightarrow> length cpu = length us"
  by (induction us arbitrary: cpu) (auto split: sum.splits)

text \<open>
  New connections go to the first loop whose load is at most 80 percent, and when all are above,
  to the first of the least loaded: the loop with its early exit and running minimum computes exactly this
  choice, which is always the number of a loop.
\<close>

theorem choose_loop_correct:
  assumes "cpu \<noteq> []"
  shows "choose_loop cpu = (if \<exists>x \<in> set cpu. x \<le> 80 then length (takeWhile (\<lambda>x. 80 < x) cpu)
      else length (takeWhile (\<lambda>x. x \<noteq> Min (set cpu)) cpu)) \<and> choose_loop cpu < length cpu"
  using assms by (rule choose_loop_spec)

theorem choose_loop_correct_witness:
  "choose_loop [95, 90, 99] = 1 \<and> choose_loop [95, 40, 10] = 1"
  using choose_loop_correct [of "[95, 90, 99]"] choose_loop_correct [of "[95, 40, 10]"] by simp

end
