(* ===== verification/Event_Loop.thy ===== *)
theory Event_Loop imports Http_Conn NetFilters Loop_Locks Balance begin

text \<open>
  The event loops of src/server.cpp with the periodic jobs of the loops and of src/service.cpp, and the
  program as a step relation: every step is one handler run by a loop, the acceptor or the service.

  What the kernel reports is an argument of the step: the events of a descriptor, the bytes received,
  the number of bytes sent.
\<close>

section \<open>Accepting\<close>

text \<open>The members without an initialiser have whatever value the memory had, \<open>junk\<close>.\<close>

record junk =
  jk_keep_alive :: bool
  jk_fail :: bool
  jk_noid :: bool
  jk_length :: int
  jk_version :: int

definition new_connect :: "junk \<Rightarrow> nat \<Rightarrow> connect" where
  "new_connect jk fd =
     \<lparr>c_socket_status = 1, c_socket_active = 1, c_link = 0, c_fd = fd, c_keep_alive = jk_keep_alive jk,
      c_send_buffer = [], c_wire = [], c_nloop = 0, c_need_loop = 0, c_go_loop = False, c_http_step = Http_start,
      c_content_length = jk_length jk, c_http_version = jk_version jk, c_buffer = [], c_path = [],
      c_header_option = [], c_name = [], c_type = Rt_none, c_status = Net, c_body = [], c_id = [],
      c_fail_on_disconnect = jk_fail jk, c_noid = jk_noid jk, c_no_response = False, c_worker_mode = False,
      c_priority = 0, c_ping = 0, c_ping_timeout = 0, c_connection_id = [], c_required_worker = [],
      c_client = None, c_json = json_load [] 0, c_info = [], c_worker_item = None, c_worker_sub_name = [],
      c_direct_message = []\<rparr>"

definition loop_accept :: "nat \<Rightarrow> nat \<Rightarrow> (server, unit) prog" where
  "loop_accept n c =
     thn (upd_c c (\<lambda>r. r\<lparr>c_nloop := n, c_need_loop := n\<rparr>))
    (bnd (get_c c) (\<lambda>r.
     if c_socket_status r = - 1 then throw (Thrown ''accept: connection is closed'')
     else bnd (get_loop n) (\<lambda>l.
       if l_poll l (c_fd r) \<noteq> None then throw (Thrown ''epoll_ctl EPOLL_CTL_ADD'')
       else upd_loop n (\<lambda>l. l\<lparr>l_poll := (l_poll l)(c_fd r \<mapsto> and (c_socket_status r) 3)\<rparr>))))"

text \<open>\<open>flags\<close> and \<open>r\<close> are what the two calls of \<^verbatim>\<open>fcntl\<close> return.\<close>

definition unblock_socket :: "int \<Rightarrow> int \<Rightarrow> (server, unit) prog" where
  "unblock_socket flags r =
     (if flags = - 1 then throw (Thrown ''fcntl F_GETFL'')
      else if r = - 1 then throw (Thrown ''fcntl F_SETFL O_NONBLOCK'')
      else ret ())"

text \<open>One turn of \<^verbatim>\<open>Server::_accept\<close>: the kernel gives descriptor \<open>fd\<close>, or a negative number, for the peer \<open>ip\<close>;
  \<open>c\<close> is the address of the new object.\<close>

definition add_connection :: "junk \<Rightarrow> nat \<Rightarrow> nat \<Rightarrow> (server, unit) prog" where
  "add_connection jk fd c = bnd (gets (\<lambda>s. s_connections s fd)) (\<lambda>old.
     if old \<noteq> None then throw (Thrown ''Connection place is not empty'')
     else
       thn (modify (\<lambda>s. s\<lparr>s_conns := (s_conns s)(c \<mapsto> new_connect jk fd),
              s_connections := (s_connections s)(fd \<mapsto> c)\<rparr>))
      (thn (conn_link c)
      (thn (modify (\<lambda>s. s\<lparr>s_max_fd := (if fd > s_max_fd s then fd else s_max_fd s)\<rparr>))
      (thn (bnd (gets s_active_loop) (\<lambda>active. loop_accept active c))
           (modify (\<lambda>s. s\<lparr>s_stat_connect := s_stat_connect s + 1\<rparr>))))))"

definition server_accept ::
  "net_filter list \<Rightarrow> junk \<Rightarrow> int \<Rightarrow> int \<times> int \<Rightarrow> 32 word \<Rightarrow> nat \<Rightarrow> (server, unit) prog" where
  "server_accept filters jk fd fl ip c =
     (if fd < 0 then ret ()
      else if fd \<ge> 16384 then throw (Thrown ''socket fd error'')
      else thn (unblock_socket (fst fl) (snd fl))
        (if \<not> valid_ip filters ip then ret () else add_connection jk (nat fd) c))"

section \<open>Closing and deleting\<close>

definition loop_close :: "nat \<Rightarrow> nat \<Rightarrow> (server, unit) prog" where
  "loop_close n fd = bnd (gets (\<lambda>s. s_connections s fd)) (\<lambda>x. case x of
     None \<Rightarrow> throw (Thrown ''_close: connection is null'')
   | Some c \<Rightarrow>
       thn (conn_close c)
      (thn (switch_mode c)
      (thn (on_disconnect c)
      (thn (conn_unlink c)
           (modify (\<lambda>s. s\<lparr>s_connections := (s_connections s)(fd := None)\<rparr>))))))"

definition delete_connections :: "nat \<Rightarrow> (server, unit) prog" where
  "delete_connections n = bnd (get_loop n) (\<lambda>l.
     if l_dead l = [] then ret ()
     else if l_del_locked l then ret ()
     else
       thn (for_each (l_dead l) (\<lambda>c. bnd (get_c c) (\<lambda>r.
              whenp (c_link r = 0) (modify (\<lambda>s. s\<lparr>s_conns := (s_conns s)(c := None)\<rparr>)))))
           (upd_loop n (\<lambda>l. l\<lparr>l_dead := []\<rparr>)))"

definition perform_to_send :: "nat \<Rightarrow> (server, unit) prog" where
  "perform_to_send n = bnd (get_loop n) (\<lambda>l.
     thn (for_each (l_to_send l) switch_mode) (upd_loop n (\<lambda>l. l\<lparr>l_to_send := []\<rparr>)))"

section \<open>Timeouts\<close>

definition timeout_worker :: "32 word \<Rightarrow> nat \<Rightarrow> (server, unit) prog" where
  "timeout_worker now w = bnd (get_c w) (\<lambda>r.
     if c_ping r = 0 then ret ()
     else if c_ping_timeout r > now then ret ()
     else if is_closed r then ret ()
     else if c_status r \<noteq> Worker_wait_job then ret ()
     else
       thn (free_worker w)
      (thn (send_status w ''408 Timeout'')
      (thn (send_done w)
           (upd_c w (\<lambda>r. r\<lparr>c_ping_timeout := now + c_ping r\<rparr>)))))"

definition queue_ids :: "server \<Rightarrow> nat list" where
  "queue_ids s = filter (\<lambda>q. s_queue_list s ! q \<noteq> None) [0..<length (s_queue_list s)]"

definition check_timeout :: "(server, unit) prog" where
  "check_timeout = (\<lambda>s.
     if s_global_locked s then (Inr (), s)
     else
       thn (modify (\<lambda>s. s\<lparr>s_global_locked := True\<rparr>))
      (thn (for_each (queue_ids s) (\<lambda>q. guard_ql q (bnd (get_ql q) (\<lambda>ql.
              for_each (ql_queue ql) (\<lambda>x. for_each (q_workers x) (timeout_worker (s_now s)))))))
           (modify (\<lambda>s. s\<lparr>s_global_locked := False\<rparr>))) s)"

section \<open>Cleaning the queues\<close>

text \<open>The loops of \<^verbatim>\<open>Service::_clean_dead_tasks\<close> over the workers and over the messages of one queue.\<close>

fun clean_workers :: "nat \<Rightarrow> nat \<Rightarrow> nat list \<Rightarrow> nat list \<Rightarrow> (server, unit) prog" where
  "clean_workers q r kept [] = ret ()"
| "clean_workers q r kept (w # ws) = bnd (get_c w) (\<lambda>conn.
     if is_closed conn \<or> c_status conn \<noteq> Worker_wait_job
     then thn (set_workers q r (kept @ ws)) (thn (conn_unlink w) (clean_workers q r kept ws))
     else clean_workers q r (kept @ [w]) ws)"

definition dead_message :: "message \<Rightarrow> (server, bool) prog" where
  "dead_message msg = (case msg_conn msg of
     None \<Rightarrow> ret False
   | Some c \<Rightarrow> bnd (get_c c) (\<lambda>r. ret (is_closed r \<or> c_status r \<noteq> Client_wait_result)))"

fun clean_clients :: "nat \<Rightarrow> nat \<Rightarrow> message list \<Rightarrow> message list \<Rightarrow> (server, unit) prog" where
  "clean_clients q r kept [] = ret ()"
| "clean_clients q r kept (m # ms) = bnd (dead_message m) (\<lambda>dead.
     if dead then thn (set_clients q r (kept @ ms)) (thn (delete_message m) (clean_clients q r kept ms))
     else clean_clients q r (kept @ [m]) ms)"

definition clean_queue :: "nat \<Rightarrow> nat \<Rightarrow> (server, unit) prog" where
  "clean_queue q r =
     thn (bnd (get_queue_of q r) (\<lambda>x. clean_workers q r [] (q_workers x)))
         (bnd (get_queue_of q r) (\<lambda>x. clean_clients q r [] (q_clients x)))"

definition clean_line :: "nat \<Rightarrow> (server, unit) prog" where
  "clean_line q = bnd (get_ql q) (\<lambda>ql.
     if ql_locked ql then ret ()
     else
       thn (lock_ql q)
      (thn (bnd (gets s_threads) (\<lambda>threads. for_each [0..<threads] (clean_queue q)))
           (unlock_ql q)))"

definition clean_dead_tasks :: "(server, unit) prog" where
  "clean_dead_tasks = guard_global (bnd (gets queue_ids) (\<lambda>qs. for_each qs clean_line))"

section \<open>Moving connections between loops\<close>

text \<open>The connections in the table, by descriptor up to \<^verbatim>\<open>max_fd\<close>.\<close>

definition conn_table :: "server \<Rightarrow> nat list" where
  "conn_table s = concat (map (\<lambda>fd. case s_connections s fd of None \<Rightarrow> [] | Some c \<Rightarrow> [c]) [0..<Suc (s_max_fd s)])"

text \<open>A registered descriptor that nothing is ever sent to makes the loop turn. It is opened once for the
  program; \<^verbatim>\<open>socket\<close> returns \<open>s_socket\<close>.\<close>

definition open_fake :: "(server, unit) prog" where
  "open_fake =
     thn (bnd (gets s_fake_fd) (\<lambda>fd. whenp (fd = 0) (modify (\<lambda>s. s\<lparr>s_fake_fd := s_socket s\<rparr>))))
         (bnd (gets s_fake_fd) (\<lambda>fd. whenp (fd < 0) (throw (Thrown ''Error opening socket''))))"

definition wake :: "nat \<Rightarrow> (server, unit) prog" where
  "wake n =
     thn (bnd (gets s_fake_fd) (\<lambda>fd. whenp (fd = 0) (guard_global open_fake)))
    (bnd (gets s_fake_fd) (\<lambda>fd. bnd (get_loop n) (\<lambda>l.
       if fd < 0 \<or> l_poll l (nat fd) \<noteq> None then throw (Thrown ''epoll_ctl EPOLL_CTL_ADD'')
       else upd_loop n (\<lambda>l. l\<lparr>l_poll := (l_poll l)(nat fd \<mapsto> 0)\<rparr>))))"

definition migrate_one :: "nat \<Rightarrow> nat \<Rightarrow> (server, unit) prog" where
  "migrate_one n c = bnd (get_c c) (\<lambda>r.
     if c_nloop r \<noteq> n then ret ()
     else if \<not> c_go_loop r \<or> c_need_loop r = n then ret ()
     else
       thn (upd_c c (\<lambda>r. r\<lparr>c_go_loop := False\<rparr>))
      (if is_closed r then ret ()
       else
         thn (set_poll_mode n (c_fd r) (- 1))
        (thn (loop_accept (c_need_loop r) c)
             (whenp (c_status r = Migration)
                (thn (upd_loop (c_need_loop r) (\<lambda>l. l\<lparr>l_accept_request := True\<rparr>))
                     (wake (c_need_loop r)))))))"

definition migrate_send :: "nat \<Rightarrow> (server, unit) prog" where
  "migrate_send n = with_locks n (bnd (gets conn_table) (\<lambda>cs. for_each cs (migrate_one n)))"

definition migrate_recv :: "nat \<Rightarrow> (server, unit) prog" where
  "migrate_recv n = bnd (get_loop n) (\<lambda>l.
     if \<not> l_accept_request l then ret ()
     else with_locks n
       (thn (upd_loop n (\<lambda>l. l\<lparr>l_accept_request := False\<rparr>))
       (bnd (gets conn_table) (\<lambda>cs. for_each cs (\<lambda>c. bnd (get_c c) (\<lambda>r.
          if c_nloop r \<noteq> n then ret ()
          else if c_status r \<noteq> Migration then ret ()
          else if is_closed r then ret ()
          else thn (client_request n (c_name r) c) (ret ())))))))"

section \<open>Events of a descriptor\<close>

datatype event = Ev_error | Ev_recv bytes | Ev_send int | Ev_again | Ev_fail

definition handle_error :: "nat \<Rightarrow> (server, unit) prog \<Rightarrow> (server, unit) prog" where
  "handle_error c m = catch_any m (conn_close c)"

definition close_if_closed :: "nat \<Rightarrow> nat \<Rightarrow> nat \<Rightarrow> (server, unit) prog" where
  "close_if_closed n fd c = bnd (get_c c) (\<lambda>r. whenp (is_closed r) (loop_close n fd))"

text \<open>An empty \<open>Ev_recv\<close> is the end of the stream; \<open>Ev_again\<close> is \<^verbatim>\<open>EAGAIN\<close>, \<open>Ev_fail\<close> any other error of
  \<^verbatim>\<open>recv\<close>, which ends the loop. The result says whether a migration is asked for.\<close>

definition handle_recv :: "nat \<Rightarrow> nat \<Rightarrow> nat \<Rightarrow> bytes \<Rightarrow> (server, unit) prog" where
  "handle_recv n fd c buf =
     (if buf = [] then loop_close n fd
      else
        thn (upd_loop n (\<lambda>l. l\<lparr>l_stat_recv := l_stat_recv l + word_of_nat (length buf)\<rparr>))
       (thn (handle_error c (on_recv c buf)) (close_if_closed n fd c)))"

definition handle_send :: "nat \<Rightarrow> nat \<Rightarrow> nat \<Rightarrow> int \<Rightarrow> (server, unit) prog" where
  "handle_send n fd c sent = thn (handle_error c (on_send c sent)) (close_if_closed n fd c)"

definition go_loop :: "nat \<Rightarrow> (server, bool) prog" where
  "go_loop c = bnd (get_c c) (\<lambda>r. ret (c_go_loop r))"

definition handle_event :: "nat \<Rightarrow> nat \<Rightarrow> event \<Rightarrow> (server, bool) prog" where
  "handle_event n fd ev = bnd (gets s_fake_fd) (\<lambda>fake.
     if int fd = fake then thn (set_poll_mode n fd (- 1)) (ret False)
     else if ev = Ev_error then thn (loop_close n fd) (ret False)
     else bnd (gets (\<lambda>s. s_connections s fd)) (\<lambda>x. case x of
        None \<Rightarrow> throw Fault
      | Some c \<Rightarrow> bnd (get_c c) (\<lambda>r.
          if c_nloop r \<noteq> n then ret False
          else (case ev of
              Ev_recv buf \<Rightarrow> thn (handle_recv n fd c buf) (go_loop c)
            | Ev_send sent \<Rightarrow> thn (handle_send n fd c sent) (go_loop c)
            | Ev_fail \<Rightarrow> throw (Thrown ''recv error'')
            | _ \<Rightarrow> ret False))))"

text \<open>Loop 0 looks for timeouts every hundredth turn.\<close>

definition countdown :: "nat \<Rightarrow> (server, unit) prog" where
  "countdown n = whenp (n = 0)
     (thn (upd_loop n (\<lambda>l. l\<lparr>l_countdown := l_countdown l - 1\<rparr>))
     (bnd (get_loop n) (\<lambda>l. whenp (l_countdown l \<le> 0)
        (thn (upd_loop n (\<lambda>l. l\<lparr>l_countdown := 100\<rparr>)) check_timeout))))"

text \<open>The rest of one turn of a loop, after its events.\<close>

definition loop_tail :: "nat \<Rightarrow> bool \<Rightarrow> (server, unit) prog" where
  "loop_tail n need_to_migrate =
     thn (countdown n)
    (thn (perform_to_send n)
    (thn (whenp need_to_migrate (migrate_send n))
    (thn (delete_connections n)
         (migrate_recv n))))"

fun handle_events :: "nat \<Rightarrow> (nat \<times> event) list \<Rightarrow> bool \<Rightarrow> (server, bool) prog" where
  "handle_events n [] need = ret need"
| "handle_events n ((fd, ev) # evs) need = bnd (handle_event n fd ev) (\<lambda>go.
     handle_events n evs (need \<or> go))"

definition loop_turn :: "nat \<Rightarrow> (nat \<times> event) list \<Rightarrow> (server, unit) prog" where
  "loop_turn n evs =
     thn (upd_loop n (\<lambda>l. l\<lparr>l_stat_ioevent := l_stat_ioevent l + word_of_nat (length evs)\<rparr>))
    (bnd (handle_events n evs False) (\<lambda>need. loop_tail n need))"

section \<open>The service thread\<close>

text \<open>The tables of the index that were replaced are freed.\<close>

definition free_memory :: "(server, unit) prog" where
  "free_memory = modify (\<lambda>s. s\<lparr>s_mapper := (s_mapper s)\<lparr>m_free := []\<rparr>\<rparr>)"

text \<open>The clock reads \<open>now\<close> nanoseconds and loop \<open>i\<close> has used \<open>usage i\<close> of processor time so far.\<close>

definition balance :: "64 word \<Rightarrow> (nat \<Rightarrow> 64 word) \<Rightarrow> (server, unit) prog" where
  "balance now usage = bnd (gets s_service) (\<lambda>sv. bnd (gets s_threads) (\<lambda>threads.
     bnd (lift_res (cpu_loads (now - sv_prev sv) (map (\<lambda>i. (usage i, sv_used sv i)) [0..<threads]))) (\<lambda>cpu.
     thn (modify (\<lambda>s. s\<lparr>s_service := (s_service s)\<lparr>sv_prev := now,
            sv_used := (\<lambda>i. if i < threads then usage i else sv_used sv i)\<rparr>\<rparr>))
         (modify (\<lambda>s. s\<lparr>s_active_loop := choose_loop cpu\<rparr>)))))"

text \<open>What \<^verbatim>\<open>Service::_start\<close> begins with, and one turn of its loop, twice a second.\<close>

definition service_start :: "64 word \<Rightarrow> (server, unit) prog" where
  "service_start now = modify (\<lambda>s. s\<lparr>s_service := \<lparr>sv_used = (\<lambda>_. 0), sv_prev = now, sv_clean = 2\<rparr>\<rparr>)"

definition service_turn :: "64 word \<Rightarrow> (nat \<Rightarrow> 64 word) \<Rightarrow> (server, unit) prog" where
  "service_turn now usage =
     thn free_memory
    (thn (modify (\<lambda>s. s\<lparr>s_service := (s_service s)\<lparr>sv_clean := to_i16 (sv_clean (s_service s) - 1)\<rparr>\<rparr>))
    (bnd (gets s_service) (\<lambda>sv.
     thn (whenp (sv_clean sv \<le> 0)
            (thn (modify (\<lambda>s. s\<lparr>s_service := (s_service s)\<lparr>sv_clean := 2\<rparr>\<rparr>)) clean_dead_tasks))
         (bnd (gets s_threads) (\<lambda>threads. whenp (threads > 1) (balance now usage))))))"

section \<open>The program as a step relation\<close>

text \<open>A step is a turn of a loop or a handler of one, an accepted connection, a turn of the service, or time going
  on with new random numbers, descriptors and stack contents. A loop that ends with an exception, which
  \<^verbatim>\<open>_loop_safe\<close> catches, and any thread that is blocked leave the state they had reached to the others. After a fault,
  or an exception of the acceptor or of the service, which ends the program, there is no next state.\<close>

inductive broker_step :: "server \<Rightarrow> server \<Rightarrow> bool" where
  turn: "loop_turn n evs s = (r, s') \<Longrightarrow> r \<noteq> Inl Fault \<Longrightarrow> broker_step s s'"
| event: "handle_event n fd ev s = (r, s') \<Longrightarrow> r \<noteq> Inl Fault \<Longrightarrow> broker_step s s'"
| accept: "server_accept filters jk fd fl ip c s = (r, s') \<Longrightarrow> s_conns s c = None \<Longrightarrow>
    r \<in> {Inr (), Inl Deadlock} \<Longrightarrow> broker_step s s'"
| start: "service_start clock s = (r, s') \<Longrightarrow> broker_step s s'"
| service: "service_turn clock usage s = (r, s') \<Longrightarrow> r \<in> {Inr (), Inl Deadlock} \<Longrightarrow> broker_step s s'"
| time: "broker_step s (s\<lparr>s_now := now, s_rand := rnd, s_junk := junk, s_socket := socket\<rparr>)"

inductive_cases broker_stepE: "broker_step s s'"

inductive reachable :: "server \<Rightarrow> server \<Rightarrow> bool" for s0 where
  init: "reachable s0 s0"
| step: "reachable s0 s \<Longrightarrow> broker_step s s' \<Longrightarrow> reachable s0 s'"

definition new_loop :: loop where
  "new_loop = \<lparr>l_dead = [], l_to_send = [], l_poll = (\<lambda>_. None), l_accept_request = False,
     l_del_locked = False, l_stat_request = 0, l_stat_call = 0, l_stat_result = 0, l_stat_recv = 0,
     l_stat_send = 0, l_stat_ioevent = 0, l_countdown = 100\<rparr>"

text \<open>\<^verbatim>\<open>Server::Server\<close> and \<^verbatim>\<open>Server::start\<close>: the number of threads is brought between 1 and 62.\<close>

definition start_threads :: "int \<Rightarrow> nat" where
  "start_threads threads =
     (let t = (if threads < 1 then 1 else threads) in nat (if t > 62 then 62 else t))"

definition new_server :: "int \<Rightarrow> bool \<Rightarrow> bytes \<Rightarrow> 32 word \<Rightarrow> (nat \<Rightarrow> 32 word) \<Rightarrow> int \<Rightarrow> memory \<Rightarrow> server" where
  "new_server threads jsonrpc2 version now rnd jnk mem =
     \<lparr>s_conns = (\<lambda>_. None), s_connections = (\<lambda>_. None), s_max_fd = 0, s_mapper = new_mapper,
      s_queue_list = [], s_wait_response = (\<lambda>_. None), s_dms = (\<lambda>_. None), s_next_dm = 0,
      s_loops = replicate (start_threads threads) new_loop, s_threads = start_threads threads,
      s_jsonrpc2 = jsonrpc2, s_version = version, s_global_locked = False, s_gc = [], s_gen_index = 0,
      s_now = now, s_rand = rnd, s_nrand = 0, s_junk = jnk, s_memory = mem, s_nmemory = 0, s_active_loop = 0, s_fake_fd = 0, s_socket = 0,
      s_service = \<lparr>sv_used = (\<lambda>_. 0), sv_prev = 0, sv_clean = 2\<rparr>, s_stat_connect = 0,
      s_stat_starttime = ucast now\<rparr>"

end
