(* ===== verification/Broker_Runs.thy ===== *)
theory Broker_Runs imports Event_Loop begin

text \<open>
  What the operations of \<open>Broker_State\<close> do when nothing goes wrong, as rewrite rules that run a handler on
  a state whose connections are known: collection \<open>runs\<close>. A whole response is one step: it appends a text
  to the connection's buffer and asks its loop for the socket to become writable (\<open>emit\<close>).
\<close>

named_theorems runs \<open>rewrite rules that run a handler\<close>

lemma thn_ret [simp]: "thn (ret x) n = n"
  by (rule ext) (simp add: thn_def)

section \<open>Writing a connection\<close>

definition put_c :: "nat \<Rightarrow> connect \<Rightarrow> server \<Rightarrow> server" where
  "put_c c r s = s\<lparr>s_conns := (s_conns s)(c \<mapsto> r)\<rparr>"

lemma put_c_sel [simp]:
  "s_conns (put_c c r s) = (s_conns s)(c \<mapsto> r)" "s_connections (put_c c r s) = s_connections s"
  "s_mapper (put_c c r s) = s_mapper s" "s_queue_list (put_c c r s) = s_queue_list s"
  "s_wait_response (put_c c r s) = s_wait_response s" "s_dms (put_c c r s) = s_dms s"
  "s_loops (put_c c r s) = s_loops s" "s_threads (put_c c r s) = s_threads s"
  "s_jsonrpc2 (put_c c r s) = s_jsonrpc2 s" "s_global_locked (put_c c r s) = s_global_locked s"
  "s_gc (put_c c r s) = s_gc s" "s_now (put_c c r s) = s_now s" "s_junk (put_c c r s) = s_junk s"
  "s_gen_index (put_c c r s) = s_gen_index s" "s_next_dm (put_c c r s) = s_next_dm s"
  by (simp_all add: put_c_def)

lemma put_c_twice [simp]: "put_c c r (put_c c r' s) = put_c c r s"
  by (simp add: put_c_def)

lemma put_c_same: "s_conns s c = Some r \<Longrightarrow> put_c c r s = s"
  by (simp add: put_c_def map_upd_triv)

lemma get_c_run [runs]: "s_conns s c = Some r \<Longrightarrow> get_c c s = (Inr r, s)"
  by (simp add: get_c_def)

lemma upd_c_run [runs]: "s_conns s c = Some r \<Longrightarrow> upd_c c f s = (Inr (), put_c c (f r) s)"
  by (simp add: upd_c_def put_c_def)

lemma get_loop_run [runs]: "n < length (s_loops s) \<Longrightarrow> get_loop n s = (Inr (s_loops s ! n), s)"
  by (simp add: get_loop_def)

lemma upd_loop_run [runs]:
  "n < length (s_loops s) \<Longrightarrow> upd_loop n f s = (Inr (), s\<lparr>s_loops := (s_loops s)[n := f (s_loops s ! n)]\<rparr>)"
  by (simp add: upd_loop_def)

lemma conn_link_run [runs]:
  "s_conns s c = Some r \<Longrightarrow> conn_link c s = (Inr (), put_c c (r\<lparr>c_link := c_link r + 1\<rparr>) s)"
  by (simp add: conn_link_def runs)

lemma conn_unlink_run [runs]:
  "s_conns s c = Some r \<Longrightarrow> 1 < c_link r \<Longrightarrow> conn_unlink c s = (Inr (), put_c c (r\<lparr>c_link := c_link r - 1\<rparr>) s)"
  by (simp add: conn_unlink_def runs thn_run bnd_run)

section \<open>Responses\<close>

text \<open>The text of a response.\<close>

definition header_text :: "bytes \<times> bytes \<Rightarrow> bytes" where
  "header_text h = fst h @ '': '' @ snd h @ crlf"

definition content_text :: "bytes \<Rightarrow> bytes" where
  "content_text body = (if body = [] then ''Content-Length: 0'' @ crlf @ crlf
     else ''Content-Length: '' @ number_bytes (int (length body)) @ crlf @ crlf @ body)"

definition response :: "bool \<Rightarrow> bytes \<Rightarrow> (bytes \<times> bytes) list \<Rightarrow> bytes \<Rightarrow> bytes" where
  "response keep_alive status headers body =
     ''HTTP/1.1 '' @ status @ crlf @ (if keep_alive then ''Connection: keep-alive'' @ crlf else []) @
     concat (map header_text headers) @ content_text body"

text \<open>The connection with a text in its buffer and writable, and its loop told so once.\<close>

definition emitted :: "bytes \<Rightarrow> connect \<Rightarrow> connect" where
  "emitted text r = r\<lparr>c_send_buffer := c_send_buffer r @ text, c_socket_status := or (c_socket_status r) 2\<rparr>"

definition told :: "nat \<Rightarrow> connect \<Rightarrow> loop list \<Rightarrow> loop list" where
  "told c r ls = (if and (c_socket_status r) 2 \<noteq> 0 then ls
     else ls[c_nloop r := (ls ! c_nloop r)\<lparr>l_to_send := l_to_send (ls ! c_nloop r) @ [c]\<rparr>])"

definition emit :: "nat \<Rightarrow> bytes \<Rightarrow> server \<Rightarrow> server" where
  "emit c text s = (case s_conns s c of None \<Rightarrow> s
     | Some r \<Rightarrow> s\<lparr>s_conns := (s_conns s)(c \<mapsto> emitted text r), s_loops := told c r (s_loops s)\<rparr>)"

lemma emitted_sel [simp]:
  "c_send_buffer (emitted x r) = c_send_buffer r @ x" "c_status (emitted x r) = c_status r"
  "c_body (emitted x r) = c_body r" "c_nloop (emitted x r) = c_nloop r" "c_link (emitted x r) = c_link r"
  "c_worker_mode (emitted x r) = c_worker_mode r" "c_noid (emitted x r) = c_noid r"
  "c_client (emitted x r) = c_client r" "c_id (emitted x r) = c_id r" "c_need_loop (emitted x r) = c_need_loop r"
  "c_keep_alive (emitted x r) = c_keep_alive r" "c_name (emitted x r) = c_name r"
  "c_no_response (emitted x r) = c_no_response r" "c_worker_item (emitted x r) = c_worker_item r"
  "c_fail_on_disconnect (emitted x r) = c_fail_on_disconnect r" "c_http_step (emitted x r) = c_http_step r"
  "c_connection_id (emitted x r) = c_connection_id r" "c_direct_message (emitted x r) = c_direct_message r"
  "c_ping (emitted x r) = c_ping r" "c_json (emitted x r) = c_json r" "c_go_loop (emitted x r) = c_go_loop r"
  by (simp_all add: emitted_def)

lemma length_told [simp]: "length (told c r ls) = length ls"
  by (simp add: told_def)

lemma emit_sel [simp]:
  "s_connections (emit c x s) = s_connections s" "s_mapper (emit c x s) = s_mapper s"
  "s_queue_list (emit c x s) = s_queue_list s" "s_wait_response (emit c x s) = s_wait_response s"
  "s_dms (emit c x s) = s_dms s" "s_threads (emit c x s) = s_threads s"
  "s_jsonrpc2 (emit c x s) = s_jsonrpc2 s" "s_global_locked (emit c x s) = s_global_locked s"
  "s_gc (emit c x s) = s_gc s" "s_now (emit c x s) = s_now s" "s_junk (emit c x s) = s_junk s"
  "length (s_loops (emit c x s)) = length (s_loops s)"
  by (simp_all add: emit_def split: option.splits)

lemma emit_conns [simp]: "s_conns (emit c x s) = (s_conns s)(c := map_option (emitted x) (s_conns s c))"
  by (auto simp: emit_def fun_upd_idem split: option.splits)

lemma or_2_and: "and st 2 \<noteq> 0 \<Longrightarrow> or st 2 = (st :: int)"
proof -
  assume "and st 2 \<noteq> 0"
  then have b: "bit st 1" using and_exp_eq_0_iff_not_bit [of st 1] by simp
  have "bit (2::int) n = (n = 1)" for n using bit_exp_iff [where 'a=int, of 1 n] by simp
  then show "or st 2 = st" using b by (intro bit_eqI) (auto simp only: bit_or_iff)
qed

lemma write_mode_run [runs]:
  assumes "s_conns s c = Some r" and "c_nloop r < length (s_loops s)"
  shows "write_mode True c s = (Inr (), emit c [] s)"
proof (cases "and (c_socket_status r) 2 = 0")
  case True
  with assms show ?thesis
    by (simp add: write_mode_def bnd_run thn_run runs Let_def emit_def emitted_def told_def put_c_def)
next
  case False
  then have "emitted [] r = r" by (simp add: emitted_def or_2_and)
  with False assms show ?thesis
    by (simp add: write_mode_def bnd_run runs Let_def emit_def told_def fun_upd_idem)
qed

text \<open>The parts of a response, before the last one wakes the loop.\<close>

definition buffered :: "nat \<Rightarrow> bytes \<Rightarrow> server \<Rightarrow> server" where
  "buffered c text s = (case s_conns s c of None \<Rightarrow> s
     | Some r \<Rightarrow> put_c c (r\<lparr>c_send_buffer := c_send_buffer r @ text\<rparr>) s)"

lemma buffered_buffered [simp]: "buffered c x (buffered c y s) = buffered c (y @ x) s"
  by (simp add: buffered_def put_c_def split: option.splits)

lemma emit_buffered [simp]: "emit c x (buffered c y s) = emit c (y @ x) s"
  by (simp add: buffered_def emit_def emitted_def told_def put_c_def split: option.splits)

lemma buffered_conns:
  "s_conns s c = Some r \<Longrightarrow> s_conns (buffered c x s) c = Some (r\<lparr>c_send_buffer := c_send_buffer r @ x\<rparr>)"
  by (simp add: buffered_def)

lemma buffered_loops [simp]: "s_loops (buffered c x s) = s_loops s" "s_jsonrpc2 (buffered c x s) = s_jsonrpc2 s"
  by (simp_all add: buffered_def split: option.splits)

lemma add_send_run [runs]: "s_conns s c = Some r \<Longrightarrow> add_send c x s = (Inr (), buffered c x s)"
  by (simp add: add_send_def runs buffered_def)

lemma send_status_run [runs]:
  "s_conns s c = Some r \<Longrightarrow> send_status c st s =
     (Inr (), buffered c (''HTTP/1.1 '' @ st @ crlf @
        (if c_keep_alive r then ''Connection: keep-alive'' @ crlf else [])) s)"
  by (simp add: send_status_def thn_run bnd_run runs buffered_conns)

lemma send_header_run [runs]:
  "s_conns s c = Some r \<Longrightarrow> send_header c k v s = (Inr (), buffered c (header_text (k, v)) s)"
  by (simp add: send_header_def header_text_def thn_run runs buffered_conns)

lemma send_done_body_run [runs]:
  "s_conns s c = Some r \<Longrightarrow> \<not> is_closed r \<Longrightarrow> c_nloop r < length (s_loops s) \<Longrightarrow>
   send_done_body c body s = (Inr (), emit c (content_text body) s)"
  by (simp add: send_done_body_def content_text_def thn_run bnd_run runs buffered_conns)

lemma send_done_run [runs]:
  "s_conns s c = Some r \<Longrightarrow> \<not> is_closed r \<Longrightarrow> c_nloop r < length (s_loops s) \<Longrightarrow>
   send_done c s = (Inr (), emit c (content_text []) s)"
  by (simp add: send_done_def content_text_def thn_run bnd_run runs buffered_conns)

definition code_body :: "bool \<Rightarrow> int \<Rightarrow> bytes" where
  "code_body jsonrpc2 err = (if jsonrpc2 then jsonrpc_message err else [])"

lemma send_done_code_run [runs]:
  "s_conns s c = Some r \<Longrightarrow> \<not> is_closed r \<Longrightarrow> c_nloop r < length (s_loops s) \<Longrightarrow>
   send_done_code c err s = (Inr (), emit c (content_text (code_body (s_jsonrpc2 s) err)) s)"
  by (simp add: send_done_code_def code_body_def runs)

text \<open>Whole responses: to the end, with up to two headers.\<close>

lemma response_run:
  assumes "s_conns s c = Some r" and "\<not> is_closed r" and "c_nloop r < length (s_loops s)"
  shows "thn (send_status c st) (thn (send_header c k v) (send_done_body c body)) s =
      (Inr (), emit c (response (c_keep_alive r) st [(k, v)] body) s)"
    and "thn (send_status c st) (send_done_body c body) s =
      (Inr (), emit c (response (c_keep_alive r) st [] body) s)"
  using assms by (simp_all add: response_def thn_run runs buffered_conns is_closed_def)

lemma reply_run [runs]:
  assumes "s_conns s c = Some r" and "\<not> is_closed r" and "c_nloop r < length (s_loops s)"
  shows "reply c st err s = (Inr (), emit c (response (c_keep_alive r) st [] (code_body (s_jsonrpc2 s) err)) s)"
  using assms by (simp add: reply_def response_def thn_run runs buffered_conns is_closed_def)

section \<open>Queue lines\<close>

definition put_ql :: "nat \<Rightarrow> queue_line \<Rightarrow> server \<Rightarrow> server" where
  "put_ql q ql s = s\<lparr>s_queue_list := (s_queue_list s)[q := Some ql]\<rparr>"

lemma put_ql_sel [simp]:
  "s_conns (put_ql q ql s) = s_conns s" "s_connections (put_ql q ql s) = s_connections s"
  "s_mapper (put_ql q ql s) = s_mapper s" "s_queue_list (put_ql q ql s) = (s_queue_list s)[q := Some ql]"
  "s_wait_response (put_ql q ql s) = s_wait_response s" "s_dms (put_ql q ql s) = s_dms s"
  "s_loops (put_ql q ql s) = s_loops s" "s_threads (put_ql q ql s) = s_threads s"
  "s_jsonrpc2 (put_ql q ql s) = s_jsonrpc2 s" "s_global_locked (put_ql q ql s) = s_global_locked s"
  "s_gc (put_ql q ql s) = s_gc s" "s_now (put_ql q ql s) = s_now s" "s_junk (put_ql q ql s) = s_junk s"
  by (simp_all add: put_ql_def)

lemma put_ql_twice [simp]: "put_ql q ql (put_ql q ql' s) = put_ql q ql s"
  by (simp add: put_ql_def)

definition has_ql :: "nat \<Rightarrow> queue_line \<Rightarrow> server \<Rightarrow> bool" where
  "has_ql q ql s = (q < length (s_queue_list s) \<and> s_queue_list s ! q = Some ql)"

lemma has_ql_put_ql [simp]: "has_ql q ql (put_ql q ql' s) \<longleftrightarrow> q < length (s_queue_list s) \<and> ql = ql'"
  by (auto simp: has_ql_def)

lemma has_ql_other [simp]:
  "has_ql q ql (put_c c r s) = has_ql q ql s" "has_ql q ql (emit c x s) = has_ql q ql s"
  "has_ql q ql (s\<lparr>s_loops := ls\<rparr>) = has_ql q ql s" "has_ql q ql (s\<lparr>s_wait_response := wr\<rparr>) = has_ql q ql s"
  "has_ql q ql (s\<lparr>s_gc := g\<rparr>) = has_ql q ql s"
  by (simp_all add: has_ql_def)

lemma get_ql_run [runs]: "has_ql q ql s \<Longrightarrow> get_ql q s = (Inr ql, s)"
  by (simp add: get_ql_def has_ql_def)

lemma upd_ql_run [runs]: "has_ql q ql s \<Longrightarrow> upd_ql q f s = (Inr (), put_ql q (f ql) s)"
  by (simp add: upd_ql_def bnd_run runs put_ql_def)

lemma get_queue_of_run [runs]:
  "has_ql q ql s \<Longrightarrow> r < length (ql_queue ql) \<Longrightarrow> get_queue_of q r s = (Inr (ql_queue ql ! r), s)"
  by (simp add: get_queue_of_def bnd_run runs)

lemma upd_queue_of_run [runs]:
  "has_ql q ql s \<Longrightarrow> r < length (ql_queue ql) \<Longrightarrow>
   upd_queue_of q r f s = (Inr (), put_ql q (ql\<lparr>ql_queue := (ql_queue ql)[r := f (ql_queue ql ! r)]\<rparr>) s)"
  by (simp add: upd_queue_of_def bnd_run runs)

lemma unlock_ql_run: "has_ql q ql s \<Longrightarrow> unlock_ql q s = (Inr (), put_ql q (ql\<lparr>ql_locked := False\<rparr>) s)"
  by (simp add: unlock_ql_def runs)

lemma unlocked_ql [simp]:
  "\<not> ql_locked ql \<Longrightarrow> ql\<lparr>ql_queue := x, ql_locked := False\<rparr> = ql\<lparr>ql_queue := x\<rparr>"
  "\<not> ql_locked ql \<Longrightarrow> ql\<lparr>ql_last_worker := t, ql_queue := x, ql_locked := False\<rparr> =
     ql\<lparr>ql_last_worker := t, ql_queue := x\<rparr>"
  by (cases ql; simp)+

text \<open>A handler that keeps the line alive, under the line's mutex.\<close>

lemma guard_ql_run:
  assumes "has_ql q ql s" and "\<not> ql_locked ql"
    and "m (put_ql q (ql\<lparr>ql_locked := True\<rparr>) s) = (x, s1)" and "has_ql q ql1 s1" and "\<not> stuck x"
  shows "guard_ql q m s = (x, put_ql q (ql1\<lparr>ql_locked := False\<rparr>) s1)"
  using assms by (simp add: guard_ql_def lock_ql_def bnd_run thn_run runs unlock_ql_run)

text \<open>The line that a name leads to.\<close>

definition line_of :: "server \<Rightarrow> bytes \<Rightarrow> nat \<Rightarrow> queue_line \<Rightarrow> bool" where
  "line_of s name q ql = (mapper_find (s_mapper s) name = Inr (Suc q) \<and> has_ql q ql s)"

lemma get_queue_run: "line_of s name q ql \<Longrightarrow> get_queue name b s = (Inr (Some q), s)"
  by (simp add: line_of_def has_ql_def get_queue_def find_queue_def queue_at_def bnd_run)

lemma with_gc_run:
  assumes "m (s\<lparr>s_gc := []\<rparr>) = (r, s1)" and "for_each (s_gc s1) gc_free (s1\<lparr>s_gc := s_gc s\<rparr>) = (Inr u, s2)"
  shows "with_gc m s = (r, s2)"
  using assms by (simp add: with_gc_def)

lemma wait_response_sel [simp]:
  "s_conns (s\<lparr>s_wait_response := x\<rparr>) = s_conns s" "s_loops (s\<lparr>s_wait_response := x\<rparr>) = s_loops s"
  by simp_all

lemma wait_for_run [runs]:
  "wait_for sid c s = (Inr (), s\<lparr>s_wait_response := (s_wait_response s)(sid \<mapsto> c)\<rparr>)"
  by (simp add: wait_for_def)

lemma request_id_run [runs]:
  "s_conns s c = Some r \<Longrightarrow> c_id r \<noteq> [] \<Longrightarrow> request_id c s = (Inr (Some (c_id r)), s)"
  by (simp add: request_id_def bnd_run runs)

end
