(* ===== verification/Broker_Invariant.thy ===== *)
theory Broker_Invariant imports Event_Loop begin

text \<open>
  Invariants of the reachable states, as interfaces. A predicate on the broker's state that is kept by a
  few primitive writes (locale \<open>conn_invariant\<close>) and by the places where the queues themselves change
  (locale \<open>broker_invariant\<close>) is kept by every handler, by every step and so holds in every reachable
  state; each handler is gone through once, here. A predicate that does not look into the queues needs
  less (locale \<open>blind_invariant\<close>). The theories of the invariants interpret the locales.
\<close>

named_theorems handler_keeps \<open>handlers that keep an invariant\<close>

section \<open>Harmless writes\<close>

text \<open>
  Writes to a connection that do not move it to the status \<open>Migration\<close> and keep its descriptor, writes to
  a loop that do not ask it to accept requests, and states that agree in connections, queue lines and
  loops.
\<close>

definition tame :: "(connect \<Rightarrow> connect) \<Rightarrow> bool" where
  "tame f = (\<forall>r. (c_status (f r) = Migration \<longrightarrow> c_status r = Migration) \<and> c_fd (f r) = c_fd r)"

definition tame_loop :: "(loop \<Rightarrow> loop) \<Rightarrow> bool" where
  "tame_loop f = (\<forall>l. l_accept_request (f l) \<longrightarrow> l_accept_request l)"

definition same_core :: "server \<Rightarrow> server \<Rightarrow> bool" where
  "same_core s s' = (s_conns s' = s_conns s \<and> s_queue_list s' = s_queue_list s \<and> s_loops s' = s_loops s \<and>
     s_threads s' = s_threads s \<and> s_active_loop s' = s_active_loop s)"

lemmas harmless = tame_def tame_loop_def same_core_def reset_request_def

lemma keeps_request_type [keeps_intros]:
  assumes "keeps P a1" "keeps P a2" "keeps P a3" "keeps P a4" "keeps P a5" "keeps P a6" "keeps P a7"
    "keeps P a8" "keeps P a9"
  shows "keeps P (case t of Rt_none \<Rightarrow> a1 | Rt_get \<Rightarrow> a2 | Rt_get_plus \<Rightarrow> a3 | Rt_worker \<Rightarrow> a4 | Rt_async \<Rightarrow> a5
    | Rt_pub \<Rightarrow> a6 | Rt_result \<Rightarrow> a7 | Rt_create \<Rightarrow> a8 | Rt_del \<Rightarrow> a9)"
  using assms by (cases t) auto

lemma keeps_http_step [keeps_intros]:
  assumes "keeps P a1" "keeps P a2" "keeps P a3" "keeps P a4"
  shows "keeps P (case t of Http_start \<Rightarrow> a1 | Http_header \<Rightarrow> a2 | Http_read_body \<Rightarrow> a3 | Http_request_completed \<Rightarrow> a4)"
  using assms by (cases t) auto

lemma keeps_lines_end [keeps_intros]:
  assumes "keeps P a" "\<And>x. keeps P (b x)" "keeps P e"
  shows "keeps P (case r of Closed \<Rightarrow> a | Rest x \<Rightarrow> b x | Endless \<Rightarrow> e)"
  using assms by (cases r) auto

lemma keeps_event [keeps_intros]:
  assumes "keeps P a" "\<And>x. keeps P (b x)" "\<And>x. keeps P (d x)" "keeps P e" "keeps P g"
  shows "keeps P (case ev of Ev_error \<Rightarrow> a | Ev_recv x \<Rightarrow> b x | Ev_send x \<Rightarrow> d x | Ev_again \<Rightarrow> e | Ev_fail \<Rightarrow> g)"
  using assms by (cases ev) auto

lemma keeps_state_fun: "(\<And>s. P s \<Longrightarrow> P (snd (m s s))) \<Longrightarrow> keeps P (\<lambda>s. m s s)"
  by (rule keepsI)

lemma get_ql_Inr:
  assumes "get_ql q s = (Inr ql, s')"
  shows "s' = s" and "q < length (s_queue_list s)" and "s_queue_list s ! q = Some ql"
  using assms by (auto simp: get_ql_def split: if_splits option.splits)

locale conn_invariant =
  fixes P :: "server \<Rightarrow> bool"
  assumes frame: "P s \<Longrightarrow> same_core s s' \<Longrightarrow> P s'"
    and upd_c [handler_keeps]: "tame f \<Longrightarrow> keeps P (upd_c c f)"
    and upd_loop [handler_keeps]: "tame_loop g \<Longrightarrow> keeps P (upd_loop n g)"
    and upd_line [handler_keeps]: "(\<And>ql. ql_queue (h ql) = ql_queue ql) \<Longrightarrow> keeps P (upd_ql q h)"
    and workers [handler_keeps]: "keeps P (upd_queue_of q r (\<lambda>x. x\<lparr>q_workers := k x\<rparr>))"
begin

lemma other_modify: "(\<And>s. same_core s (f s)) \<Longrightarrow> keeps P (modify f)"
  by (rule keeps_modify) (blast intro: frame)

lemma reads_keeps [handler_keeps]:
  "keeps P (get_c c)" "keeps P (get_loop n)" "keeps P (get_ql q)" "keeps P (get_queue_of q r)"
proof -
  show ql: "keeps P (get_ql q)" for q
    by (rule keepsI) (auto simp: get_ql_def split: option.splits)
  show "keeps P (get_c c)" "keeps P (get_loop n)"
    by (rule keepsI; auto simp: get_c_def get_loop_def split: option.splits)+
  show "keeps P (get_queue_of q r)"
    unfolding get_queue_of_def by (intro keeps_intros ql)
qed

lemma set_workers_keeps [handler_keeps]: "keeps P (set_workers q r ws)"
  unfolding set_workers_def by (rule workers)

lemma lock_ql_keeps [handler_keeps]: "keeps P (lock_ql q)" "keeps P (unlock_ql q)"
  unfolding lock_ql_def unlock_ql_def by (intro keeps_intros handler_keeps; simp add: harmless)+

lemma guard_ql_keeps [keeps_intros]:
  assumes "keeps P m"
  shows "keeps P (guard_ql q m)"
proof -
  have "keeps P (\<lambda>s. case m s of (r, s') \<Rightarrow> (r, if stuck r then s' else snd (unlock_ql q s')))"
  proof
    fix s assume "P s"
    then have kept: "P (snd (m s))" by (rule keepsD [OF assms])
    then have "P (snd (unlock_ql q (snd (m s))))" by (rule keepsD [OF lock_ql_keeps(2)])
    with kept show "P (snd (case m s of (r, s') \<Rightarrow> (r, if stuck r then s' else snd (unlock_ql q s'))))"
      by (cases "m s") simp
  qed
  then show ?thesis unfolding guard_ql_def by (intro keeps_intros handler_keeps; simp add: harmless)
qed

lemma guard_global_keeps [keeps_intros]:
  assumes "keeps P m"
  shows "keeps P (guard_global m)"
proof
  fix s assume "P s"
  then have "P (s\<lparr>s_global_locked := True\<rparr>)" by (rule frame) (simp add: same_core_def)
  from keepsD [OF assms this] \<open>P s\<close> show "P (snd (guard_global m s))"
    by (auto simp: guard_global_def same_core_def elim: frame split: prod.splits)
qed

lemma conn_keeps [handler_keeps]:
  "keeps P (conn_close c)" "keeps P (conn_link c)" "keeps P (conn_unlink c)"
  "keeps P (write_mode b c)" "keeps P (set_poll_mode n fd st)"
  unfolding conn_close_def conn_link_def conn_unlink_def write_mode_def set_poll_mode_def Let_def
  by (intro keeps_intros handler_keeps; simp add: harmless)+

lemma switch_mode_keeps [handler_keeps]: "keeps P (switch_mode c)"
  unfolding switch_mode_def by (intro keeps_intros handler_keeps; simp add: harmless)

lemma add_send_keeps [handler_keeps]: "keeps P (add_send c xs)"
  unfolding add_send_def by (intro handler_keeps; simp add: harmless)

lemma send_keeps [handler_keeps]:
  "keeps P (send_status c st)" "keeps P (send_header c k v)"
  "keeps P (send_done_body c body)" "keeps P (send_done c)"
  unfolding send_status_def send_header_def send_done_body_def send_done_def
  by (intro keeps_intros handler_keeps; simp add: harmless)+

lemma send_code_keeps [handler_keeps]: "keeps P (send_done_code c err)" "keeps P (reply c st err)"
  unfolding reply_def send_done_code_def by (intro keeps_intros handler_keeps; simp add: harmless)+

lemma dm_keeps [handler_keeps]: "keeps P (dm_link d)" "keeps P (dm_unlink d)"
  by (rule keepsI; auto simp: dm_link_def dm_unlink_def Let_def same_core_def elim!: frame split: option.splits)+

lemma gc_add_keeps [handler_keeps]: "keeps P (gc_add g)"
  unfolding gc_add_def by (rule other_modify) (simp add: harmless)

lemma delete_message_keeps [handler_keeps]: "keeps P (delete_message m)"
  unfolding delete_message_def by (intro keeps_intros handler_keeps; simp add: harmless)

lemma gc_free_keeps [handler_keeps]: "keeps P (gc_free g)"
  by (cases g) (simp_all add: handler_keeps)

lemma with_gc_keeps [keeps_intros]:
  assumes "keeps P m"
  shows "keeps P (with_gc m)"
proof
  fix s assume s: "P s"
  obtain r s1 where m: "m (s\<lparr>s_gc := []\<rparr>) = (r, s1)" by (cases "m (s\<lparr>s_gc := []\<rparr>)")
  have "P (s\<lparr>s_gc := []\<rparr>)" using s by (rule frame) (simp add: same_core_def)
  from keepsD' [OF assms this m] have "P (s1\<lparr>s_gc := s_gc s\<rparr>)"
    by (rule frame) (simp add: same_core_def)
  moreover have "keeps P (for_each (s_gc s1) gc_free)" by (intro keeps_intros handler_keeps; simp add: harmless)
  ultimately have "P (snd (for_each (s_gc s1) gc_free (s1\<lparr>s_gc := s_gc s\<rparr>)))" by (rule keepsD [rotated])
  then show "P (snd (with_gc m s))"
    unfolding with_gc_def m by (auto split: prod.splits sum.splits)
qed

lemma lock_loops_keeps: "keeps P (lock_loops except ns held)"
proof (induction ns arbitrary: held)
  case Nil
  show ?case by (simp only: lock_loops.simps) (rule keeps_ret)
next
  case (Cons n ns)
  then show ?case
    unfolding lock_loops.simps lock_loop_def Let_def
    by (intro keeps_intros handler_keeps; simp add: harmless)
qed

lemma unlock_keeps: "keeps P (unlock held)"
proof -
  have "keeps P (unlock_loops ns v held)" for ns v
    by (induction ns arbitrary: v; simp only: unlock_loops.simps;
        intro keeps_intros handler_keeps; simp add: harmless)
  then show ?thesis unfolding unlock_def by (intro keeps_intros)
qed

lemma with_locks_keeps [keeps_intros]:
  assumes "keeps P m"
  shows "keeps P (with_locks n m)"
  unfolding with_locks_def autolock_def
proof (rule keeps_bnd)
  show "keeps P (bnd (gets s_threads) (\<lambda>threads. lock_loops (Some n) [0..<threads] 0))"
    by (intro keeps_intros lock_loops_keeps)
  show "keeps P (\<lambda>s. case m s of (r, s') \<Rightarrow> (r, snd (unlock held s')))" for held
    using keepsD [OF assms] keepsD [OF unlock_keeps] by (intro keepsI) (simp add: case_prod_beta)
qed

lemma generate_id_keeps [handler_keeps]: "keeps P generate_id"
  by (rule keepsI) (auto simp: generate_id_def Let_def same_core_def elim!: frame)

lemma memory_keeps [handler_keeps]: "keeps P next_stale" "keeps P next_room"
  by (rule keepsI; auto simp: next_stale_def next_room_def same_core_def elim!: frame)+

lemma ring_keeps [handler_keeps]: "keeps P (ring_push q c)" "keeps P (ring_pop c)"
  unfolding ring_push_def ring_pop_def by (intro keeps_intros handler_keeps; simp add: harmless)+

lemma mapper_op_keeps [handler_keeps]: "keeps P (mapper_op m)"
  by (rule keepsI) (auto simp: mapper_op_def same_core_def elim!: frame split: prod.splits)

lemma find_queue_keeps [handler_keeps]: "keeps P (find_queue key)"
  by (rule keepsI) (simp add: find_queue_def)

lemma queue_at_keeps [handler_keeps]: "keeps P (queue_at n)"
  by (rule keepsI) (auto simp: queue_at_def)

lemma drops_keeps [handler_keeps]:
  "keeps P (tell_closed c)" "keeps P (drop_client m)" "keeps P (drop_worker c)"
  "keeps P (free_queue_line ql)"
  unfolding tell_closed_def drop_client_def drop_worker_def free_queue_line_def
  by (intro keeps_intros handler_keeps; simp add: harmless)+

lemma conn_json_keeps [handler_keeps]: "keeps P (conn_json c m)"
  unfolding conn_json_def by (intro keeps_intros handler_keeps; simp add: harmless)

lemma request_id_keeps [handler_keeps]: "keeps P (request_id c)"
  unfolding request_id_def scan_id_def by (intro keeps_intros handler_keeps; simp add: harmless)

lemma other_worker_keeps [handler_keeps]: "keeps P (other_worker c w)"
  unfolding other_worker_def by (intro keeps_intros handler_keeps; simp add: harmless)

lemma pick_worker_keeps [handler_keeps]: "keeps P (pick_worker c q r kept ws)"
  by (induction ws arbitrary: kept; simp only: pick_worker.simps; intro keeps_intros handler_keeps; simp add: harmless)

lemma find_worker_keeps [handler_keeps]: "keeps P (find_worker c q rs)"
  by (induction rs; simp only: find_worker.simps; intro keeps_intros handler_keeps)

lemma small_keeps [handler_keeps]:
  "keeps P (free_worker w)" "keeps P (return_worker q w)" "keeps P (attach w c)"
  "keeps P (wait_for sid c)"
  unfolding free_worker_def return_worker_def attach_def wait_for_def
  by (intro keeps_intros handler_keeps other_modify; simp add: harmless)+

lemma hand_over_keeps [handler_keeps]: "keeps P (hand_over q name c w)"
  unfolding hand_over_def by (intro keeps_intros handler_keeps; simp add: harmless)

lemma conn_gc_keeps [handler_keeps]: "keeps P (conn_gc c)"
  unfolding conn_gc_def by (intro keeps_intros handler_keeps; simp add: harmless)

lemma try_message_keeps [handler_keeps]: "keeps P (try_message w m)"
  unfolding try_message_def by (intro keeps_intros handler_keeps; simp add: harmless)

lemma wake_keeps [handler_keeps]: "keeps P (wake n)"
  unfolding wake_def open_fake_def by (intro keeps_intros handler_keeps other_modify; simp add: harmless)

lemma dead_message_keeps [handler_keeps]: "keeps P (dead_message m)"
  unfolding dead_message_def by (intro keeps_intros handler_keeps; simp add: harmless)

lemma clean_workers_keeps [handler_keeps]: "keeps P (clean_workers q r kept ws)"
  by (induction ws arbitrary: kept; simp only: clean_workers.simps; intro keeps_intros handler_keeps)

end

locale broker_invariant = conn_invariant +
  assumes get_queue [handler_keeps]: "keeps P (get_queue key b)"
    and forget_line [handler_keeps]: "keeps P (modify (\<lambda>s. s\<lparr>s_queue_list := (s_queue_list s)[n := None]\<rparr>))"
    and find_message [handler_keeps]: "keeps P (find_message w q rs)"
    and put_message [handler_keeps]:
      "keeps P (upd_queue_of q r (\<lambda>x. x\<lparr>q_clients := insert_message m (q_clients x)\<rparr>))"
    and clean_queue [handler_keeps]: "keeps P (clean_queue q r)"
    and add_connection_keeps [handler_keeps]: "keeps P (add_connection jk fd c)"
    and balance_keeps [handler_keeps]: "keeps P (balance clock usage)"
    and delete_connections [handler_keeps]: "keeps P (delete_connections n)"
    and migrate_one [handler_keeps]: "keeps P (migrate_one n c)"
begin

lemma delete_queue_keeps [handler_keeps]: "keeps P (delete_queue key)"
  unfolding delete_queue_def by (intro keeps_intros handler_keeps; simp add: harmless)

lemma enqueue_keeps [handler_keeps]: "keeps P (enqueue n q name c)"
  unfolding enqueue_def
  by (intro keeps_intros handler_keeps; simp add: harmless)

lemma client_request_keeps [handler_keeps]: "keeps P (client_request n name c)"
  unfolding client_request_def by (intro keeps_intros handler_keeps; simp add: harmless)

lemma give_message_keeps [handler_keeps]: "keeps P (give_message w m sid)"
  unfolding give_message_def by (intro keeps_intros handler_keeps; simp add: harmless)

lemma drop_stale_keeps [handler_keeps]: "keeps P (drop_stale w q r kept vs)"
  by (induction vs arbitrary: kept; simp only: drop_stale.simps; intro keeps_intros handler_keeps)

lemma wait_job_keeps [handler_keeps]: "keeps P (wait_job n q w)"
  unfolding wait_job_def by (intro keeps_intros handler_keeps; simp add: harmless)

lemma register_worker_keeps [handler_keeps]: "keeps P (register_worker q name w)"
  unfolding register_worker_def by (intro keeps_intros handler_keeps; simp add: harmless)

lemma add_one_worker_keeps [handler_keeps]: "keeps P (add_one_worker n name w)"
  unfolding add_one_worker_def Let_def by (intro keeps_intros handler_keeps; simp add: harmless)

lemma add_worker_loop_keeps: "keeps P (add_worker_loop n w part s)"
  by (induction s arbitrary: part; simp only: add_worker_loop.simps; intro keeps_intros handler_keeps)

lemma add_worker_keeps [handler_keeps]: "keeps P (add_worker n name w)"
  unfolding add_worker_def by (rule add_worker_loop_keeps)

lemma results_keeps [handler_keeps]:
  "keeps P (migrate w c)" "keeps P (worker_result i x)" "keeps P (worker_result_noid n w)"
  "keeps P (on_disconnect c)"
proof -
  show m: "keeps P (migrate w c)" for w c
    unfolding migrate_def by (intro keeps_intros handler_keeps; simp add: harmless)
  show r: "keeps P (worker_result i x)" for i x
    unfolding worker_result_def
    by (intro keeps_intros handler_keeps other_modify m; simp add: harmless)
  show "keeps P (worker_result_noid n w)"
    unfolding worker_result_noid_def by (intro keeps_intros handler_keeps m; simp add: harmless)
  show "keeps P (on_disconnect c)"
    unfolding on_disconnect_def by (intro keeps_intros handler_keeps other_modify r; simp add: harmless)
qed

lemma rpc_keeps [handler_keeps]:
  "keeps P (rpc_add c)" "keeps P (rpc_result i c)"
  unfolding rpc_add_def rpc_result_def by (intro keeps_intros handler_keeps; simp add: harmless)+

lemma new_dm_keeps [handler_keeps]: "keeps P (new_dm x)"
  by (rule keepsI) (auto simp: new_dm_def same_core_def elim!: frame)

lemma pub_keeps [handler_keeps]: "keeps P (pub c name)"
  unfolding pub_def pub_one_def give_dm_def by (intro keeps_intros handler_keeps; simp add: harmless)

lemma conn_queues_keeps [handler_keeps]:
  "keeps P (conn_create_queue name c)" "keeps P (conn_delete_queue name c)"
  unfolding conn_create_queue_def conn_delete_queue_def by (intro keeps_intros handler_keeps; simp add: harmless)+

lemma worker_ids_keeps [handler_keeps]: "keeps P (worker_ids ql)"
  by (rule keepsI) (auto simp: worker_ids_def Let_def)

lemma all_worker_ids_keeps [handler_keeps]: "keeps P (all_worker_ids qls)"
  by (induction qls; simp only: all_worker_ids.simps; intro keeps_intros handler_keeps)

lemma reports_keeps [handler_keeps]: "keeps P (send_help c)" "keeps P (send_details c)"
  unfolding send_help_def send_details_def by (intro keeps_intros handler_keeps; simp add: harmless)+

lemma requests_keeps [handler_keeps]:
  "keeps P (worker_mode_request c)" "keeps P (noid_request c)"
  unfolding worker_mode_request_def noid_request_def by (intro keeps_intros handler_keeps; simp add: harmless)+

lemma typed_keeps [handler_keeps]: "keeps P (typed_request c)"
  unfolding typed_request_def by (intro keeps_intros handler_keeps; simp add: harmless)

lemma call_method_keeps [handler_keeps]: "keeps P (call_method m i c)"
  unfolding call_method_def by (intro keeps_intros handler_keeps; simp add: harmless)

lemma rpc_call_keeps [handler_keeps]: "keeps P (rpc_call c)"
  unfolding rpc_call_def by (intro keeps_intros handler_keeps; simp add: harmless)

lemma complete_keeps [handler_keeps]: "keeps P (invalid_reply c)" "keeps P (complete c)"
  unfolding complete_def header_completed_def invalid_reply_def by (intro keeps_intros handler_keeps; simp add: harmless)+

lemma parse_keeps [handler_keeps]:
  "keeps P (read_method line c)" "keeps P (set_type x c)" "keeps P (set_step c st)"
  unfolding read_method_def set_type_def set_step_def Let_def by (intro keeps_intros handler_keeps; simp add: harmless)+

lemma read_header_keeps [handler_keeps]: "keeps P (read_header line c)"
  unfolding read_header_def by (intro keeps_intros handler_keeps; simp add: harmless)

lemma start_request_keeps [handler_keeps]: "keeps P (start_request c)"
  unfolding start_request_def by (intro keeps_intros handler_keeps; simp add: harmless)

lemma take_body_keeps [handler_keeps]:
  "keeps P (take_body c data)" "keeps P (finish_request c data)" "keeps P (read_line c data)"
  unfolding take_body_def finish_request_def read_line_def Let_def by (intro keeps_intros handler_keeps; simp add: harmless)+

lemma recv_lines_keeps [handler_keeps]: "keeps P (recv_lines fuel c data)"
  by (induction fuel arbitrary: data; simp only: recv_lines.simps Let_def; intro keeps_intros handler_keeps)

lemma recv_keeps [handler_keeps]:
  "keeps P (recv_end c data)" "keeps P (recv_requests c data)" "keeps P (recv_body c data)"
  "keeps P (on_recv c data)"
proof -
  show e: "keeps P (recv_end c data)" for data
    unfolding recv_end_def add_rest_def by (intro keeps_intros handler_keeps; simp add: harmless)
  show r: "keeps P (recv_requests c data)" for data
    unfolding recv_requests_def by (intro keeps_intros handler_keeps e; simp add: harmless)
  show b: "keeps P (recv_body c data)" for data
    unfolding recv_body_def Let_def by (intro keeps_intros handler_keeps r; simp add: harmless)
  show "keeps P (on_recv c data)"
    unfolding on_recv_def stale_option_def Let_def by (intro keeps_intros handler_keeps r b; simp add: harmless)
qed

lemma raw_send_keeps [handler_keeps]: "keeps P (raw_send c buf n)"
  unfolding raw_send_def by (intro keeps_intros handler_keeps; simp add: harmless)

lemma send_direct_keeps [handler_keeps]: "keeps P (send_direct c n d)"
  unfolding send_direct_def by (intro keeps_intros handler_keeps; simp add: harmless)

lemma on_send_keeps [handler_keeps]: "keeps P (on_send c n)"
  unfolding on_send_def by (intro keeps_intros handler_keeps; simp add: harmless)

lemma loop_close_keeps [handler_keeps]: "keeps P (loop_close n fd)"
  unfolding loop_close_def by (intro keeps_intros handler_keeps other_modify; simp add: harmless)

lemma perform_keeps [handler_keeps]: "keeps P (perform_to_send n)"
  unfolding perform_to_send_def by (intro keeps_intros handler_keeps; simp add: harmless)

lemma timeout_worker_keeps [handler_keeps]: "keeps P (timeout_worker now w)"
  unfolding timeout_worker_def by (intro keeps_intros handler_keeps; simp add: harmless)

lemma check_timeout_keeps [handler_keeps]: "keeps P check_timeout"
proof
  fix s assume s: "P s"
  have "keeps P (thn (modify (\<lambda>s. s\<lparr>s_global_locked := True\<rparr>))
      (thn (for_each qs (\<lambda>q. guard_ql q (bnd (get_ql q) (\<lambda>ql.
              for_each (ql_queue ql) (\<lambda>x. for_each (q_workers x) (timeout_worker now))))))
           (modify (\<lambda>s. s\<lparr>s_global_locked := False\<rparr>))))" for qs now
    by (intro keeps_intros handler_keeps other_modify; simp add: harmless)
  from keepsD [OF this s] s show "P (snd (check_timeout s))"
    unfolding check_timeout_def by simp
qed

lemma clean_keeps [handler_keeps]: "keeps P clean_dead_tasks"
  unfolding clean_dead_tasks_def clean_line_def by (intro keeps_intros handler_keeps; simp add: harmless)

lemma service_turn_keeps [handler_keeps]: "keeps P (service_start clock)" "keeps P (service_turn clock usage)"
  unfolding service_start_def service_turn_def free_memory_def
  by (intro keeps_intros handler_keeps other_modify; simp add: harmless)+

lemma server_accept_keeps [handler_keeps]: "keeps P (server_accept filters jk fd fl ip c)"
  unfolding server_accept_def unblock_socket_def by (intro keeps_intros handler_keeps; simp add: harmless)

lemma migrate_keeps [handler_keeps]: "keeps P (migrate_send n)" "keeps P (migrate_recv n)"
  unfolding migrate_send_def migrate_recv_def by (intro keeps_intros handler_keeps; simp add: harmless)+

lemma handle_keeps [handler_keeps]:
  "keeps P (handle_error c m)" if "keeps P m"
  unfolding handle_error_def by (intro keeps_intros handler_keeps that)

lemma handle_event_keeps [handler_keeps]: "keeps P (handle_event n fd ev)"
  unfolding handle_event_def handle_recv_def handle_send_def close_if_closed_def go_loop_def handle_error_def
  by (intro keeps_intros handler_keeps; simp add: harmless)

lemma handle_events_keeps [handler_keeps]: "keeps P (handle_events n evs need)"
  by (induction n evs need rule: handle_events.induct; simp only: handle_events.simps; intro keeps_intros handler_keeps)

lemma loop_turn_keeps [handler_keeps]: "keeps P (loop_turn n evs)"
  unfolding loop_turn_def loop_tail_def countdown_def by (intro keeps_intros handler_keeps; simp add: harmless)

lemma step_keeps: "broker_step s s' \<Longrightarrow> P s \<Longrightarrow> P s'"
proof (induction rule: broker_step.induct)
  case (turn n evs s r s')
  then show ?case by (blast intro: keepsD' [OF loop_turn_keeps])
next
  case (event n fd ev s r s')
  then show ?case by (blast intro: keepsD' [OF handle_event_keeps])
next
  case (accept filters jk fd fl ip c s r s')
  then show ?case by (blast intro: keepsD' [OF server_accept_keeps])
next
  case (start clock s r s')
  then show ?case by (blast intro: keepsD' [OF service_turn_keeps(1)])
next
  case (service clock usage s r s')
  then show ?case by (blast intro: keepsD' [OF service_turn_keeps(2)])
next
  case (time s now rnd junk socket)
  then show ?case by (rule frame) (simp add: same_core_def)
qed

lemma reachable_keeps: "reachable s0 s \<Longrightarrow> P s0 \<Longrightarrow> P s"
  by (induction rule: reachable.induct) (blast intro: step_keeps)+

end

section \<open>Invariants that do not look into the queues\<close>

locale blind_invariant = conn_invariant +
  assumes upd_queue_of: "keeps P (upd_queue_of q r f)"
    and new_line: "P s \<Longrightarrow> place_queue (new_queue_line (s_threads s) key) s = (x, s') \<Longrightarrow> P s'"
    and blind_forget: "keeps P (modify (\<lambda>s. s\<lparr>s_queue_list := (s_queue_list s)[n := None]\<rparr>))"
    and accepts: "keeps P (add_connection jk fd c)"
    and balances: "keeps P (balance clock usage)"
    and blind_delete: "keeps P (delete_connections n)"
    and blind_migrate: "keeps P (migrate_one n c)"
begin

lemma add_line:
  assumes "\<And>n. keeps P (f n)"
  shows "keeps P (bnd (gets s_threads) (\<lambda>threads. bnd (place_queue (new_queue_line threads key)) f))"
proof
  fix s assume s: "P s"
  obtain r s' where p: "place_queue (new_queue_line (s_threads s) key) s = (r, s')" by fastforce
  have "keeps P (bnd (lift_res r) f)" by (intro keeps_intros assms)
  from keepsD [OF this new_line [OF s p]] p
  show "P (snd (bnd (gets s_threads) (\<lambda>threads. bnd (place_queue (new_queue_line threads key)) f) s))"
    by (simp add: bnd_run)
qed

lemma get_queue_keeps: "keeps P (get_queue key b)"
proof -
  have "keeps P (bnd (gets s_threads) (\<lambda>threads. bnd (place_queue (new_queue_line threads key)) (\<lambda>n.
      thn (mapper_op (mapper_add key (n mod 65536))) (ret (Some (n - 1))))))"
    by (rule add_line) (intro keeps_intros handler_keeps)
  note keeps_if [OF queue_at_keeps this]
  note keeps_bnd [OF find_queue_keeps this]
  note guard_global_keeps [OF this]
  note keeps_if [OF queue_at_keeps keeps_if [OF keeps_ret this]]
  note keeps_bnd [OF find_queue_keeps this]
  then show ?thesis unfolding get_queue_def .
qed

lemma set_clients_keeps: "keeps P (set_clients q r ms)"
  unfolding set_clients_def by (rule upd_queue_of)

lemma pick_message_keeps: "keeps P (pick_message w q r kept ms)"
  by (induction ms arbitrary: kept; simp only: pick_message.simps;
      intro keeps_intros handler_keeps set_clients_keeps)

lemma find_message_keeps: "keeps P (find_message w q rs)"
  by (induction rs; simp only: find_message.simps; intro keeps_intros handler_keeps pick_message_keeps)

lemma clean_clients_keeps: "keeps P (clean_clients q r kept ms)"
  by (induction ms arbitrary: kept; simp only: clean_clients.simps;
      intro keeps_intros handler_keeps set_clients_keeps)

lemma clean_queue_keeps: "keeps P (clean_queue q r)"
  unfolding clean_queue_def by (intro keeps_intros handler_keeps clean_clients_keeps)

end

sublocale blind_invariant \<subseteq> broker_invariant P
  by unfold_locales
    (rule get_queue_keeps blind_forget find_message_keeps upd_queue_of clean_queue_keeps accepts balances
      blind_delete blind_migrate)+

end
