(* ===== verification/Broker_Order.thy ===== *)
theory Broker_Order imports Broker_Invariant begin

text \<open>
  The order of waiting requests: by priority, the highest first, and in the order of their arrival
  among equals. An invariant of every reachable state.
\<close>

section \<open>Inserting by priority\<close>

definition by_priority :: "message list \<Rightarrow> bool" where
  "by_priority ms = sorted_wrt (\<lambda>a b. msg_priority b \<le> msg_priority a) ms"

lemma insert_loop_eq:
  "insert_loop msg earlier after =
     rev (dropWhile (\<lambda>x. msg_priority x < msg_priority msg) earlier) @ msg #
     rev (takeWhile (\<lambda>x. msg_priority x < msg_priority msg) earlier) @ after"
  by (induction msg earlier after rule: insert_loop.induct) auto

lemma by_priority_append:
  "by_priority (xs @ ys) \<longleftrightarrow> by_priority xs \<and> by_priority ys \<and>
     (\<forall>x \<in> set xs. \<forall>y \<in> set ys. msg_priority y \<le> msg_priority x)"
  by (auto simp: by_priority_def sorted_wrt_append)

lemma by_priority_Cons:
  "by_priority (x # ys) \<longleftrightarrow> by_priority ys \<and> (\<forall>y \<in> set ys. msg_priority y \<le> msg_priority x)"
  by (auto simp: by_priority_def)

lemma by_priority_Nil [simp]: "by_priority []"
  by (simp add: by_priority_def)

lemma drop_low:
  "by_priority (rev ms) \<Longrightarrow>
   dropWhile (\<lambda>x. msg_priority x < p) ms = filter (\<lambda>x. p \<le> msg_priority x) ms \<and>
   takeWhile (\<lambda>x. msg_priority x < p) ms = filter (\<lambda>x. msg_priority x < p) ms"
proof (induction ms)
  case (Cons m ms)
  then have ih: "dropWhile (\<lambda>x. msg_priority x < p) ms = filter (\<lambda>x. p \<le> msg_priority x) ms"
    "takeWhile (\<lambda>x. msg_priority x < p) ms = filter (\<lambda>x. msg_priority x < p) ms"
    and le: "\<forall>x \<in> set ms. msg_priority m \<le> msg_priority x"
    by (auto simp: by_priority_append)
  show ?case
  proof (cases "msg_priority m < p")
    case True
    with ih show ?thesis by simp
  next
    case False
    with le have "filter (\<lambda>x. p \<le> msg_priority x) ms = ms" "filter (\<lambda>x. msg_priority x < p) ms = []"
      by (auto intro!: filter_True filter_False)
    with False show ?thesis by simp
  qed
qed simp

lemma insert_message_eq:
  assumes "by_priority ms"
  shows "insert_message msg ms =
    filter (\<lambda>x. msg_priority msg \<le> msg_priority x) ms @ msg #
    filter (\<lambda>x. msg_priority x < msg_priority msg) ms"
  using drop_low [of "rev ms" "msg_priority msg"] assms
  by (simp add: insert_message_def insert_loop_eq rev_filter [symmetric])

lemma by_priority_insert:
  assumes "by_priority ms"
  shows "by_priority (insert_message msg ms)"
proof -
  have f: "by_priority (filter P ms)" for P
    using assms unfolding by_priority_def by (rule sorted_wrt_filter)
  show ?thesis
    unfolding insert_message_eq [OF assms] using f by (auto simp: by_priority_append by_priority_Cons)
qed

section \<open>An invariant of every handler\<close>

definition ordered :: "server \<Rightarrow> bool" where
  "ordered s = (\<forall>ql. Some ql \<in> set (s_queue_list s) \<longrightarrow>
     (\<forall>x \<in> set (ql_queue ql). by_priority (q_clients x)))"

lemma ordered_same: "s_queue_list s' = s_queue_list s \<Longrightarrow> ordered s \<Longrightarrow> ordered s'"
  by (simp add: ordered_def)

lemma ordered_get_ql: "keeps ordered (get_ql q)"
  by (rule keepsI) (auto simp: get_ql_def split: option.splits)

lemma ordered_get_queue_of: "keeps ordered (get_queue_of q r)"
  unfolding get_queue_of_def by (intro keeps_intros ordered_get_ql)

lemma ordered_upd_ql:
  assumes "\<And>ql. \<forall>x \<in> set (ql_queue ql). by_priority (q_clients x) \<Longrightarrow>
    \<forall>x \<in> set (ql_queue (f ql)). by_priority (q_clients x)"
  shows "keeps ordered (upd_ql q f)"
proof
  fix s assume s: "ordered s"
  show "ordered (snd (upd_ql q f s))"
  proof (cases "get_ql q s")
    case (Pair r s')
    show ?thesis
    proof (cases r)
      case (Inl e)
      with Pair keepsD' [OF ordered_get_ql s Pair] show ?thesis by (simp add: upd_ql_def bnd_run)
    next
      case (Inr ql)
      note g = get_ql_Inr [OF Pair [unfolded Inr]]
      have "Some ql \<in> set (s_queue_list s)" using g(2,3) by (metis nth_mem)
      with s have "\<forall>x \<in> set (ql_queue ql). by_priority (q_clients x)" unfolding ordered_def by blast
      from assms [OF this] s g show ?thesis
        by (auto simp: upd_ql_def bnd_run Pair Inr ordered_def dest!: set_update_subset_insert [THEN subsetD])
    qed
  qed
qed

lemma get_queue_of_ordered:
  assumes "ordered s" and "get_queue_of q r s = (Inr x, s')"
  shows "by_priority (q_clients x)"
proof -
  from assms(2) obtain ql where "get_ql q s = (Inr ql, s)" "r < length (ql_queue ql)" "x = ql_queue ql ! r"
    by (auto simp: get_queue_of_def bnd_run dest: get_ql_Inr split: prod.splits sum.splits if_splits)
  with get_ql_Inr [OF this(1)] assms(1) show ?thesis unfolding ordered_def by (metis nth_mem)
qed

lemma ordered_upd_queue_of:
  assumes "\<And>x. by_priority (q_clients x) \<Longrightarrow> by_priority (q_clients (f x))"
  shows "keeps ordered (upd_queue_of q r f)"
  unfolding upd_queue_of_def
proof (rule keepsI)
  fix s assume s: "ordered s"
  show "ordered (snd (bnd (get_queue_of q r)
      (\<lambda>x. upd_ql q (\<lambda>ql. ql\<lparr>ql_queue := (ql_queue ql)[r := f x]\<rparr>)) s))"
  proof (cases "get_queue_of q r s")
    case (Pair z s')
    show ?thesis
    proof (cases z)
      case (Inl e)
      with Pair keepsD' [OF ordered_get_queue_of s Pair] show ?thesis by (simp add: bnd_run)
    next
      case (Inr x)
      have fx: "by_priority (q_clients (f x))"
        using assms get_queue_of_ordered [OF s Pair [unfolded Inr]] by blast
      have "keeps ordered (upd_ql q (\<lambda>ql. ql\<lparr>ql_queue := (ql_queue ql)[r := f x]\<rparr>))"
        by (rule ordered_upd_ql) (auto simp: fx dest!: set_update_subset_insert [THEN subsetD])
      from keepsD [OF this keepsD' [OF ordered_get_queue_of s Pair]] Pair Inr show ?thesis
        by (simp add: bnd_run)
    qed
  qed
qed

interpretation ord_conn: conn_invariant ordered
proof
  show "keeps ordered (upd_queue_of q r (\<lambda>x. x\<lparr>q_workers := k x\<rparr>))" for q r k
    by (rule ordered_upd_queue_of) simp
  show "keeps ordered (upd_ql q h)" if "\<And>ql. ql_queue (h ql) = ql_queue ql" for q h
    by (rule ordered_upd_ql) (simp add: that)
qed (auto simp: ordered_def same_core_def upd_c_def upd_loop_def intro!: keepsI split: option.splits)

text \<open>The places where the queued requests change.\<close>

lemma ordered_set_clients: "by_priority ms \<Longrightarrow> keeps ordered (set_clients q r ms)"
  unfolding set_clients_def by (rule ordered_upd_queue_of) simp

lemma ordered_with_queue:
  assumes "\<And>x. by_priority (q_clients x) \<Longrightarrow> keeps ordered (f x)"
  shows "keeps ordered (bnd (get_queue_of q r) f)"
proof
  fix s assume s: "ordered s"
  show "ordered (snd (bnd (get_queue_of q r) f s))"
  proof (cases "get_queue_of q r s")
    case (Pair z s')
    show ?thesis
    proof (cases z)
      case (Inl e)
      with Pair keepsD' [OF ordered_get_queue_of s Pair] show ?thesis by (simp add: bnd_run)
    next
      case (Inr x)
      have "keeps ordered (f x)" using assms get_queue_of_ordered [OF s Pair [unfolded Inr]] by blast
      from keepsD [OF this keepsD' [OF ordered_get_queue_of s Pair]] Pair Inr show ?thesis
        by (simp add: bnd_run)
    qed
  qed
qed

lemma ordered_pick_message:
  "by_priority (kept @ ms) \<Longrightarrow> keeps ordered (pick_message w q r kept ms)"
proof (induction ms arbitrary: kept)
  case Nil
  show ?case by (simp only: pick_message.simps) (rule keeps_ret)
next
  case (Cons m ms)
  have "by_priority (kept @ ms)" "by_priority ((kept @ [m]) @ ms)"
    using Cons.prems by (auto simp: by_priority_append by_priority_Cons)
  with Cons.IH [of kept] Cons.IH [of "kept @ [m]"] show ?case
    by (simp only: pick_message.simps) (intro keeps_intros handler_keeps ordered_set_clients; simp)
qed

lemma ordered_find_message [handler_keeps]: "keeps ordered (find_message w q rs)"
proof (induction rs)
  case Nil
  show ?case by (simp only: find_message.simps) (rule keeps_ret)
next
  case (Cons r rs)
  then show ?case
    by (simp only: find_message.simps)
       (intro ordered_with_queue keeps_intros ordered_pick_message; simp)
qed

lemma ordered_clean_clients: "by_priority (kept @ ms) \<Longrightarrow> keeps ordered (clean_clients q r kept ms)"
proof (induction ms arbitrary: kept)
  case Nil
  show ?case by (simp only: clean_clients.simps) (rule keeps_ret)
next
  case (Cons m ms)
  have "by_priority (kept @ ms)" "by_priority ((kept @ [m]) @ ms)"
    using Cons.prems by (auto simp: by_priority_append by_priority_Cons)
  with Cons.IH [of kept] Cons.IH [of "kept @ [m]"] show ?case
    by (simp only: clean_clients.simps) (intro keeps_intros handler_keeps ordered_set_clients; simp)
qed

lemma ordered_clean_queue [handler_keeps]: "keeps ordered (clean_queue q r)"
  unfolding clean_queue_def
proof (rule keeps_thn)
  show "keeps ordered (bnd (get_queue_of q r) (\<lambda>x. clean_workers q r [] (q_workers x)))"
    by (intro keeps_intros handler_keeps)
  show "keeps ordered (bnd (get_queue_of q r) (\<lambda>x. clean_clients q r [] (q_clients x)))"
    by (intro ordered_with_queue ordered_clean_clients) simp
qed

lemma ordered_place_queue [handler_keeps]: "keeps ordered (place_queue (new_queue_line n key))"
proof
  fix s assume s: "ordered s"
  have e: "\<forall>x \<in> set (ql_queue (new_queue_line n key)). by_priority (q_clients x)"
    by (simp add: new_queue_line_def)
  from s e show "ordered (snd (place_queue (new_queue_line n key) s))"
    by (auto simp: place_queue_def ordered_def split: option.splits if_splits
        dest!: set_update_subset_insert [THEN subsetD])
qed

lemma ordered_get_queue: "keeps ordered (get_queue key b)"
  unfolding get_queue_def Let_def by (intro keeps_intros handler_keeps ordered_place_queue)

lemma ordered_upd_loop: "keeps ordered (upd_loop n f)"
  by (rule keepsI) (auto simp: upd_loop_def ordered_def)

lemma ordered_accept: "keeps ordered (add_connection jk fd c)"
  by (rule keepsI) (auto simp: add_connection_def loop_accept_def ordered_def prog_simps whenp_def conn_link_def
      get_c_def upd_c_def upd_loop_def get_loop_def split: option.splits prod.splits sum.splits if_splits)

lemma ordered_balance: "keeps ordered (balance clock usage)"
  unfolding balance_def by (intro keeps_intros keeps_modify; simp add: ordered_def)

interpretation ord: broker_invariant ordered
proof
  show "keeps ordered (delete_connections n)" for n
    unfolding delete_connections_def
    by (intro keeps_intros handler_keeps keeps_modify; simp add: harmless ordered_def)
  show "keeps ordered (migrate_one n c)" for n c
    unfolding migrate_one_def loop_accept_def
    by (intro keeps_intros ordered_upd_loop handler_keeps; simp add: harmless)
qed (auto simp: ordered_def dest!: set_update_subset_insert [THEN subsetD]
      intro!: ordered_get_queue ordered_find_message ordered_clean_queue ordered_accept ordered_balance
        keeps_modify ordered_upd_queue_of by_priority_insert)

section \<open>Properties\<close>

text \<open>
  Claim C5. In every state the broker can reach, the requests waiting in each queue are ordered by
  priority, the highest first.
\<close>

theorem reachable_ordered:
  assumes "reachable (new_server threads jsonrpc2 version now rnd jnk mem) s"
  shows "\<forall>ql. Some ql \<in> set (s_queue_list s) \<longrightarrow> (\<forall>x \<in> set (ql_queue ql).
    sorted_wrt (\<lambda>a b. msg_priority b \<le> msg_priority a) (q_clients x))"
proof -
  have "ordered s"
    using assms by (rule ord.reachable_keeps) (simp add: ordered_def new_server_def)
  then show ?thesis by (simp add: ordered_def by_priority_def)
qed

theorem reachable_ordered_witness:
  "\<exists>s. reachable (new_server 1 False ''1'' 0 (\<lambda>_. 0) 0 calm_memory) s \<and> s_now s = 5 \<and> ordered s"
proof -
  let ?s0 = "new_server 1 False ''1'' 0 (\<lambda>_. 0) 0 calm_memory"
  have "broker_step ?s0 (?s0\<lparr>s_now := 5, s_rand := (\<lambda>_. 0), s_junk := 0, s_socket := 3\<rparr>)" by (rule broker_step.time)
  with reachable.init have r: "reachable ?s0 (?s0\<lparr>s_now := 5, s_rand := (\<lambda>_. 0), s_junk := 0, s_socket := 3\<rparr>)"
    by (rule reachable.step)
  from reachable_ordered [OF r] r show ?thesis
    by (intro exI [of _ "?s0\<lparr>s_now := 5, s_rand := (\<lambda>_. 0), s_junk := 0, s_socket := 3\<rparr>"])
      (simp add: ordered_def by_priority_def)
qed

end
