(* ===== verification/Broker_Dispatch.thy ===== *)
theory Broker_Dispatch imports Broker_Runs Broker_Order begin

text \<open>
  The matching of requests with workers. A worker chosen for a request was waiting, open and the one the
  request asks for; a request chosen for a worker belongs to an open client that waits for it. Then what
  each side receives, and where a request stands that finds no worker.
\<close>

section \<open>Searching changes nothing but links\<close>

definition alike :: "server \<Rightarrow> server \<Rightarrow> bool" where
  "alike s s' = (\<forall>c. map_option (\<lambda>r. r\<lparr>c_link := 0\<rparr>) (s_conns s' c) = map_option (\<lambda>r. r\<lparr>c_link := 0\<rparr>) (s_conns s c))"

lemma alike_refl [simp]: "alike s s"
  by (simp add: alike_def)

lemma alike_trans: "alike s s1 \<Longrightarrow> alike s1 s2 \<Longrightarrow> alike s s2"
  by (simp add: alike_def)

lemma alike_same: "s_conns s' = s_conns s \<Longrightarrow> alike s0 s \<Longrightarrow> alike s0 s'"
  by (simp add: alike_def)

lemma unlinked_eqD:
  assumes "r\<lparr>c_link := 0\<rparr> = r'\<lparr>c_link := 0\<rparr>"
  shows "c_status r' = c_status r" "is_closed r' = is_closed r" "c_connection_id r' = c_connection_id r"
    "c_required_worker r' = c_required_worker r" "c_send_buffer r' = c_send_buffer r" "c_noid r' = c_noid r"
    "c_body r' = c_body r" "c_id r' = c_id r"
  using arg_cong [OF assms, of c_status] arg_cong [OF assms, of c_socket_status]
    arg_cong [OF assms, of c_connection_id] arg_cong [OF assms, of c_required_worker]
    arg_cong [OF assms, of c_send_buffer] arg_cong [OF assms, of c_noid]
    arg_cong [OF assms, of c_body] arg_cong [OF assms, of c_id]
  by (simp_all add: is_closed_def)

lemma alikeE:
  assumes "alike s s'" and "s_conns s' c = Some r'"
  obtains r where "s_conns s c = Some r" "c_status r' = c_status r" "is_closed r' = is_closed r"
    "c_connection_id r' = c_connection_id r" "c_required_worker r' = c_required_worker r"
    "c_send_buffer r' = c_send_buffer r" "c_noid r' = c_noid r" "c_body r' = c_body r" "c_id r' = c_id r"
proof -
  from assms obtain r where r: "s_conns s c = Some r" "r\<lparr>c_link := 0\<rparr> = r'\<lparr>c_link := 0\<rparr>"
    unfolding alike_def by (metis (no_types, lifting) option.map_disc_iff option.map_sel option.exhaust_sel option.sel option.discI)
  from that [OF r(1) unlinked_eqD [OF r(2)]] show thesis .
qed

lemma alike_upd_ql: "keeps (alike s0) (upd_ql q f)"
  by (rule keepsI) (auto simp: upd_ql_def bnd_run get_ql_def elim: alike_same [rotated] split: option.splits)

lemma alike_unlink: "keeps (alike s0) (conn_unlink w)"
proof -
  have "keeps (alike s0) (upd_c w (\<lambda>r. r\<lparr>c_link := c_link r - 1\<rparr>))"
    by (rule keepsI) (auto simp: upd_c_def alike_def split: option.splits dest: spec [of _ w])
  moreover have "keeps (alike s0) (upd_loop n f)" for n f
    by (rule keepsI) (auto simp: upd_loop_def elim: alike_same [rotated])
  moreover have "keeps (alike s0) (get_c w)"
    by (rule keepsI) (auto simp: get_c_def split: option.splits)
  ultimately show ?thesis unfolding conn_unlink_def by (intro keeps_intros; blast)
qed

lemma alike_get_queue_of: "keeps (alike s0) (get_queue_of q r)"
  unfolding get_queue_of_def
  by (intro keeps_intros) (auto intro!: keepsI simp: get_ql_def split: option.splits)

lemma alike_set_workers: "keeps (alike s0) (set_workers q r ws)"
  unfolding set_workers_def upd_queue_of_def by (intro keeps_intros alike_upd_ql alike_get_queue_of)

lemma alike_set_clients: "keeps (alike s0) (set_clients q r ms)"
  unfolding set_clients_def upd_queue_of_def by (intro keeps_intros alike_upd_ql alike_get_queue_of)

section \<open>A worker for a request\<close>

text \<open>\<open>w\<close> has been taken for \<open>c\<close>: after the search, which changed only links, it was fit and became busy.\<close>

definition fit :: "connect \<Rightarrow> connect \<Rightarrow> bool" where
  "fit client worker = (c_status worker = Worker_wait_job \<and> \<not> is_closed worker \<and>
     (c_required_worker client = [] \<or> c_required_worker client = c_connection_id worker))"

definition taken :: "server \<Rightarrow> nat \<Rightarrow> nat \<Rightarrow> server \<Rightarrow> bool" where
  "taken s c w s' = (\<exists>s1 rc rw. alike s s1 \<and> s_conns s1 c = Some rc \<and> s_conns s1 w = Some rw \<and> fit rc rw \<and>
     s' = put_c w (rw\<lparr>c_status := Busy\<rparr>) s1)"

lemma taken_alike: "alike s s1 \<Longrightarrow> taken s1 c w s' \<Longrightarrow> taken s c w s'"
  unfolding taken_def by (blast intro: alike_trans)

lemma other_worker_cases:
  assumes "other_worker c w s = (x, s')"
  shows "s' = s" and "x = Inr False \<Longrightarrow> \<exists>rc. s_conns s c = Some rc \<and> (c_required_worker rc = [] \<or>
    (\<exists>rw. s_conns s w = Some rw \<and> c_required_worker rc = c_connection_id rw))"
  using assms by (auto simp: other_worker_def get_c_def bnd_run split: option.splits if_splits)

lemma thn_InrE:
  assumes "thn m n s = (Inr x, s')"
  obtains y s1 where "m s = (Inr y, s1)" "n s1 = (Inr x, s')"
  using assms by (auto simp: thn_run split: prod.splits sum.splits)

lemma bnd_InrE:
  assumes "bnd m f s = (Inr x, s')"
  obtains y s1 where "m s = (Inr y, s1)" "f y s1 = (Inr x, s')"
  using assms by (auto simp: bnd_run split: prod.splits sum.splits)

lemma get_c_InrE:
  assumes "get_c c s = (Inr r, s')"
  shows "s' = s" "s_conns s c = Some r"
  using assms by (auto simp: get_c_def split: option.splits)

lemma pick_worker_taken:
  "pick_worker c q r kept ws s = (Inr x, s') \<Longrightarrow>
   (case x of None \<Rightarrow> alike s s' | Some w \<Rightarrow> w \<in> set ws \<and> taken s c w s')"
proof (induction ws arbitrary: kept s)
  case Nil
  then show ?case by auto
next
  case (Cons w ws)
  from Cons.prems obtain other s1 where o: "other_worker c w s = (Inr other, s1)"
    and rest: "(if other then pick_worker c q r (kept @ [w]) ws
     else thn (set_workers q r (kept @ ws))
         (thn (conn_unlink w)
         (bnd (get_c w) (\<lambda>worker.
          if is_closed worker then pick_worker c q r kept ws
          else if c_status worker \<noteq> Worker_wait_job then pick_worker c q r kept ws
          else thn (upd_c w (\<lambda>r. r\<lparr>c_status := Busy\<rparr>)) (ret (Some w)))))) s1 = (Inr x, s')"
    by (auto elim: bnd_InrE)
  note o1 = other_worker_cases [OF o]
  show ?case
  proof (cases other)
    case True
    with rest o1 Cons.IH [of "kept @ [w]" s] show ?thesis by (auto split: option.splits)
  next
    case False
    with rest obtain u s2 v s3 worker s4 where s2: "set_workers q r (kept @ ws) s = (Inr u, s2)"
      and s3: "conn_unlink w s2 = (Inr v, s3)" and s4: "get_c w s3 = (Inr worker, s4)"
      and tl: "(if is_closed worker then pick_worker c q r kept ws
          else if c_status worker \<noteq> Worker_wait_job then pick_worker c q r kept ws
          else thn (upd_c w (\<lambda>r. r\<lparr>c_status := Busy\<rparr>)) (ret (Some w))) s4 = (Inr x, s')"
      using o1 by (auto elim!: thn_InrE bnd_InrE)
    note g = get_c_InrE [OF s4]
    have "alike s s2" using keepsD' [OF alike_set_workers alike_refl s2] .
    from keepsD' [OF alike_unlink this s3] have a: "alike s s3" .
    show ?thesis
    proof (cases "is_closed worker \<or> c_status worker \<noteq> Worker_wait_job")
      case True
      with tl g have "pick_worker c q r kept ws s3 = (Inr x, s')" by (auto split: if_splits)
      from Cons.IH [OF this] a show ?thesis by (auto intro: alike_trans taken_alike split: option.splits)
    next
      case False
      with tl g have x: "x = Some w" "s' = put_c w (worker\<lparr>c_status := Busy\<rparr>) s3"
        by (auto simp: thn_run runs)
      from o1(2) \<open>\<not> other\<close> obtain rc0 where rc0: "s_conns s c = Some rc0"
        "c_required_worker rc0 = [] \<or> (\<exists>rw. s_conns s w = Some rw \<and> c_required_worker rc0 = c_connection_id rw)"
        using o by auto
      from a rc0 obtain rc where rc: "s_conns s3 c = Some rc" unfolding alike_def
        by (metis option.map_disc_iff option.exhaust)
      from alikeE [OF a rc] rc0(1) have req: "c_required_worker rc = c_required_worker rc0" by auto
      from alikeE [OF a g(2)] obtain rw where "s_conns s w = Some rw" "c_connection_id worker = c_connection_id rw"
        by metis
      with rc0(2) req False have "fit rc worker" by (auto simp: fit_def)
      with a rc g x show ?thesis by (auto simp: taken_def)
    qed
  qed
qed

lemma get_queue_of_InrE:
  assumes "get_queue_of q r s = (Inr x, s')"
  shows "s' = s"
  using assms by (auto simp: get_queue_of_def bnd_run get_ql_def split: option.splits if_splits)

lemma find_worker_taken:
  "find_worker c q rs s = (Inr x, s') \<Longrightarrow> (case x of None \<Rightarrow> alike s s' | Some w \<Rightarrow> taken s c w s')"
proof (induction rs arbitrary: s)
  case Nil
  then show ?case by auto
next
  case (Cons r rs)
  from Cons.prems obtain z s0 where z: "get_queue_of q r s = (Inr z, s0)"
    and m: "bnd (pick_worker c q r [] (q_workers z)) (\<lambda>w. case w of
       Some w \<Rightarrow> ret (Some w) | None \<Rightarrow> find_worker c q rs) s0 = (Inr x, s')"
    by (auto elim: bnd_InrE)
  from m obtain v s1 where p: "pick_worker c q r [] (q_workers z) s = (Inr v, s1)"
    and rest: "(case v of Some w \<Rightarrow> ret (Some w) | None \<Rightarrow> find_worker c q rs) s1 = (Inr x, s')"
    unfolding get_queue_of_InrE [OF z] by (rule bnd_InrE)
  note pt = pick_worker_taken [OF p]
  show ?case
  proof (cases v)
    case None
    with rest pt Cons.IH [of s1] show ?thesis by (auto intro: alike_trans taken_alike split: option.splits)
  next
    case (Some w)
    with rest pt show ?thesis by auto
  qed
qed

section \<open>A request for a worker\<close>

text \<open>While a request is looked for, clients only stop waiting, the requests of those that wait and the identities of
  workers stay, and nobody else comes to wait for a result.\<close>

definition calm :: "server \<Rightarrow> server \<Rightarrow> bool" where
  "calm s s' = (s_wait_response s' = s_wait_response s \<and>
     (\<forall>c r'. s_conns s' c = Some r' \<longrightarrow> (\<exists>r. s_conns s c = Some r \<and>
     c_connection_id r' = c_connection_id r \<and> c_noid r' = c_noid r \<and>
     (c_status r' = Client_wait_result \<and> \<not> is_closed r' \<longrightarrow>
        c_status r = Client_wait_result \<and> \<not> is_closed r \<and> c_id r' = c_id r \<and> c_json r' = c_json r))))"

definition calm_upd :: "(connect \<Rightarrow> connect) \<Rightarrow> bool" where
  "calm_upd f = (\<forall>r. c_connection_id (f r) = c_connection_id r \<and> c_noid (f r) = c_noid r \<and>
     c_id (f r) = c_id r \<and> c_json (f r) = c_json r \<and>
     (c_status (f r) = Client_wait_result \<longrightarrow> c_status r = Client_wait_result) \<and> (is_closed r \<longrightarrow> is_closed (f r)))"

lemma calm_refl [simp]: "calm s s"
  by (simp add: calm_def)

lemma calm_trans: "calm s s1 \<Longrightarrow> calm s1 s2 \<Longrightarrow> calm s s2"
  unfolding calm_def by metis

lemma calm_same: "s_conns s' = s_conns s \<Longrightarrow> s_wait_response s' = s_wait_response s \<Longrightarrow> calm s0 s \<Longrightarrow> calm s0 s'"
  by (simp add: calm_def)

named_theorems calm_keeps

lemma calm_upd_c [calm_keeps]: "calm_upd f \<Longrightarrow> keeps (calm s0) (upd_c c f)"
proof (rule keepsI)
  fix s assume f: "calm_upd f" and s: "calm s0 s"
  have "calm s (snd (upd_c c f s))"
    using f by (auto simp: calm_def calm_upd_def upd_c_def split: option.splits)
  with s show "calm s0 (snd (upd_c c f s))" by (rule calm_trans)
qed

lemma calm_reads [calm_keeps]:
  "keeps (calm s0) (get_c c)" "keeps (calm s0) (get_ql q)" "keeps (calm s0) (upd_loop n f)"
  "keeps (calm s0) (upd_ql q g)" "keeps (calm s0) (gc_add x)"
  by (rule keepsI; auto simp: get_c_def get_ql_def upd_loop_def upd_ql_def bnd_run gc_add_def
      elim!: calm_same [rotated 2] split: option.splits)+

lemma calm_set_clients [calm_keeps]: "keeps (calm s0) (set_clients q r ms)"
  unfolding set_clients_def upd_queue_of_def get_queue_of_def by (intro keeps_intros calm_keeps)

lemma closed_or: "is_closed r \<Longrightarrow> or (c_socket_status r) 2 = - 1"
  by (simp add: is_closed_def)

lemmas calm_simps = calm_upd_def closed_or is_closed_def

lemma calm_write_mode [calm_keeps]: "keeps (calm s0) (write_mode True c)"
proof (rule keepsI)
  fix s assume s: "calm s0 s"
  have "calm s (snd (write_mode True c s))"
    by (auto simp: write_mode_def bnd_run thn_run get_c_def upd_c_def upd_loop_def Let_def calm_def is_closed_def
        split: option.splits)
  with s show "calm s0 (snd (write_mode True c s))" by (rule calm_trans)
qed

lemma calm_reply [calm_keeps]: "keeps (calm s0) (reply c st err)"
  unfolding reply_def send_status_def send_done_code_def send_done_def send_done_body_def add_send_def
  by (intro keeps_intros calm_keeps; simp add: calm_simps)

text \<open>What names a request: its own id, else the one in its body, else a new one.\<close>

definition body_id :: "connect \<Rightarrow> bytes" where
  "body_id r = (case fst (json_find ''id'' (c_json r)) of Inr (Some i) \<Rightarrow> i | _ \<Rightarrow> [])"

definition named_by :: "connect \<Rightarrow> bytes \<Rightarrow> bool" where
  "named_by r sid = (if c_id r \<noteq> [] then sid = c_id r else if body_id r \<noteq> [] then sid = body_id r
     else (\<exists>s. fst (generate_id s) = Inr sid))"

lemma scan_id_effect:
  assumes "s_conns s c = Some r" and "scan_id c s = (x, s')"
  shows "\<exists>r'. s' = put_c c r' s \<and> r'\<lparr>c_id := c_id r, c_json := c_json r\<rparr> = r \<and>
    (\<forall>i. x = Inr i \<longrightarrow> i = body_id r \<and> (i \<noteq> [] \<longrightarrow> c_id r' = i))"
proof -
  obtain v j where j: "json_find ''id'' (c_json r) = (v, j)" by fastforce
  have run: "conn_json c (json_find ''id'') s = (v, put_c c (r\<lparr>c_json := j\<rparr>) s)"
    using assms(1) j by (cases v) (simp_all add: conn_json_def bnd_run thn_run runs)
  have same: "r\<lparr>c_json := j\<rparr>\<lparr>c_id := c_id r, c_json := c_json r\<rparr> = r"
    "r\<lparr>c_json := j, c_id := i\<rparr>\<lparr>c_id := c_id r, c_json := c_json r\<rparr> = r" for i by (cases r; simp)+
  show ?thesis
  proof (cases v)
    case (Inl e)
    with assms(2) run have "x = Inl e" "s' = put_c c (r\<lparr>c_json := j\<rparr>) s" by (simp_all add: scan_id_def bnd_run)
    with same(1) show ?thesis by blast
  next
    case (Inr o')
    show ?thesis
    proof (cases o')
      case None
      with assms(2) run Inr have "x = Inr []" "s' = put_c c (r\<lparr>c_json := j\<rparr>) s" by (simp_all add: scan_id_def bnd_run)
      moreover have "body_id r = []" using j Inr None by (simp add: body_id_def)
      ultimately show ?thesis using same(1) by (intro exI [of _ "r\<lparr>c_json := j\<rparr>"]) simp
    next
      case (Some i)
      with assms(2) run Inr have "x = Inr i" "s' = put_c c (r\<lparr>c_json := j, c_id := i\<rparr>) s"
        by (simp_all add: scan_id_def bnd_run thn_run runs)
      moreover have "body_id r = i" using j Inr Some by (simp add: body_id_def)
      ultimately show ?thesis using same(2) by (intro exI [of _ "r\<lparr>c_json := j, c_id := i\<rparr>"]) simp
    qed
  qed
qed

text \<open>Finding the id touches the id and the scanner of that request, and the counter of new ids.\<close>

lemma request_id_effect:
  assumes "s_conns s c = Some r" and "request_id c s = (x, s')"
  shows "\<exists>r'. s_conns s' = (s_conns s)(c \<mapsto> r') \<and> s_wait_response s' = s_wait_response s \<and>
    r'\<lparr>c_id := c_id r, c_json := c_json r\<rparr> = r \<and> (\<forall>sid. x = Inr (Some sid) \<longrightarrow> c_id r' = sid \<and> named_by r sid)"
proof (cases "c_id r = []")
  case False
  with assms have "s' = s" "x = Inr (Some (c_id r))" by (simp_all add: request_id_def bnd_run runs)
  moreover have "r\<lparr>c_id := c_id r, c_json := c_json r\<rparr> = r" by (cases r) simp
  ultimately show ?thesis using assms(1) False by (intro exI [of _ r]) (simp add: named_by_def fun_upd_idem)
next
  case True
  obtain v s1 where v: "scan_id c s = (v, s1)" by fastforce
  from scan_id_effect [OF assms(1) v] obtain r1 where r1: "s1 = put_c c r1 s" "r1\<lparr>c_id := c_id r, c_json := c_json r\<rparr> = r"
    and i: "\<And>i. v = Inr i \<Longrightarrow> i = body_id r \<and> (i \<noteq> [] \<longrightarrow> c_id r1 = i)" by blast
  note start = bnd_Inr [where m = "get_c c", OF get_c_run [OF assms(1)]]
  show ?thesis
  proof (cases "v = Inr []")
    case True
    obtain g s2 where g: "generate_id s1 = (Inr g, s2)" by (simp add: generate_id_def Let_def)
    have s2: "s_conns s2 = s_conns s1" "s_wait_response s2 = s_wait_response s1"
      using g by (auto simp: generate_id_def Let_def)
    have "x = Inr (Some g)" "s' = put_c c (r1\<lparr>c_id := g\<rparr>) s2"
      using assms(2) \<open>c_id r = []\<close> v True g r1(1) s2(1) unfolding request_id_def start
      by (simp_all add: catch_invalid_def bnd_run thn_run runs)
    moreover have "named_by r g" using i [OF True] \<open>c_id r = []\<close> g by (auto simp: named_by_def intro: exI [of _ s1])
    moreover have "r1\<lparr>c_id := g\<rparr>\<lparr>c_id := c_id r, c_json := c_json r\<rparr> = r" using r1(2) by simp
    ultimately show ?thesis using s2 r1(1) by (intro exI [of _ "r1\<lparr>c_id := g\<rparr>"]) (simp add: put_c_def)
  next
    case False
    have "s' = s1 \<and> (\<forall>sid. x = Inr (Some sid) \<longrightarrow> v = Inr sid \<and> sid \<noteq> [])"
      using assms(2) \<open>c_id r = []\<close> v False unfolding request_id_def start
      by (auto simp: catch_invalid_def bnd_run split: sum.splits exn.splits if_splits)
    with i r1 \<open>c_id r = []\<close> show ?thesis
      by (intro exI [of _ r1]) (auto simp: named_by_def put_c_def)
  qed
qed

lemma upd_same: "r'\<lparr>c_id := i, c_json := j\<rparr> = r \<Longrightarrow> c_status r' = c_status r \<and> is_closed r' = is_closed r \<and>
  c_connection_id r' = c_connection_id r \<and> c_noid r' = c_noid r"
  by (auto simp: is_closed_def)

lemma calm_busy:
  assumes "s_conns s c = Some r" and "c_connection_id r' = c_connection_id r" and "c_noid r' = c_noid r"
    and "c_status r' \<noteq> Client_wait_result" and "s_conns s' = (s_conns s)(c \<mapsto> r')" and "s_wait_response s' = s_wait_response s"
  shows "calm s s'"
  using assms by (auto simp: calm_def)

lemma calm_answer: "keeps (calm s0) (case i of
    None \<Rightarrow> thn (reply c ''400 No Id'' (- 1)) (ret None)
  | Some sid \<Rightarrow> bnd (gets s_wait_response) (\<lambda>wait.
      if wait sid \<noteq> None
      then thn (reply c ''400 Collision Id'' (- 1)) (thn (upd_c c (\<lambda>r. r\<lparr>c_status := Net\<rparr>)) (ret None))
      else ret (Some sid)))"
  by (intro keeps_intros calm_keeps; simp add: calm_simps)

text \<open>\<open>msg\<close> has been chosen for \<open>w\<close>, with the identifier \<open>sid\<close>.\<close>

definition given :: "server \<Rightarrow> connect \<Rightarrow> message \<Rightarrow> bytes \<Rightarrow> server \<Rightarrow> bool" where
  "given s rw msg sid s' = (case msg_conn msg of None \<Rightarrow> sid = []
     | Some c \<Rightarrow> \<exists>rc rc'. s_conns s c = Some rc \<and> c_status rc = Client_wait_result \<and> \<not> is_closed rc \<and>
         s_conns s' c = Some rc' \<and> c_status rc' = Busy \<and>
         (if c_noid rw then sid = [] else c_id rc' = sid \<and> named_by rc sid \<and> s_wait_response s' sid = None))"

definition chosen :: "server \<Rightarrow> nat \<Rightarrow> message \<Rightarrow> bytes \<Rightarrow> server \<Rightarrow> bool" where
  "chosen s w msg sid s' = (\<exists>rw. s_conns s w = Some rw \<and>
     (msg_required msg = [] \<or> msg_required msg = c_connection_id rw) \<and> given s rw msg sid s' \<and>
     s_wait_response s' = s_wait_response s)"

lemma calm_given:
  assumes a: "calm s s1" and g: "given s1 rw msg sid s'" and "c_noid rw' = c_noid rw"
  shows "given s rw' msg sid s'"
proof (cases "msg_conn msg")
  case None
  with g show ?thesis by (simp add: given_def)
next
  case (Some c)
  with g obtain rc rc' where rc: "s_conns s1 c = Some rc" "c_status rc = Client_wait_result" "\<not> is_closed rc"
    "s_conns s' c = Some rc'" "c_status rc' = Busy"
    "if c_noid rw then sid = [] else c_id rc' = sid \<and> named_by rc sid \<and> s_wait_response s' sid = None"
    by (auto simp: given_def)
  from a rc(1-3) obtain r where r: "s_conns s c = Some r" "c_status r = Client_wait_result" "\<not> is_closed r"
    and "c_id rc = c_id r" "c_json rc = c_json r" unfolding calm_def by blast
  then have "named_by rc sid = named_by r sid" by (simp add: named_by_def body_id_def)
  with rc r Some assms(3) show ?thesis by (auto simp: given_def)
qed

lemma calm_chosen:
  assumes a: "calm s s1" and c: "chosen s1 w msg sid s'"
  shows "chosen s w msg sid s'"
proof -
  from c obtain rw where rw: "s_conns s1 w = Some rw" "msg_required msg = [] \<or> msg_required msg = c_connection_id rw"
    "given s1 rw msg sid s'" "s_wait_response s' = s_wait_response s1"
    unfolding chosen_def by blast
  from a rw(1) obtain r where "s_conns s w = Some r" "c_connection_id rw = c_connection_id r" "c_noid r = c_noid rw"
    unfolding calm_def by metis
  moreover have "s_wait_response s1 = s_wait_response s" using a by (simp add: calm_def)
  ultimately show ?thesis using rw(2,4) calm_given [OF a rw(3)] unfolding chosen_def by auto
qed

lemma bnd_lift: "m s = (x, s1) \<Longrightarrow> bnd m f s = bnd (lift_res x) f s1"
  by (cases x) (simp_all add: bnd_def)

text \<open>A request that is tried: nothing is disturbed, and when it is taken it is given away.\<close>

lemma try_message_outcome:
  assumes run: "try_message w msg s = (x, s')"
  shows "calm s s'" and "x = Inr (Some sid) \<Longrightarrow> s_conns s w = Some rw \<Longrightarrow> given s rw msg sid s'"
proof -
  have "calm s s' \<and> (x = Inr (Some sid) \<longrightarrow> s_conns s w = Some rw \<longrightarrow> given s rw msg sid s')"
  proof (cases "msg_conn msg")
    case None
    with run show ?thesis by (auto simp: try_message_def given_def)
  next
    case c: (Some c)
    show ?thesis
    proof (cases "\<exists>r. s_conns s c = Some r \<and> \<not> is_closed r \<and> c_status r = Client_wait_result")
      case False
      with c run show ?thesis
        by (auto simp: try_message_def bnd_run get_c_def split: option.splits if_splits)
    next
      case True
      then obtain r where r: "s_conns s c = Some r" "\<not> is_closed r" "c_status r = Client_wait_result" by blast
      let ?s1 = "put_c c (r\<lparr>c_status := Busy\<rparr>) s"
      have busy: "calm s ?s1" by (rule calm_busy [OF r(1)]) simp_all
      have rest: "bnd (get_c w) (\<lambda>worker.
            if c_noid worker then ret (Some [])
            else bnd (request_id c) (\<lambda>i. case i of
              None \<Rightarrow> thn (reply c ''400 No Id'' (- 1)) (ret None)
            | Some sid \<Rightarrow> bnd (gets s_wait_response) (\<lambda>wait.
                if wait sid \<noteq> None
                then thn (reply c ''400 Collision Id'' (- 1)) (thn (upd_c c (\<lambda>r. r\<lparr>c_status := Net\<rparr>)) (ret None))
                else ret (Some sid)))) ?s1 = (x, s')"
        using run c r by (simp add: try_message_def bnd_Inr [OF get_c_run] thn_Inr [OF upd_c_run])
      show ?thesis
      proof (cases "s_conns ?s1 w")
        case None
        then have "get_c w ?s1 = (Inl Fault, ?s1)" by (simp add: get_c_def)
        with rest busy show ?thesis by (auto simp: bnd_run)
      next
        case (Some rw1)
        from Some r(1) have noid: "c_noid rw = c_noid rw1" if "s_conns s w = Some rw" using that by (auto split: if_splits)
        note rest = rest [unfolded bnd_Inr [where m = "get_c w", OF get_c_run [OF Some]]]
        show ?thesis
        proof (cases "c_noid rw1")
          case True
          with rest have "x = Inr (Some [])" "s' = ?s1" by auto
          with busy noid True c r show ?thesis by (auto simp: given_def)
        next
          case False
          obtain i s2 where i: "request_id c ?s1 = (i, s2)" by fastforce
          from request_id_effect [OF _ i, of "r\<lparr>c_status := Busy\<rparr>"] obtain r2 where
            s2: "s_conns s2 = (s_conns s)(c \<mapsto> r2)" "s_wait_response s2 = s_wait_response s"
            and r2: "r2\<lparr>c_id := c_id r, c_json := c_json r\<rparr> = r\<lparr>c_status := Busy\<rparr>"
            and sid: "\<And>sid. i = Inr (Some sid) \<Longrightarrow> c_id r2 = sid \<and> named_by (r\<lparr>c_status := Busy\<rparr>) sid"
            by (auto simp: put_c_def)
          note kept = upd_same [OF r2]
          have calm2: "calm s s2" by (rule calm_busy [OF r(1) _ _ _ s2]) (use kept in simp_all)
          have answer: "bnd (lift_res i) (\<lambda>i. case i of
              None \<Rightarrow> thn (reply c ''400 No Id'' (- 1)) (ret None)
            | Some sid \<Rightarrow> bnd (gets s_wait_response) (\<lambda>wait.
                if wait sid \<noteq> None
                then thn (reply c ''400 Collision Id'' (- 1)) (thn (upd_c c (\<lambda>r. r\<lparr>c_status := Net\<rparr>)) (ret None))
                else ret (Some sid))) s2 = (x, s')"
            unfolding bnd_lift [where m = "request_id c", OF i, symmetric] using rest False by (simp only: if_False)
          from keepsD' [OF keeps_bnd [OF keeps_lift_res calm_answer] calm2 answer] have "calm s s'" .
          moreover have "given s rw msg sid s'" if "x = Inr (Some sid)" "s_conns s w = Some rw"
          proof -
            from answer that(1) have "i = Inr (Some sid)" "s' = s2" "s_wait_response s2 sid = None"
              by (auto simp: bnd_run thn_run split: sum.splits option.splits if_splits prod.splits)
            with sid [of sid] noid [OF that(2)] False c r s2 kept show ?thesis
              by (auto simp: given_def named_by_def body_id_def)
          qed
          ultimately show ?thesis by blast
        qed
      qed
    qed
  qed
  then show "calm s s'" and "x = Inr (Some sid) \<Longrightarrow> s_conns s w = Some rw \<Longrightarrow> given s rw msg sid s'" by blast+
qed

lemma pick_message_chosen:
  "pick_message w q r kept ms s = (Inr x, s') \<Longrightarrow>
   (case x of None \<Rightarrow> calm s s' | Some (msg, sid) \<Rightarrow> msg \<in> set ms \<and> chosen s w msg sid s')"
proof (induction ms arbitrary: kept s)
  case Nil
  then show ?case by auto
next
  case (Cons m ms)
  from Cons.prems obtain worker where worker: "s_conns s w = Some worker"
    by (auto elim!: bnd_InrE dest: get_c_InrE)
  show ?case
  proof (cases "msg_required m \<noteq> [] \<and> msg_required m \<noteq> c_connection_id worker")
    case True
    with Cons.prems worker have "pick_message w q r (kept @ [m]) ms s = (Inr x, s')"
      by (simp add: bnd_run get_c_run)
    from Cons.IH [OF this] show ?thesis by (auto split: option.splits)
  next
    case False
    with Cons.prems worker obtain u s1 v s2 t s3 where s1: "set_clients q r (kept @ ms) s = (Inr u, s1)"
      and s2: "gc_add (Gc_message m) s1 = (Inr v, s2)" and s3: "try_message w m s2 = (Inr t, s3)"
      and tl: "(case t of Some sid \<Rightarrow> ret (Some (m, sid)) | None \<Rightarrow> pick_message w q r kept ms) s3 = (Inr x, s')"
      by (auto simp: bnd_Inr [OF get_c_run] elim!: thn_InrE bnd_InrE)
    have c1: "calm s s1" using keepsD' [OF calm_set_clients calm_refl s1] .
    from keepsD' [OF calm_reads(5) this s2] have c2: "calm s s2" .
    from calm_trans [OF this try_message_outcome(1) [OF s3]] have c3: "calm s s3" .
    show ?thesis
    proof (cases t)
      case None
      with tl Cons.IH [of kept s3] c3 show ?thesis
        by (auto intro: calm_trans calm_chosen split: option.splits)
    next
      case (Some sid)
      with tl have x: "x = Some (m, sid)" "s' = s3" by auto
      have "s_conns s2 = s_conns s" using s1 s2 by (auto simp: set_clients_def upd_queue_of_def upd_ql_def gc_add_def
            get_queue_of_def get_ql_def bnd_run split: option.splits if_splits)
      with worker have "s_conns s2 w = Some worker" by simp
      from try_message_outcome(2) [OF s3 [unfolded Some] refl this] have "given s2 worker m sid s3" .
      from calm_given [OF c2 this refl] have "given s worker m sid s3" .
      moreover have "s_wait_response s3 = s_wait_response s" using c3 by (simp add: calm_def)
      ultimately have "chosen s w m sid s3" using worker False unfolding chosen_def by blast
      with x show ?thesis by simp
    qed
  qed
qed

lemma find_message_chosen:
  "find_message w q rs s = (Inr x, s') \<Longrightarrow>
   (case x of None \<Rightarrow> calm s s' | Some (msg, sid) \<Rightarrow> chosen s w msg sid s')"
proof (induction rs arbitrary: s)
  case Nil
  then show ?case by auto
next
  case (Cons r rs)
  from Cons.prems obtain z s0 where z: "get_queue_of q r s = (Inr z, s0)"
    and m: "bnd (pick_message w q r [] (q_clients z)) (\<lambda>m. case m of
       Some m \<Rightarrow> ret (Some m) | None \<Rightarrow> find_message w q rs) s0 = (Inr x, s')"
    by (auto elim: bnd_InrE)
  from m obtain v s1 where p: "pick_message w q r [] (q_clients z) s = (Inr v, s1)"
    and rest: "(case v of Some m \<Rightarrow> ret (Some m) | None \<Rightarrow> find_message w q rs) s1 = (Inr x, s')"
    unfolding get_queue_of_InrE [OF z] by (rule bnd_InrE)
  note pt = pick_message_chosen [OF p]
  show ?case
  proof (cases v)
    case None
    with rest pt Cons.IH [of s1] show ?thesis by (auto intro: calm_trans calm_chosen split: option.splits)
  next
    case (Some w)
    with rest pt show ?thesis by auto
  qed
qed

end
