(* ===== verification/Demo_State.thy ===== *)
theory Demo_State imports Broker_Runs begin

text \<open>States at which the properties are applied: one loop, the queue \<open>job\<close>, a few connections.\<close>

definition demo_conn :: "nat \<Rightarrow> connect" where
  "demo_conn fd = new_connect \<lparr>jk_keep_alive = True, jk_fail = False, jk_noid = False, jk_length = 0, jk_version = 11\<rparr> fd
     \<lparr>c_link := 2\<rparr>"

definition demo_line :: "nat list \<Rightarrow> message list \<Rightarrow> queue_line" where
  "demo_line ws ms = (new_queue_line 1 ''job'')\<lparr>ql_queue := [\<lparr>q_workers = ws, q_clients = ms\<rparr>]\<rparr>"

definition demo :: "mapper \<Rightarrow> queue_line \<Rightarrow> (nat \<Rightarrow> connect option) \<Rightarrow> server" where
  "demo m ql cs = (new_server 1 False ''1'' 0 (\<lambda>_. 0) 0 calm_memory)
     \<lparr>s_mapper := m, s_queue_list := [Some ql], s_conns := cs\<rparr>"

lemma demo_sel [simp]:
  "s_conns (demo m ql cs) = cs" "s_queue_list (demo m ql cs) = [Some ql]" "s_mapper (demo m ql cs) = m"
  "length (s_loops (demo m ql cs)) = 1" "s_threads (demo m ql cs) = 1" "s_wait_response (demo m ql cs) = (\<lambda>_. None)"
  by (simp_all add: demo_def new_server_def start_threads_def)

lemma demo_line_sel [simp]:
  "ql_queue (demo_line ws ms) = [\<lparr>q_workers = ws, q_clients = ms\<rparr>]" "\<not> ql_locked (demo_line ws ms)"
  "ql_ring (demo_line ws ms) = []"
  by (simp_all add: demo_line_def new_queue_line_def)

lemma demo_conn_sel [simp]:
  "c_link (demo_conn fd) = 2" "c_socket_status (demo_conn fd) = 1" "c_nloop (demo_conn fd) = 0"
  "c_need_loop (demo_conn fd) = 0" "c_status (demo_conn fd) = Net" "\<not> c_no_response (demo_conn fd)"
  "\<not> c_noid (demo_conn fd)" "\<not> c_worker_mode (demo_conn fd)" "\<not> c_fail_on_disconnect (demo_conn fd)"
  "c_required_worker (demo_conn fd) = []" "c_header_option (demo_conn fd) = []" "c_info (demo_conn fd) = []"
  "c_worker_item (demo_conn fd) = None" "c_direct_message (demo_conn fd) = []" "c_keep_alive (demo_conn fd)"
  "c_send_buffer (demo_conn fd) = []" "c_priority (demo_conn fd) = 0" "c_client (demo_conn fd) = None"
  by (simp_all add: demo_conn_def new_connect_def)

lemma demo_mapper: "\<exists>m. mapper_find m ''job'' = Inr (Suc 0)"
proof -
  have "has_room new_mapper ''job''" "\<not> is_pattern ''job''"
    by (simp_all add: has_room_def valid_name_def name_stem_def good_char_def u16_of_char_def schar_def
        new_mapper_def is_pattern_def)
  from trie.lookup_inserted [OF wf_new_mapper this, of "Suc 0"] show ?thesis by auto
qed

lemma demo_line_of: "mapper_find m ''job'' = Inr (Suc 0) \<Longrightarrow> line_of (demo m ql cs) ''job'' 0 ql"
  by (simp add: line_of_def has_ql_def)

definition idle :: server where
  "idle = demo new_mapper (demo_line [] []) [1 \<mapsto> demo_conn 5]"

text \<open>A run by its outcome, which \<^verbatim>\<open>code_simp\<close> evaluates.\<close>

lemma outcome: "fst p = x \<Longrightarrow> p = (x, snd p)"
  by auto

end
