(* ===== verification/Broker_Calls.thy ===== *)
theory Broker_Calls imports Broker_Dispatch Demo_State begin

text \<open>
  What the client and the worker of a request receive, when a worker is waiting, when none is, and when
  the result comes back.
\<close>

section \<open>Running the handlers\<close>

lemma hand_over_id_run:
  assumes "s_conns s c = Some rc" "s_conns s w = Some rw" "c \<noteq> w" "\<not> is_closed rw" "c_nloop rw < length (s_loops s)"
    and "\<not> c_no_response rc" "\<not> c_noid rw" "\<not> c_fail_on_disconnect rw"
    and "c_id rc \<noteq> []" "s_wait_response s (c_id rc) = None"
  shows "hand_over q name c w s = (Inr 0,
    put_c w (emitted (response (c_keep_alive rw) ''200 OK'' [(''Id'', c_id rc), (''Name'', name)] (c_body rc)) rw\<lparr>c_status := Net\<rparr>)
     (put_c c (rc\<lparr>c_link := c_link rc + 1, c_status := Client_wait_result\<rparr>)
      ((emit w (response (c_keep_alive rw) ''200 OK'' [(''Id'', c_id rc), (''Name'', name)] (c_body rc)) s)
         \<lparr>s_wait_response := (s_wait_response s)(c_id rc \<mapsto> c)\<rparr>)))"
  using assms by (simp add: hand_over_def bnd_run thn_run runs response_def buffered_conns is_closed_def)

text \<open>What the requests of clients and workers leave alone.\<close>

definition steady :: "server \<Rightarrow> server \<Rightarrow> bool" where
  "steady s s' = (s_mapper s' = s_mapper s \<and> s_threads s' = s_threads s \<and> s_now s' = s_now s \<and> s_gc s' = s_gc s \<and>
     s_jsonrpc2 s' = s_jsonrpc2 s \<and> length (s_loops s') = length (s_loops s))"

lemma hand_over_noid_run:
  fixes name :: bytes
  assumes "s_conns s c = Some rc" "s_conns s w = Some rw" "c \<noteq> w" "\<not> is_closed rw" "c_nloop rw < length (s_loops s)"
    and "\<not> c_no_response rc" "c_noid rw"
  defines "text \<equiv> response (c_keep_alive rw) ''200 OK'' [(''Name'', name)] (c_body rc)"
  shows "\<exists>s'. hand_over q name c w s = (Inr 0, s') \<and> s_queue_list s' = s_queue_list s \<and>
    s_conns s' = (s_conns s)(c \<mapsto> rc\<lparr>c_link := c_link rc + 1, c_status := Client_wait_result\<rparr>,
      w \<mapsto> emitted text (rw\<lparr>c_client := Some c, c_status := Worker_wait_result\<rparr>)) \<and>
    s_wait_response s' = s_wait_response s \<and> steady s s'"
  using assms(1-7)
  by (simp add: hand_over_def attach_def bnd_run thn_run runs response_def buffered_conns is_closed_def fun_upd_twist text_def steady_def)

lemma find_head_run:
  assumes "has_ql q ql s" and "n < length (ql_queue ql)" and "q_workers (ql_queue ql ! n) = w # ws"
    and "s_conns s c = Some rc" "s_conns s w = Some rw" "c \<noteq> w" "fit rc rw" "1 < c_link rw"
  shows "find_worker c q (loop_order n k) s = (Inr (Some w),
    put_c w (rw\<lparr>c_link := c_link rw - 1, c_status := Busy\<rparr>)
      (put_ql q (ql\<lparr>ql_queue := (ql_queue ql)[n := (ql_queue ql ! n)\<lparr>q_workers := ws\<rparr>]\<rparr>) s))"
proof -
  have fit: "\<not> is_closed rw" "c_status rw = Worker_wait_job"
    "c_required_worker rc = [] \<or> c_required_worker rc = c_connection_id rw" using assms(7) by (auto simp: fit_def)
  have other: "other_worker c w s = (Inr False, s)"
    using fit(3) assms by (auto simp: other_worker_def bnd_run runs)
  show ?thesis
    using assms(1-6,8) fit(1,2)
    by (simp add: loop_order_def bnd_run thn_run runs other set_workers_def is_closed_def)
qed

lemma client_request_run:
  assumes "line_of s name q ql" and "\<not> ql_locked ql" and "n < length (s_loops s)"
    and "bnd (find_worker c q (loop_order n (s_threads s))) (\<lambda>w. case w of
           Some w \<Rightarrow> hand_over q name c w | None \<Rightarrow> enqueue n q name c)
      (put_ql q (ql\<lparr>ql_locked := True\<rparr>)
        (s\<lparr>s_loops := (s_loops s)[n := (s_loops s ! n)\<lparr>l_stat_call := l_stat_call (s_loops s ! n) + 1\<rparr>]\<rparr>)) = (Inr x, s1)"
    and "has_ql q ql1 s1"
  shows "client_request n name c s = (Inr x, put_ql q (ql1\<lparr>ql_locked := False\<rparr>) s1)"
proof -
  let ?s0 = "s\<lparr>s_loops := (s_loops s)[n := (s_loops s ! n)\<lparr>l_stat_call := l_stat_call (s_loops s ! n) + 1\<rparr>]\<rparr>"
  have gq: "get_queue name False ?s0 = (Inr (Some q), ?s0)"
    by (rule get_queue_run [of _ _ _ ql]) (use assms(1) in \<open>simp add: line_of_def has_ql_def\<close>)
  have ql: "has_ql q ql ?s0" using assms(1) by (simp add: line_of_def)
  show ?thesis
    unfolding client_request_def
    using guard_ql_run [OF ql assms(2) _ assms(5), where x = "Inr x" and m = "bnd (gets s_threads) (\<lambda>threads.
         bnd (find_worker c q (loop_order n threads)) (\<lambda>w. case w of
           Some w \<Rightarrow> hand_over q name c w | None \<Rightarrow> enqueue n q name c))"] assms(3,4) gq
    by (simp add: thn_run bnd_run [where m = "get_queue name False"] runs)
qed

lemma find_none_run:
  "has_ql q ql s \<Longrightarrow> \<forall>r \<in> set rs. r < length (ql_queue ql) \<and> q_workers (ql_queue ql ! r) = [] \<Longrightarrow>
   find_worker c q rs s = (Inr None, s)"
  by (induction rs) (auto simp: bnd_run runs)

text \<open>The message of a client that waits, and of one that does not.\<close>

definition client_message :: "connect \<Rightarrow> nat \<Rightarrow> message" where
  "client_message rc c = \<lparr>msg_priority = c_priority rc, msg_required = c_required_worker rc, msg_conn = Some c,
     msg_buf = [], msg_name = []\<rparr>"

definition async_message :: "connect \<Rightarrow> bytes \<Rightarrow> message" where
  "async_message rc name = \<lparr>msg_priority = c_priority rc, msg_required = c_required_worker rc, msg_conn = None,
     msg_buf = c_body rc, msg_name = name\<rparr>"

definition with_message :: "nat \<Rightarrow> message \<Rightarrow> queue_line \<Rightarrow> queue_line" where
  "with_message n msg ql = ql\<lparr>ql_queue := (ql_queue ql)[n := (ql_queue ql ! n)
     \<lparr>q_clients := insert_message msg (q_clients (ql_queue ql ! n))\<rparr>]\<rparr>"

lemma enqueue_run:
  assumes "s_conns s c = Some rc" "has_ql q ql s" "n < length (ql_queue ql)"
    and "\<not> (c_header_option rc = ''if present'' \<and> ql_ring ql = [])"
  shows "\<not> c_no_response rc \<Longrightarrow> enqueue n q name c s = (Inr 0,
      put_c c (rc\<lparr>c_required_worker := [], c_name := name, c_link := c_link rc + 1, c_status := Client_wait_result\<rparr>)
        (put_ql q (with_message n (client_message rc c) ql)
          (put_c c (rc\<lparr>c_required_worker := [], c_name := name, c_link := c_link rc + 1\<rparr>) s)))"
    and "c_no_response rc \<Longrightarrow> \<not> is_closed rc \<Longrightarrow> c_nloop rc < length (s_loops s) \<Longrightarrow>
      enqueue n q name c s = (Inr 0,
        emit c (response (c_keep_alive rc) ''200 OK'' [] (code_body (s_jsonrpc2 s) 1))
        (put_ql q (with_message n (async_message rc name) ql)
          (put_c c (rc\<lparr>c_required_worker := [], c_body := []\<rparr>) s)))"
  using assms(1-3) unfolding enqueue_def bnd_Inr [where m = "get_c c", OF get_c_run [OF assms(1)]]
    bnd_Inr [where m = "get_ql q", OF get_ql_run [OF assms(2)]] if_not_P [OF assms(4)]
  by (simp_all add: bnd_run thn_run runs client_message_def async_message_def with_message_def is_closed_def)

lemma worker_result_run:
  assumes "s_wait_response s i = Some c" "s_conns s c = Some rc" "1 < c_link rc" "\<not> is_closed rc"
    and "c_nloop rc < length (s_loops s)" "s_conns s w = Some rw" "c \<noteq> w" "c_nloop rw = c_need_loop rw"
  defines "text \<equiv> response (c_keep_alive rc) ''200 OK'' [(''Id'', i)] (c_body rw)"
    and "rc1 \<equiv> rc\<lparr>c_link := c_link rc - 1\<rparr>"
  shows "worker_result i (Some w) s = (Inr 0, put_c c (emitted text rc1\<lparr>c_status := Net\<rparr>)
      (emit c text (put_c c rc1 (s\<lparr>s_wait_response := (s_wait_response s)(i := None)\<rparr>))))"
  unfolding text_def rc1_def using assms(1-8)
  by (simp add: worker_result_def bnd_run thn_run runs response_def buffered_conns is_closed_def)

text \<open>A request finds the worker at the head of the queue; what \<open>hand_over\<close> does with them is left open.\<close>

definition took :: "nat \<Rightarrow> nat list \<Rightarrow> queue_line \<Rightarrow> queue_line" where
  "took n ws ql = ql\<lparr>ql_queue := (ql_queue ql)[n := (ql_queue ql ! n)\<lparr>q_workers := ws\<rparr>]\<rparr>"

definition head_taken :: "nat \<Rightarrow> nat \<Rightarrow> nat list \<Rightarrow> queue_line \<Rightarrow> nat \<Rightarrow> connect \<Rightarrow> server \<Rightarrow> server" where
  "head_taken n q ws ql w rw s = put_c w (rw\<lparr>c_link := c_link rw - 1, c_status := Busy\<rparr>)
     (put_ql q (took n ws (ql\<lparr>ql_locked := True\<rparr>))
       (s\<lparr>s_loops := (s_loops s)[n := (s_loops s ! n)\<lparr>l_stat_call := l_stat_call (s_loops s ! n) + 1\<rparr>]\<rparr>))"

lemma head_taken_sel [simp]:
  "s_conns (head_taken n q ws ql w rw s) = (s_conns s)(w \<mapsto> rw\<lparr>c_link := c_link rw - 1, c_status := Busy\<rparr>)"
  "s_wait_response (head_taken n q ws ql w rw s) = s_wait_response s"
  "length (s_loops (head_taken n q ws ql w rw s)) = length (s_loops s)"
  "s_queue_list (head_taken n q ws ql w rw s) = (s_queue_list s)[q := Some (took n ws (ql\<lparr>ql_locked := True\<rparr>))]"
  "s_threads (head_taken n q ws ql w rw s) = s_threads s" "s_mapper (head_taken n q ws ql w rw s) = s_mapper s"
  "s_jsonrpc2 (head_taken n q ws ql w rw s) = s_jsonrpc2 s" "s_now (head_taken n q ws ql w rw s) = s_now s"
  "s_gc (head_taken n q ws ql w rw s) = s_gc s"
  by (simp_all add: head_taken_def)

lemma head_run:
  assumes line: "line_of s name q ql" "\<not> ql_locked ql" "n < length (ql_queue ql)" "n < length (s_loops s)"
    and head: "q_workers (ql_queue ql ! n) = w # ws"
    and conns: "s_conns s c = Some rc" "s_conns s w = Some rw" "c \<noteq> w" "fit rc rw" "1 < c_link rw"
    and hand: "hand_over q name c w (head_taken n q ws ql w rw s) = (Inr x, s3)"
      "s_queue_list s3 = s_queue_list (head_taken n q ws ql w rw s)"
  shows "client_request n name c s = (Inr x, put_ql q (took n ws ql) s3)"
proof -
  let ?s1 = "put_ql q (ql\<lparr>ql_locked := True\<rparr>)
    (s\<lparr>s_loops := (s_loops s)[n := (s_loops s ! n)\<lparr>l_stat_call := l_stat_call (s_loops s ! n) + 1\<rparr>]\<rparr>)"
  have "has_ql q ql s" using line(1) by (simp add: line_of_def)
  then have len: "q < length (s_queue_list s)" by (simp add: has_ql_def)
  have find: "find_worker c q (loop_order n (s_threads s)) ?s1 = (Inr (Some w), head_taken n q ws ql w rw s)"
    by (rule trans [OF find_head_run [where ql = "ql\<lparr>ql_locked := True\<rparr>" and ws = ws]])
      (use line head conns len in \<open>auto simp: head_taken_def took_def\<close>)
  have "has_ql q (took n ws (ql\<lparr>ql_locked := True\<rparr>)) s3" using hand(2) len by (simp add: has_ql_def)
  note run = client_request_run [OF line(1,2,4) _ this]
  have "took n ws (ql\<lparr>ql_locked := True\<rparr>)\<lparr>ql_locked := False\<rparr> = took n ws ql"
    using line(2) by (cases ql) (simp add: took_def)
  with run [of c x] show ?thesis by (simp add: bnd_run find hand(1))
qed

lemma dispatch_run:
  assumes line: "line_of s name q ql" "\<not> ql_locked ql" "n < length (ql_queue ql)" "n < length (s_loops s)"
    and head: "q_workers (ql_queue ql ! n) = w # ws"
    and conns: "s_conns s c = Some rc" "s_conns s w = Some rw" "c \<noteq> w" "fit rc rw" "1 < c_link rw"
      "c_nloop rw < length (s_loops s)"
    and kind: "\<not> c_no_response rc" "\<not> c_noid rw" "\<not> c_fail_on_disconnect rw"
    and ident: "c_id rc \<noteq> []" "s_wait_response s (c_id rc) = None"
  defines "text \<equiv> response (c_keep_alive rw) ''200 OK'' [(''Id'', c_id rc), (''Name'', name)] (c_body rc)"
  shows "\<exists>s'. client_request n name c s = (Inr 0, s') \<and>
    s_conns s' = (s_conns s)(c \<mapsto> rc\<lparr>c_link := c_link rc + 1, c_status := Client_wait_result\<rparr>,
      w \<mapsto> emitted text (rw\<lparr>c_link := c_link rw - 1, c_status := Busy\<rparr>)\<lparr>c_status := Net\<rparr>) \<and>
    s_wait_response s' = (s_wait_response s)(c_id rc \<mapsto> c) \<and> length (s_loops s') = length (s_loops s) \<and>
    s_queue_list s' = (s_queue_list s)[q := Some (took n ws ql)]"
proof -
  let ?rw = "rw\<lparr>c_link := c_link rw - 1, c_status := Busy\<rparr>" and ?s2 = "head_taken n q ws ql w rw s"
  have "\<exists>s3. hand_over q name c w ?s2 = (Inr 0, s3) \<and> s_queue_list s3 = s_queue_list ?s2 \<and>
    s_conns s3 = (s_conns s)(c \<mapsto> rc\<lparr>c_link := c_link rc + 1, c_status := Client_wait_result\<rparr>,
      w \<mapsto> emitted text ?rw\<lparr>c_status := Net\<rparr>) \<and>
    s_wait_response s3 = (s_wait_response s)(c_id rc \<mapsto> c) \<and> length (s_loops s3) = length (s_loops s)"
    using hand_over_id_run [where s = ?s2 and c = c and rc = rc and w = w and rw = ?rw and q = q and name = name] conns kind ident
    by (auto simp: fit_def is_closed_def text_def fun_upd_twist)
  then obtain s3 where s3: "hand_over q name c w ?s2 = (Inr 0, s3)" "s_queue_list s3 = s_queue_list ?s2"
    "s_conns s3 = (s_conns s)(c \<mapsto> rc\<lparr>c_link := c_link rc + 1, c_status := Client_wait_result\<rparr>,
      w \<mapsto> emitted text ?rw\<lparr>c_status := Net\<rparr>)"
    "s_wait_response s3 = (s_wait_response s)(c_id rc \<mapsto> c)" "length (s_loops s3) = length (s_loops s)" by blast
  from head_run [OF line head conns(1-5) s3(1,2)] show ?thesis using s3(2-5) by simp
qed

text \<open>A worker that asks takes the first request of its queue.\<close>

lemma find_message_head_run:
  assumes "has_ql q ql s" and "n < length (ql_queue ql)" and "q_clients (ql_queue ql ! n) = msg # ms"
    and "msg_conn msg = Some c" "s_conns s c = Some rc" "s_conns s w = Some rw" "c \<noteq> w"
    and "msg_required msg = [] \<or> msg_required msg = c_connection_id rw" "\<not> c_noid rw"
    and "\<not> is_closed rc" "c_status rc = Client_wait_result" "c_id rc \<noteq> []" "s_wait_response s (c_id rc) = None"
  shows "find_message w q (loop_order n k) s = (Inr (Some (msg, c_id rc)),
    put_c c (rc\<lparr>c_status := Busy\<rparr>)
      ((put_ql q (ql\<lparr>ql_queue := (ql_queue ql)[n := (ql_queue ql ! n)\<lparr>q_clients := ms\<rparr>]\<rparr>) s)
        \<lparr>s_gc := s_gc s @ [Gc_message msg]\<rparr>))"
proof -
  have req: "\<not> (msg_required msg \<noteq> [] \<and> msg_required msg \<noteq> c_connection_id rw)" using assms(8) by blast
  let ?s1 = "(put_ql q (ql\<lparr>ql_queue := (ql_queue ql)[n := (ql_queue ql ! n)\<lparr>q_clients := ms\<rparr>]\<rparr>) s)
        \<lparr>s_gc := s_gc s @ [Gc_message msg]\<rparr>"
  have tr: "try_message w msg ?s1 = (Inr (Some (c_id rc)), put_c c (rc\<lparr>c_status := Busy\<rparr>) ?s1)"
    using assms(4-7,9-13) by (simp add: try_message_def bnd_run thn_run runs is_closed_def)
  have "pick_message w q n [] (msg # ms) s = (Inr (Some (msg, c_id rc)), put_c c (rc\<lparr>c_status := Busy\<rparr>) ?s1)"
    using assms(1,2) tr unfolding pick_message.simps bnd_Inr [where m = "get_c w", OF get_c_run [OF assms(6)]]
      if_not_P [OF req]
    by (simp add: set_clients_def thn_run bnd_run runs gc_add_def)
  then show ?thesis
    using assms(1-3) by (simp add: loop_order_def bnd_run runs)
qed

lemma give_message_run:
  assumes "msg_conn msg = Some c" "s_conns s c = Some rc" "s_conns s w = Some rw" "c \<noteq> w"
    and "\<not> c_noid rw" "\<not> c_fail_on_disconnect rw" "\<not> is_closed rw" "c_nloop rw < length (s_loops s)"
  defines "text \<equiv> response (c_keep_alive rw) ''200 OK'' [(''Id'', c_id rc), (''Name'', c_name rc)] (c_body rc)"
  shows "give_message w msg sid s = (Inr 1, put_c w (emitted text rw\<lparr>c_status := Net\<rparr>)
    (put_c c (rc\<lparr>c_link := c_link rc + 1\<rparr>)
      ((emit w text s)\<lparr>s_wait_response := (s_wait_response s)(sid \<mapsto> c)\<rparr>)))"
  unfolding text_def using assms(1-8)
  by (simp add: give_message_def bnd_run thn_run runs response_def buffered_conns is_closed_def)

lemma add_worker_run:
  assumes line: "line_of s name q ql" "\<not> ql_locked ql" "n < length (ql_queue ql)" "name = [] \<or> hd name \<noteq> CHR ''/''"
    and worker: "s_conns s w = Some rw" "c_info rw = []" "c_connection_id rw \<noteq> []" "c_worker_item rw = None"
      "c_direct_message rw = []" "\<not> c_worker_mode rw" "\<not> c_noid rw" "\<not> c_fail_on_disconnect rw"
      "\<not> is_closed rw" "c_nloop rw < length (s_loops s)"
    and head: "q_clients (ql_queue ql ! n) = msg # ms" "msg_conn msg = Some c"
      "msg_required msg = [] \<or> msg_required msg = c_connection_id rw"
    and client: "s_conns s c = Some rc" "c \<noteq> w" "\<not> is_closed rc" "c_status rc = Client_wait_result"
      "c_id rc \<noteq> []" "s_wait_response s (c_id rc) = None" "0 < c_link rc"
  defines "text \<equiv> response (c_keep_alive rw) ''200 OK'' [(''Id'', c_id rc), (''Name'', c_name rc)] (c_body rc)"
  shows "\<exists>s'. add_one_worker n name w s = (Inr 1, s') \<and>
    s_conns s' = (s_conns s)(c \<mapsto> rc\<lparr>c_status := Busy\<rparr>, w \<mapsto> emitted text rw\<lparr>c_status := Net\<rparr>) \<and>
    s_wait_response s' = (s_wait_response s)(c_id rc \<mapsto> c) \<and> length (s_loops s') = length (s_loops s) \<and>
    s_queue_list s' = (s_queue_list s)[q := Some (ql\<lparr>ql_last_worker := uint (s_now s),
      ql_queue := (ql_queue ql)[n := (ql_queue ql ! n)\<lparr>q_clients := ms\<rparr>]\<rparr>)]"
proof -
  let ?g = "s\<lparr>s_gc := []\<rparr>"
  let ?ql1 = "ql\<lparr>ql_last_worker := uint (s_now s), ql_locked := True\<rparr>"
  let ?ql2 = "?ql1\<lparr>ql_queue := (ql_queue ql)[n := (ql_queue ql ! n)\<lparr>q_clients := ms\<rparr>]\<rparr>"
  let ?s1 = "put_ql q ?ql1 ?g"
  let ?s2 = "put_c c (rc\<lparr>c_status := Busy\<rparr>) ((put_ql q ?ql2 ?g)\<lparr>s_gc := [Gc_message msg]\<rparr>)"
  let ?s3 = "put_c w (emitted text rw\<lparr>c_status := Net\<rparr>)
    (put_c c (rc\<lparr>c_status := Busy, c_link := c_link rc + 1\<rparr>)
      ((emit w text ?s2)\<lparr>s_wait_response := (s_wait_response s)(c_id rc \<mapsto> c)\<rparr>))"
  have ql: "has_ql q ql s" using line(1) by (simp add: line_of_def)
  then have len: "q < length (s_queue_list s)" and ql': "has_ql q ql ?g" by (simp_all add: has_ql_def)
  have gq: "get_queue name True s = (Inr (Some q), s)" using line(1) by (rule get_queue_run)
  have nm: "(if name \<noteq> [] \<and> hd name = CHR ''/'' then slice_remove 1 name else name) = name" using line(4) by auto
  have find: "find_message w q (loop_order n (s_threads s)) ?s1 = (Inr (Some (msg, c_id rc)), ?s2)"
    by (rule trans [OF find_message_head_run [where ql = ?ql1 and rc = rc and rw = rw and msg = msg and ms = ms]])
      (use len line head client worker in auto)
  have give: "give_message w msg (c_id rc) ?s2 = (Inr 1, ?s3)"
    by (rule trans [OF give_message_run [where c = c and rc = "rc\<lparr>c_status := Busy\<rparr>" and rw = rw]])
      (use head client worker in \<open>simp_all add: text_def\<close>)
  have gc: "s_gc ?s3 = [Gc_message msg]" by simp
  let ?s4 = "put_c c (rc\<lparr>c_status := Busy\<rparr>) ((put_ql q (?ql2\<lparr>ql_locked := False\<rparr>) ?s3)\<lparr>s_gc := s_gc s\<rparr>)"
  have gc: "with_gc (bnd (gets s_now) (\<lambda>now. thn (upd_ql q (\<lambda>ql. ql\<lparr>ql_last_worker := uint now\<rparr>))
        (thn (lock_ql q)
        (bnd (gets s_threads) (\<lambda>threads.
         bnd (find_message w q (loop_order n threads)) (\<lambda>m.
         bnd (case m of Some (msg, sid) \<Rightarrow> give_message w msg sid | None \<Rightarrow> wait_job n q w) (\<lambda>result.
         thn (register_worker q name w) (thn (unlock_ql q) (ret result))))))))) s = (Inr 1, ?s4)"
  proof (rule with_gc_run)
    have "lock_ql q (put_ql q (ql\<lparr>ql_last_worker := uint (s_now s)\<rparr>) ?g) = (Inr (), ?s1)"
      using line(2) len by (simp add: lock_ql_def bnd_run runs)
    moreover have "register_worker q name w ?s3 = (Inr (), ?s3)"
      using worker by (simp add: register_worker_def bnd_run thn_run runs)
    moreover have "unlock_ql q ?s3 = (Inr (), put_ql q (?ql2\<lparr>ql_locked := False\<rparr>) ?s3)"
      by (rule unlock_ql_run) (simp add: len)
    ultimately show "(bnd (gets s_now) (\<lambda>now. thn (upd_ql q (\<lambda>ql. ql\<lparr>ql_last_worker := uint now\<rparr>))
        (thn (lock_ql q)
        (bnd (gets s_threads) (\<lambda>threads.
         bnd (find_message w q (loop_order n threads)) (\<lambda>m.
         bnd (case m of Some (msg, sid) \<Rightarrow> give_message w msg sid | None \<Rightarrow> wait_job n q w) (\<lambda>result.
         thn (register_worker q name w) (thn (unlock_ql q) (ret result))))))))) ?g =
      (Inr 1, put_ql q (?ql2\<lparr>ql_locked := False\<rparr>) ?s3)"
      using find give by (simp add: bnd_run thn_run upd_ql_run [OF ql'])
    show "for_each (s_gc (put_ql q (?ql2\<lparr>ql_locked := False\<rparr>) ?s3)) gc_free
      ((put_ql q (?ql2\<lparr>ql_locked := False\<rparr>) ?s3)\<lparr>s_gc := s_gc s\<rparr>) = (Inr (), ?s4)"
      using head(2) client by (simp add: thn_run delete_message_def runs)
  qed
  have eq: "add_one_worker n name w s = (Inr 1, ?s4)"
    unfolding add_one_worker_def Let_def nm bnd_Inr [where m = "get_queue name True", OF gq] option.case
      bnd_Inr [where m = "get_c w", OF get_c_run [OF worker(1)]]
    using worker gc by (simp add: bnd_run [where m = "get_c w"] get_c_run)
  show ?thesis
    by (rule exI, rule conjI, rule eq) (use line(2) client worker in \<open>auto simp: fun_upd_twist\<close>)
qed

text \<open>A request that finds no waiting worker is stored.\<close>

lemma queued_run:
  assumes line: "line_of s name q ql" "\<not> ql_locked ql" "n < length (ql_queue ql)" "n < length (s_loops s)"
    and free: "length (ql_queue ql) = s_threads s" "\<forall>x \<in> set (ql_queue ql). q_workers x = []"
    and conn: "s_conns s c = Some rc" "\<not> c_no_response rc" "c_header_option rc \<noteq> ''if present''"
  shows "\<exists>s'. client_request n name c s = (Inr 0, s') \<and>
    s_queue_list s' = (s_queue_list s)[q := Some (with_message n (client_message rc c) ql)] \<and>
    s_conns s' = (s_conns s)(c \<mapsto> rc\<lparr>c_required_worker := [], c_name := name, c_link := c_link rc + 1,
      c_status := Client_wait_result\<rparr>) \<and>
    s_wait_response s' = s_wait_response s \<and> s_mapper s' = s_mapper s \<and> length (s_loops s') = length (s_loops s) \<and> steady s s'"
proof -
  let ?s1 = "put_ql q (ql\<lparr>ql_locked := True\<rparr>)
    (s\<lparr>s_loops := (s_loops s)[n := (s_loops s ! n)\<lparr>l_stat_call := l_stat_call (s_loops s ! n) + 1\<rparr>]\<rparr>)"
  let ?ql = "with_message n (client_message rc c) (ql\<lparr>ql_locked := True\<rparr>)"
  have len: "q < length (s_queue_list s)" using line(1) by (simp add: line_of_def has_ql_def)
  have find: "find_worker c q (loop_order n (s_threads s)) ?s1 = (Inr None, ?s1)"
    by (rule find_none_run [where ql = "ql\<lparr>ql_locked := True\<rparr>"]) (use len line free in \<open>auto simp: loop_order_def\<close>)
  obtain s2 where enq: "enqueue n q name c ?s1 = (Inr 0, s2)" "has_ql q ?ql s2"
      "s_conns s2 = (s_conns s)(c \<mapsto> rc\<lparr>c_required_worker := [], c_name := name, c_link := c_link rc + 1,
      c_status := Client_wait_result\<rparr>)" "s_wait_response s2 = s_wait_response s"
      "s_queue_list s2 = (s_queue_list s)[q := Some ?ql]" "s_mapper s2 = s_mapper s" "length (s_loops s2) = length (s_loops s)" "steady s s2"
    using enqueue_run(1) [of ?s1 c rc q "ql\<lparr>ql_locked := True\<rparr>" n name] conn line len by (simp add: steady_def)
  have "client_request n name c s = (Inr 0, put_ql q (?ql\<lparr>ql_locked := False\<rparr>) s2)"
    by (rule client_request_run [OF line(1,2,4) _ enq(2)]) (simp add: bnd_run find enq(1))
  moreover have "?ql\<lparr>ql_locked := False\<rparr> = with_message n (client_message rc c) ql"
    using line(2) by (cases ql) (simp add: with_message_def)
  ultimately show ?thesis using enq by (simp add: steady_def)
qed

section \<open>Properties\<close>

text \<open>
  Claim C7. The worker found for a request exists, was open and waiting for work, and is the one the request
  asks for if it asks for one; it is marked busy, so that no other search finds it, and the status of every
  other connection is as before.
\<close>

theorem find_worker_safe:
  assumes "find_worker c q rs s = (Inr (Some w), s')"
  shows "\<exists>rc rw rw'. s_conns s c = Some rc \<and> s_conns s w = Some rw \<and> c_status rw = Worker_wait_job \<and>
    \<not> is_closed rw \<and> (c_required_worker rc = [] \<or> c_required_worker rc = c_connection_id rw) \<and>
    s_conns s' w = Some rw' \<and> c_status rw' = Busy \<and>
    (\<forall>d. d \<noteq> w \<longrightarrow> map_option c_status (s_conns s' d) = map_option c_status (s_conns s d))"
proof -
  from find_worker_taken [OF assms] obtain s1 rc1 rw1 where a: "alike s s1" and s1: "s_conns s1 c = Some rc1"
    "s_conns s1 w = Some rw1" "fit rc1 rw1" "s' = put_c w (rw1\<lparr>c_status := Busy\<rparr>) s1"
    by (auto simp: taken_def)
  from alikeE [OF a s1(1)] obtain rc where rc: "s_conns s c = Some rc" "c_required_worker rc1 = c_required_worker rc"
    by metis
  from alikeE [OF a s1(2)] obtain rw where rw: "s_conns s w = Some rw" "c_status rw1 = c_status rw"
    "is_closed rw1 = is_closed rw" "c_connection_id rw1 = c_connection_id rw" by metis
  have "map_option c_status (s_conns s1 d) = map_option c_status (s_conns s d)" for d
  proof (cases "s_conns s1 d")
    case None
    with a show ?thesis unfolding alike_def by (metis option.map_disc_iff)
  next
    case (Some r)
    from alikeE [OF a Some] show ?thesis using Some by (metis option.map(2))
  qed
  with rc rw s1 show ?thesis by (simp add: fit_def)
qed

theorem find_worker_safe_witness:
  "\<exists>s' rw'. find_worker 1 0 (loop_order 0 1) (demo new_mapper (demo_line [2] [])
       [1 \<mapsto> demo_conn 5, 2 \<mapsto> demo_conn 6\<lparr>c_status := Worker_wait_job\<rparr>]) = (Inr (Some 2), s') \<and>
     s_conns s' 2 = Some rw' \<and> c_status rw' = Busy"
proof -
  let ?s = "demo new_mapper (demo_line [2] [])
       [1 \<mapsto> demo_conn 5, 2 \<mapsto> demo_conn 6\<lparr>c_status := Worker_wait_job\<rparr>]"
  have "has_ql 0 (demo_line [2] []) ?s" by (simp add: has_ql_def)
  from find_head_run [OF this, of 0 2 "[]" 1] obtain s' where s': "find_worker 1 0 (loop_order 0 1) ?s = (Inr (Some 2), s')"
    by (fastforce simp: fit_def is_closed_def)
  from find_worker_safe [OF this] s' show ?thesis by blast
qed

text \<open>
  Claim C8. A request found for a worker does not ask for another worker. If it has a client, that client
  was open and waiting for its result and is now busy, so that no other search finds it; a worker that sends
  results with ids gets the request under the id of the client, which is the one it gave, else the one in its body,
  else a new one, and nobody waits for a result under that id. A request without a client, or for a worker
  without ids, comes without one. The search itself lets nobody wait.
\<close>

theorem find_message_safe:
  assumes "find_message w q rs s = (Inr (Some (msg, sid)), s')"
  shows "\<exists>rw. s_conns s w = Some rw \<and> (msg_required msg = [] \<or> msg_required msg = c_connection_id rw) \<and>
    s_wait_response s' = s_wait_response s \<and>
    (case msg_conn msg of None \<Rightarrow> sid = []
     | Some c \<Rightarrow> \<exists>rc rc'. s_conns s c = Some rc \<and> c_status rc = Client_wait_result \<and> \<not> is_closed rc \<and>
         s_conns s' c = Some rc' \<and> c_status rc' = Busy \<and>
         (if c_noid rw then sid = []
          else c_id rc' = sid \<and>
            (if c_id rc \<noteq> [] then sid = c_id rc
             else if body_id rc \<noteq> [] then sid = body_id rc
             else (\<exists>s0. fst (generate_id s0) = Inr sid)) \<and>
            s_wait_response s sid = None))"
proof -
  from find_message_chosen [OF assms] obtain rw where "s_conns s w = Some rw"
    "msg_required msg = [] \<or> msg_required msg = c_connection_id rw" and given: "given s rw msg sid s'"
    and wait: "s_wait_response s' = s_wait_response s" by (auto simp: chosen_def)
  with given [unfolded given_def named_by_def wait] show ?thesis by blast
qed

theorem find_message_safe_witness:
  "\<exists>msg s' r. find_message 2 0 (loop_order 0 1) (demo new_mapper (demo_line [] [client_message (demo_conn 5) 1])
       [1 \<mapsto> demo_conn 5\<lparr>c_id := ''15'', c_status := Client_wait_result\<rparr>, 2 \<mapsto> demo_conn 6]) =
       (Inr (Some (msg, ''15'')), s') \<and> s_conns s' 1 = Some r \<and> c_status r = Busy \<and> c_id r = ''15''"
proof -
  let ?s = "demo new_mapper (demo_line [] [client_message (demo_conn 5) 1])
       [1 \<mapsto> demo_conn 5\<lparr>c_id := ''15'', c_status := Client_wait_result\<rparr>, 2 \<mapsto> demo_conn 6]"
  have "has_ql 0 (demo_line [] [client_message (demo_conn 5) 1]) ?s" by (simp add: has_ql_def)
  from find_message_head_run [OF this, of 0 "client_message (demo_conn 5) 1" "[]" 1 _ 2] obtain s' where
    s': "find_message 2 0 (loop_order 0 1) ?s = (Inr (Some (client_message (demo_conn 5) 1, ''15'')), s')"
    by (fastforce simp: client_message_def is_closed_def)
  from find_message_safe [OF this] s' show ?thesis by (fastforce simp: client_message_def)
qed

text \<open>
  A request whose queue has a fit worker waiting at the head goes to that worker at once: the
  worker receives the request's body with its id and name and is free again, the client waits for the
  result under its id, the worker leaves the queue, and nothing else changes.
\<close>

theorem request_dispatched:
  assumes line: "line_of s name q ql" "\<not> ql_locked ql" "n < length (ql_queue ql)" "n < length (s_loops s)"
    and head: "q_workers (ql_queue ql ! n) = w # ws"
    and conns: "s_conns s c = Some rc" "s_conns s w = Some rw" "c \<noteq> w" "fit rc rw" "1 < c_link rw"
      "c_nloop rw < length (s_loops s)"
    and kind: "\<not> c_no_response rc" "\<not> c_noid rw" "\<not> c_fail_on_disconnect rw"
    and ident: "c_id rc \<noteq> []" "s_wait_response s (c_id rc) = None"
  shows "\<exists>s' rw'. client_request n name c s = (Inr 0, s') \<and>
    s_conns s' = (s_conns s)(c \<mapsto> rc\<lparr>c_link := c_link rc + 1, c_status := Client_wait_result\<rparr>, w \<mapsto> rw') \<and>
    c_send_buffer rw' = c_send_buffer rw @
      response (c_keep_alive rw) ''200 OK'' [(''Id'', c_id rc), (''Name'', name)] (c_body rc) \<and>
    c_status rw' = Net \<and> c_link rw' = c_link rw - 1 \<and>
    s_wait_response s' = (s_wait_response s)(c_id rc \<mapsto> c) \<and>
    s_queue_list s' = (s_queue_list s)[q := Some (ql\<lparr>ql_queue := (ql_queue ql)[n := (ql_queue ql ! n)\<lparr>q_workers := ws\<rparr>]\<rparr>)]"
proof -
  from dispatch_run [OF line head conns kind ident] show ?thesis
    by (elim exE conjE) (intro exI conjI, assumption+, simp_all add: took_def)
qed

theorem request_dispatched_witness:
  "\<exists>m s' rw'. client_request 0 ''job'' 1 (demo m (demo_line [2] [])
       [1 \<mapsto> demo_conn 5\<lparr>c_id := ''15'', c_body := ''hi''\<rparr>, 2 \<mapsto> demo_conn 6\<lparr>c_status := Worker_wait_job\<rparr>]) = (Inr 0, s') \<and>
     s_conns s' 2 = Some rw' \<and>
     c_send_buffer rw' = response True ''200 OK'' [(''Id'', ''15''), (''Name'', ''job'')] ''hi''"
proof -
  obtain m where m: "mapper_find m ''job'' = Inr (Suc 0)" using demo_mapper by blast
  let ?cs = "[1 \<mapsto> demo_conn 5\<lparr>c_id := ''15'', c_body := ''hi''\<rparr>, 2 \<mapsto> demo_conn 6\<lparr>c_status := Worker_wait_job\<rparr>]"
  from request_dispatched [OF demo_line_of [OF m, of "demo_line [2] []" ?cs], of 0 2 "[]" 1]
  show ?thesis by (intro exI [of _ m]) (fastforce simp: fit_def is_closed_def)
qed

text \<open>
  A request that finds no waiting worker is stored in the queue of its loop behind every request
  of at least its priority and before those of lower priority; its client waits, is kept alive by one more
  link and receives nothing yet.
\<close>

theorem request_queued:
  assumes line: "line_of s name q ql" "\<not> ql_locked ql" "n < length (ql_queue ql)" "n < length (s_loops s)"
    and free: "length (ql_queue ql) = s_threads s" "\<forall>x \<in> set (ql_queue ql). q_workers x = []"
    and conn: "s_conns s c = Some rc" "\<not> c_no_response rc" "c_header_option rc \<noteq> ''if present''"
    and sorted: "sorted_wrt (\<lambda>a b. msg_priority b \<le> msg_priority a) (q_clients (ql_queue ql ! n))"
  shows "\<exists>s' ql'. client_request n name c s = (Inr 0, s') \<and> has_ql q ql' s' \<and>
    q_clients (ql_queue ql' ! n) =
      filter (\<lambda>x. c_priority rc \<le> msg_priority x) (q_clients (ql_queue ql ! n)) @ client_message rc c #
      filter (\<lambda>x. msg_priority x < c_priority rc) (q_clients (ql_queue ql ! n)) \<and>
    s_conns s' = (s_conns s)(c \<mapsto> rc\<lparr>c_required_worker := [], c_name := name, c_link := c_link rc + 1,
      c_status := Client_wait_result\<rparr>) \<and>
    s_wait_response s' = s_wait_response s"
proof -
  have len: "q < length (s_queue_list s)" using line(1) by (simp add: line_of_def has_ql_def)
  from queued_run [OF line free conn] obtain s' where s': "client_request n name c s = (Inr 0, s')"
    "s_queue_list s' = (s_queue_list s)[q := Some (with_message n (client_message rc c) ql)]"
    "s_conns s' = (s_conns s)(c \<mapsto> rc\<lparr>c_required_worker := [], c_name := name, c_link := c_link rc + 1,
      c_status := Client_wait_result\<rparr>)" "s_wait_response s' = s_wait_response s" by auto
  moreover have "has_ql q (with_message n (client_message rc c) ql) s'" using len s'(2) by (simp add: has_ql_def)
  moreover have "q_clients (ql_queue (with_message n (client_message rc c) ql) ! n) =
      insert_message (client_message rc c) (q_clients (ql_queue ql ! n))"
    using line(3) by (simp add: with_message_def)
  ultimately show ?thesis
    using insert_message_eq [of "q_clients (ql_queue ql ! n)" "client_message rc c"] sorted
    by (intro exI conjI) (assumption | simp add: by_priority_def client_message_def)+
qed

theorem request_queued_witness:
  "\<exists>m s' ql'. client_request 0 ''job'' 1 (demo m (demo_line [] [client_message (demo_conn 6) 2])
       [1 \<mapsto> demo_conn 5\<lparr>c_priority := 3\<rparr>, 2 \<mapsto> demo_conn 6]) = (Inr 0, s') \<and> has_ql 0 ql' s' \<and>
     map msg_conn (q_clients (ql_queue ql' ! 0)) = [Some 1, Some 2]"
proof -
  obtain m where m: "mapper_find m ''job'' = Inr (Suc 0)" using demo_mapper by blast
  let ?cs = "[1 \<mapsto> demo_conn 5\<lparr>c_priority := 3\<rparr>, 2 \<mapsto> demo_conn 6]"
  from request_queued [OF demo_line_of [OF m, of "demo_line [] [client_message (demo_conn 6) 2]" ?cs], of 0 1]
  show ?thesis by (intro exI [of _ m]) (fastforce simp: client_message_def)
qed

text \<open>
  A worker that asks for work takes the first request of its queue: it receives the request's
  body with its id and the name it was called by and is free again at once, the client is registered under
  its id, and the request has left the queue.
\<close>

theorem worker_served:
  assumes line: "line_of s name q ql" "\<not> ql_locked ql" "n < length (ql_queue ql)" "name = [] \<or> hd name \<noteq> CHR ''/''"
    and worker: "s_conns s w = Some rw" "c_info rw = []" "c_connection_id rw \<noteq> []" "c_worker_item rw = None"
      "c_direct_message rw = []" "\<not> c_worker_mode rw" "\<not> c_noid rw" "\<not> c_fail_on_disconnect rw"
      "\<not> is_closed rw" "c_nloop rw < length (s_loops s)"
    and head: "q_clients (ql_queue ql ! n) = msg # ms" "msg_conn msg = Some c"
      "msg_required msg = [] \<or> msg_required msg = c_connection_id rw"
    and client: "s_conns s c = Some rc" "c \<noteq> w" "\<not> is_closed rc" "c_status rc = Client_wait_result"
      "c_id rc \<noteq> []" "s_wait_response s (c_id rc) = None" "0 < c_link rc"
  shows "\<exists>s' rw' ql'. add_one_worker n name w s = (Inr 1, s') \<and>
    s_conns s' = (s_conns s)(c \<mapsto> rc\<lparr>c_status := Busy\<rparr>, w \<mapsto> rw') \<and>
    c_send_buffer rw' = c_send_buffer rw @
      response (c_keep_alive rw) ''200 OK'' [(''Id'', c_id rc), (''Name'', c_name rc)] (c_body rc) \<and>
    c_status rw' = Net \<and>
    s_wait_response s' = (s_wait_response s)(c_id rc \<mapsto> c) \<and>
    has_ql q ql' s' \<and> q_clients (ql_queue ql' ! n) = ms"
proof -
  have "q < length (s_queue_list s)" using line(1) by (simp add: line_of_def has_ql_def)
  with add_worker_run [OF line worker head client] line(3) show ?thesis
    by (elim exE conjE) (intro exI conjI, assumption+, simp_all add: has_ql_def, simp)
qed

theorem worker_served_witness:
  "\<exists>m s' rw'. add_one_worker 0 ''job'' 2 (demo m (demo_line [] [client_message (demo_conn 5) 1])
       [1 \<mapsto> demo_conn 5\<lparr>c_id := ''15'', c_name := ''job'', c_body := ''hi'', c_status := Client_wait_result\<rparr>,
        2 \<mapsto> demo_conn 6\<lparr>c_connection_id := ''w''\<rparr>]) = (Inr 1, s') \<and> s_conns s' 2 = Some rw' \<and>
     c_send_buffer rw' = response True ''200 OK'' [(''Id'', ''15''), (''Name'', ''job'')] ''hi''"
proof -
  obtain m where m: "mapper_find m ''job'' = Inr (Suc 0)" using demo_mapper by blast
  let ?cs = "[1 \<mapsto> demo_conn 5\<lparr>c_id := ''15'', c_name := ''job'', c_body := ''hi'', c_status := Client_wait_result\<rparr>,
        2 \<mapsto> demo_conn 6\<lparr>c_connection_id := ''w''\<rparr>]"
  from worker_served [OF demo_line_of [OF m, of "demo_line [] [client_message (demo_conn 5) 1]" ?cs], of 0 2 _ _ _ 1]
  show ?thesis by (intro exI [of _ m]) (fastforce simp: client_message_def is_closed_def)
qed

text \<open>
  A result goes to the client that waits under its id and to no other connection: the client
  receives the worker's body with the id, stops waiting, and the id is free again.
\<close>

theorem result_delivered:
  assumes "s_wait_response s i = Some c" "s_conns s c = Some rc" "1 < c_link rc" "\<not> is_closed rc"
    and "c_nloop rc < length (s_loops s)" "s_conns s w = Some rw" "c \<noteq> w" "c_nloop rw = c_need_loop rw"
  shows "\<exists>s' rc'. worker_result i (Some w) s = (Inr 0, s') \<and> s_conns s' = (s_conns s)(c \<mapsto> rc') \<and>
    c_send_buffer rc' = c_send_buffer rc @
      response (c_keep_alive rc) ''200 OK'' [(''Id'', i)] (c_body rw) \<and>
    c_status rc' = Net \<and> c_link rc' = c_link rc - 1 \<and>
    s_wait_response s' = (s_wait_response s)(i := None)"
  using worker_result_run [OF assms] assms(2) by (intro exI conjI) (assumption | simp)+

theorem result_delivered_witness:
  "\<exists>s' rc'. worker_result ''15'' (Some 2) ((demo new_mapper (demo_line [] [])
       [1 \<mapsto> demo_conn 5, 2 \<mapsto> demo_conn 6\<lparr>c_body := ''ok''\<rparr>])\<lparr>s_wait_response := [''15'' \<mapsto> 1]\<rparr>) = (Inr 0, s') \<and>
     s_conns s' 1 = Some rc' \<and> c_send_buffer rc' = response True ''200 OK'' [(''Id'', ''15'')] ''ok''"
  using result_delivered [of "(demo new_mapper (demo_line [] [])
       [1 \<mapsto> demo_conn 5, 2 \<mapsto> demo_conn 6\<lparr>c_body := ''ok''\<rparr>])\<lparr>s_wait_response := [''15'' \<mapsto> 1]\<rparr>" "''15''" 1 _ 2]
  by (fastforce simp: is_closed_def)

text \<open>
  A request and its result, end to end: after a client's request was handed to a waiting worker
  and the worker sent a result for it, the client has received exactly that result under its id, waits for
  nothing, has as many links as before the request, and no id is left registered.
\<close>

theorem call_roundtrip:
  assumes line: "line_of s name q ql" "\<not> ql_locked ql" "n < length (ql_queue ql)" "n < length (s_loops s)"
    and head: "q_workers (ql_queue ql ! n) = w # ws"
    and conns: "s_conns s c = Some rc" "s_conns s w = Some rw" "c \<noteq> w" "fit rc rw" "1 < c_link rw"
      "c_nloop rw < length (s_loops s)"
    and kind: "\<not> c_no_response rc" "\<not> c_noid rw" "\<not> c_fail_on_disconnect rw"
    and ident: "c_id rc \<noteq> []" "s_wait_response s (c_id rc) = None"
    and open_client: "\<not> is_closed rc" "0 < c_link rc" "c_nloop rc < length (s_loops s)" "c_nloop rw = c_need_loop rw"
  shows "\<exists>s1 s2 s3 rc'. client_request n name c s = (Inr 0, s1) \<and>
    upd_c w (\<lambda>r. r\<lparr>c_body := result\<rparr>) s1 = (Inr (), s2) \<and>
    worker_result (c_id rc) (Some w) s2 = (Inr 0, s3) \<and> s_conns s3 c = Some rc' \<and>
    c_send_buffer rc' = c_send_buffer rc @ response (c_keep_alive rc) ''200 OK'' [(''Id'', c_id rc)] result \<and>
    c_status rc' = Net \<and> c_link rc' = c_link rc \<and> s_wait_response s3 = s_wait_response s"
proof -
  from dispatch_run [OF line head conns kind ident] obtain s1 rw1 where 1: "client_request n name c s = (Inr 0, s1)"
    "s_conns s1 = (s_conns s)(c \<mapsto> rc\<lparr>c_link := c_link rc + 1, c_status := Client_wait_result\<rparr>, w \<mapsto> rw1)"
    "s_wait_response s1 = (s_wait_response s)(c_id rc \<mapsto> c)" "length (s_loops s1) = length (s_loops s)"
    "c_nloop rw1 = c_nloop rw" "c_need_loop rw1 = c_need_loop rw" by auto
  let ?s2 = "put_c w (rw1\<lparr>c_body := result\<rparr>) s1"
  have 2: "upd_c w (\<lambda>r. r\<lparr>c_body := result\<rparr>) s1 = (Inr (), ?s2)" by (rule upd_c_run) (simp add: 1(2))
  have "s_wait_response ?s2 (c_id rc) = Some c" "s_conns ?s2 w = Some (rw1\<lparr>c_body := result\<rparr>)"
    "s_conns ?s2 c = Some (rc\<lparr>c_link := c_link rc + 1, c_status := Client_wait_result\<rparr>)"
    using 1 conns(3) by simp_all
  note 3 = worker_result_run [OF this(1,3) _ _ _ this(2) conns(3)]
  show ?thesis
    by (rule exI, rule exI, rule exI, rule exI [where x = "emitted (response (c_keep_alive rc) ''200 OK''
          [(''Id'', c_id rc)] result) (rc\<lparr>c_status := Client_wait_result\<rparr>)\<lparr>c_status := Net\<rparr>"],
        rule conjI, rule 1(1), rule conjI, rule 2, rule conjI, rule 3)
      (use 1 open_client ident in \<open>simp_all add: is_closed_def fun_upd_idem\<close>)
qed

theorem call_roundtrip_witness:
  "\<exists>m s1 s2 s3 rc'. client_request 0 ''job'' 1 (demo m (demo_line [2] [])
       [1 \<mapsto> demo_conn 5\<lparr>c_id := ''15''\<rparr>, 2 \<mapsto> demo_conn 6\<lparr>c_status := Worker_wait_job\<rparr>]) = (Inr 0, s1) \<and>
     upd_c 2 (\<lambda>r. r\<lparr>c_body := ''pong''\<rparr>) s1 = (Inr (), s2) \<and>
     worker_result ''15'' (Some 2) s2 = (Inr 0, s3) \<and> s_conns s3 1 = Some rc' \<and>
     c_send_buffer rc' = response True ''200 OK'' [(''Id'', ''15'')] ''pong''"
proof -
  obtain m where m: "mapper_find m ''job'' = Inr (Suc 0)" using demo_mapper by blast
  let ?cs = "[1 \<mapsto> demo_conn 5\<lparr>c_id := ''15''\<rparr>, 2 \<mapsto> demo_conn 6\<lparr>c_status := Worker_wait_job\<rparr>]"
  from call_roundtrip [OF demo_line_of [OF m, of "demo_line [2] []" ?cs], of 0 2 "[]" 1 _ _ "''pong''"]
  show ?thesis by (intro exI [of _ m]) (fastforce simp: fit_def is_closed_def)
qed

text \<open>The last link of a client that has gone puts it on the list of its loop's dead connections.\<close>

definition unlinked :: "nat \<Rightarrow> connect \<Rightarrow> server \<Rightarrow> server" where
  "unlinked c r s = put_c c (r\<lparr>c_link := c_link r - 1\<rparr>) (if c_link r = 1
     then s\<lparr>s_loops := (s_loops s)[c_nloop r := (s_loops s ! c_nloop r)\<lparr>l_dead := l_dead (s_loops s ! c_nloop r) @ [c]\<rparr>]\<rparr>
     else s)"

lemma unlinked_run:
  assumes "s_conns s c = Some r" and "0 < c_link r" and "c_nloop r < length (s_loops s)"
  shows "conn_unlink c s = (Inr (), unlinked c r s)"
  using assms by (auto simp: conn_unlink_def thn_run bnd_run runs unlinked_def put_c_def)

lemma unlinked_sel [simp]:
  "s_conns (unlinked c r s) = (s_conns s)(c \<mapsto> r\<lparr>c_link := c_link r - 1\<rparr>)"
  "length (s_loops (unlinked c r s)) = length (s_loops s)" "s_jsonrpc2 (unlinked c r s) = s_jsonrpc2 s"
  "s_wait_response (unlinked c r s) = s_wait_response s"
  by (simp_all add: unlinked_def)

lemma gone_result_run:
  assumes "s_wait_response s i = Some c" and "s_conns s c = Some r" "is_closed r" "0 < c_link r" "c_nloop r < length (s_loops s)"
  shows "worker_result i (Some w) s =
    (Inr (- 2), unlinked c r (s\<lparr>s_wait_response := (s_wait_response s)(i := None)\<rparr>))"
proof -
  have unlink: "conn_unlink c (s\<lparr>s_wait_response := (s_wait_response s)(i := None)\<rparr>) =
      (Inr (), unlinked c r (s\<lparr>s_wait_response := (s_wait_response s)(i := None)\<rparr>))"
    by (rule unlinked_run) (use assms in simp_all)
  have "is_closed (r\<lparr>c_link := x\<rparr>)" for x using assms(3) by (simp add: is_closed_def)
  with assms(1,2) show ?thesis
    by (simp add: worker_result_def bnd_run thn_run runs unlink)
qed

text \<open>
  Claim C11. A result under an id nobody waits for is answered with 400, one for a client that has gone with
  499; in both cases only the worker receives something. The gone client has one link less and its id is free
  again, and with its last link it is put on the list of the connections its loop deletes.
\<close>

theorem result_refused:
  assumes "i \<noteq> []" "s_conns s w = Some rw" "\<not> is_closed rw" "c_nloop rw < length (s_loops s)"
    and "case s_wait_response s i of None \<Rightarrow> code = ''400 Wrong id''
      | Some c \<Rightarrow> c \<noteq> w \<and> code = ''499 Closed'' \<and>
          (\<exists>rc. s_conns s c = Some rc \<and> is_closed rc \<and> 0 < c_link rc \<and> c_nloop rc < length (s_loops s))"
  shows "\<exists>s' rw'. rpc_result i w s = (Inr (), s') \<and> s_conns s' w = Some rw' \<and>
    c_send_buffer rw' = c_send_buffer rw @ response (c_keep_alive rw) code [] (code_body (s_jsonrpc2 s) (- 1)) \<and>
    (\<forall>d. d \<noteq> w \<longrightarrow> map_option c_send_buffer (s_conns s' d) = map_option c_send_buffer (s_conns s d)) \<and>
    s_wait_response s' = (s_wait_response s)(i := None) \<and>
    (case s_wait_response s i of None \<Rightarrow> True
     | Some c \<Rightarrow> \<exists>rc rc'. s_conns s c = Some rc \<and> s_conns s' c = Some rc' \<and> c_link rc' = c_link rc - 1 \<and>
         (c_link rc = 1 \<longrightarrow> c \<in> set (l_dead (s_loops s' ! c_nloop rc))))"
proof (cases "s_wait_response s i")
  case None
  with assms show ?thesis
    by (simp add: rpc_result_def bnd_run thn_run runs worker_result_def is_closed_def fun_upd_idem)
next
  case (Some c)
  with assms obtain rc where rc: "c \<noteq> w" "code = ''499 Closed''" "s_conns s c = Some rc" "is_closed rc" "0 < c_link rc"
    "c_nloop rc < length (s_loops s)"
    by auto
  let ?s0 = "s\<lparr>s_loops := (s_loops s)[c_nloop rw := (s_loops s ! c_nloop rw)\<lparr>l_stat_result :=
      l_stat_result (s_loops s ! c_nloop rw) + 1\<rparr>]\<rparr>"
  let ?s1 = "unlinked c rc (?s0\<lparr>s_wait_response := (s_wait_response ?s0)(i := None)\<rparr>)"
  have gone: "worker_result i (Some w) ?s0 = (Inr (- 2), ?s1)"
    by (rule gone_result_run) (use Some rc in simp_all)
  have dead: "c \<in> set (l_dead (s_loops (emit w x ?s1) ! c_nloop rc))" if "c_link rc = 1" for x
    using that rc(1,6) assms(2,4)
    by (cases "c_nloop rc = c_nloop rw") (auto simp: emit_def told_def unlinked_def put_c_def)
  have "rpc_result i w s = (Inr (), put_c w ((emitted (response (c_keep_alive rw) code [] (code_body (s_jsonrpc2 s) (- 1))) rw)
      \<lparr>c_status := Net\<rparr>) (emit w (response (c_keep_alive rw) code [] (code_body (s_jsonrpc2 s) (- 1))) ?s1))"
    using rc(1,2) assms(1-4) gone by (simp add: rpc_result_def bnd_run thn_run runs)
  then show ?thesis using Some rc dead by (simp add: put_c_def)
qed

theorem result_refused_witness:
  "(\<exists>s' rw'. rpc_result ''7'' 2 (demo new_mapper (demo_line [] []) [2 \<mapsto> demo_conn 6]) = (Inr (), s') \<and>
     s_conns s' 2 = Some rw' \<and> c_send_buffer rw' = response True ''400 Wrong id'' [] []) \<and>
   (\<exists>s' rw'. rpc_result ''7'' 2 (demo new_mapper (demo_line [] [])
       [1 \<mapsto> demo_conn 5\<lparr>c_link := 1, c_socket_status := - 1\<rparr>, 2 \<mapsto> demo_conn 6]\<lparr>s_wait_response := [''7'' \<mapsto> 1]\<rparr>) = (Inr (), s') \<and>
     s_conns s' 2 = Some rw' \<and> c_send_buffer rw' = response True ''499 Closed'' [] [] \<and> 1 \<in> set (l_dead (s_loops s' ! 0)))"
proof
  show "\<exists>s' rw'. rpc_result ''7'' 2 (demo new_mapper (demo_line [] []) [2 \<mapsto> demo_conn 6]) = (Inr (), s') \<and>
     s_conns s' 2 = Some rw' \<and> c_send_buffer rw' = response True ''400 Wrong id'' [] []"
    using result_refused [of "''7''" "demo new_mapper (demo_line [] []) [2 \<mapsto> demo_conn 6]" 2 _ "''400 Wrong id''"]
    by (fastforce simp: is_closed_def code_body_def demo_def new_server_def start_threads_def)
  let ?s = "demo new_mapper (demo_line [] []) [1 \<mapsto> demo_conn 5\<lparr>c_link := 1, c_socket_status := - 1\<rparr>, 2 \<mapsto> demo_conn 6]
      \<lparr>s_wait_response := [''7'' \<mapsto> 1]\<rparr>"
  have "\<not> s_jsonrpc2 ?s" by (simp add: demo_def new_server_def start_threads_def)
  then show "\<exists>s' rw'. rpc_result ''7'' 2 ?s = (Inr (), s') \<and> s_conns s' 2 = Some rw' \<and>
     c_send_buffer rw' = response True ''499 Closed'' [] [] \<and> 1 \<in> set (l_dead (s_loops s' ! 0))"
    using result_refused [of "''7''" ?s 2 "demo_conn 6" "''499 Closed''"]
    by (fastforce simp: is_closed_def code_body_def)
qed

end
