(* ===== verification/Broker_Shape.thy ===== *)
theory Broker_Shape imports Broker_Invariant begin

text \<open>
  Two invariants of the reachable states that do not look into the queues: every queue line has one queue
  per loop (so that no handler indexes past the array), and no connection is ever in the status
  \<open>Migration\<close>, which the code tests for but nowhere sets.
\<close>

section \<open>One queue per loop\<close>

definition well_shaped :: "server \<Rightarrow> bool" where
  "well_shaped s = (s_active_loop s < s_threads s \<and> 1 \<le> s_threads s \<and> s_threads s \<le> 62 \<and> length (s_loops s) = s_threads s \<and>
     (\<forall>ql. Some ql \<in> set (s_queue_list s) \<longrightarrow> length (ql_queue ql) = s_threads s))"

lemma shape_upd_ql:
  assumes "\<And>ql. length (ql_queue (f ql)) = length (ql_queue ql)"
  shows "keeps well_shaped (upd_ql q f)"
proof
  fix s assume s: "well_shaped s"
  show "well_shaped (snd (upd_ql q f s))"
  proof (cases "\<exists>ql. get_ql q s = (Inr ql, s)")
    case True
    then obtain ql where g: "get_ql q s = (Inr ql, s)" by blast
    then have "Some ql \<in> set (s_queue_list s)" using get_ql_Inr [OF g] by (metis nth_mem)
    with s g assms show ?thesis
      by (auto simp: upd_ql_def bnd_run well_shaped_def dest!: set_update_subset_insert [THEN subsetD])
  next
    case False
    then have "\<exists>e. get_ql q s = (Inl e, s)" by (auto simp: get_ql_def split: option.splits)
    with s show ?thesis by (auto simp: upd_ql_def bnd_run)
  qed
qed

lemma shape_upd_queue_of: "keeps well_shaped (upd_queue_of q r f)"
  unfolding upd_queue_of_def get_queue_of_def
  by (intro keeps_intros shape_upd_ql) (auto intro!: keepsI simp: get_ql_def split: option.splits)

lemma shape_place_queue:
  "well_shaped s \<Longrightarrow> s_threads s = n \<Longrightarrow> place_queue (new_queue_line n key) s = (r, s') \<Longrightarrow> well_shaped s'"
  by (auto simp: place_queue_def well_shaped_def new_queue_line_def split: option.splits if_splits
      dest!: set_update_subset_insert [THEN subsetD])

interpretation shape_conn: conn_invariant well_shaped
proof
  show "keeps well_shaped (upd_queue_of q r (\<lambda>x. x\<lparr>q_workers := k x\<rparr>))" for q r k
    by (rule shape_upd_queue_of)
  show "keeps well_shaped (upd_ql q h)" if "\<And>ql. ql_queue (h ql) = ql_queue ql" for q h
    by (rule shape_upd_ql) (simp add: that)
qed (auto simp: well_shaped_def same_core_def upd_c_def upd_loop_def intro!: keepsI split: option.splits)

lemma shape_upd_loop: "keeps well_shaped (upd_loop n f)"
  by (rule keepsI) (auto simp: upd_loop_def well_shaped_def)

lemma shape_accept: "keeps well_shaped (add_connection jk fd c)"
  by (rule keepsI) (auto simp: add_connection_def loop_accept_def well_shaped_def prog_simps whenp_def conn_link_def
      get_c_def upd_c_def upd_loop_def get_loop_def split: option.splits prod.splits sum.splits if_splits)

text \<open>The service thread chooses among the loops there are.\<close>

lemma shape_balance: "keeps well_shaped (balance clock usage)"
proof
  fix s assume s: "well_shaped s"
  let ?us = "map (\<lambda>i. (usage i, sv_used (s_service s) i)) [0..<s_threads s]"
  show "well_shaped (snd (balance clock usage s))"
  proof (cases "cpu_loads (clock - sv_prev (s_service s)) ?us")
    case (Inl e)
    with s show ?thesis by (simp add: balance_def bnd_run)
  next
    case (Inr cpu)
    then have "length cpu = s_threads s" using cpu_loads_length [OF Inr] by simp
    moreover from this have "cpu \<noteq> []" using s by (auto simp: well_shaped_def)
    ultimately have "choose_loop cpu < s_threads s" using choose_loop_spec by metis
    with s Inr show ?thesis by (simp add: balance_def bnd_run well_shaped_def)
  qed
qed

interpretation shape: blind_invariant well_shaped
proof
  show "keeps well_shaped (delete_connections n)" for n
    unfolding delete_connections_def
    by (intro keeps_intros handler_keeps keeps_modify; simp add: harmless well_shaped_def)
  show "keeps well_shaped (migrate_one n c)" for n c
    unfolding migrate_one_def loop_accept_def
    by (intro keeps_intros shape_upd_loop handler_keeps; simp add: harmless)
  show "keeps well_shaped (balance clock usage)" for clock usage
    by (rule shape_balance)
  show "well_shaped s'" if "well_shaped s" "place_queue (new_queue_line (s_threads s) key) s = (x, s')"
    for s s' key x
    using shape_place_queue [OF that(1) refl that(2)] .
qed (auto simp: well_shaped_def dest!: set_update_subset_insert [THEN subsetD]
      intro!: shape_accept keeps_modify shape_upd_queue_of)

section \<open>No connection waits to be moved\<close>

definition settled :: "server \<Rightarrow> bool" where
  "settled s = ((\<forall>c r. s_conns s c = Some r \<longrightarrow> c_status r \<noteq> Migration) \<and>
     (\<forall>l \<in> set (s_loops s). \<not> l_accept_request l))"

lemma settled_upd_c: "tame f \<Longrightarrow> keeps settled (upd_c c f)"
  by (rule keepsI) (fastforce simp: settled_def tame_def upd_c_def split: option.splits if_splits)

lemma settled_upd_loop: "tame_loop f \<Longrightarrow> keeps settled (upd_loop n f)"
  by (rule keepsI)
    (auto simp: settled_def tame_loop_def upd_loop_def dest!: set_update_subset_insert [THEN subsetD] intro: nth_mem)

lemma settled_frame:
  "settled s \<Longrightarrow> s_conns s' = s_conns s \<Longrightarrow> s_loops s' = s_loops s \<Longrightarrow> settled s'"
  by (simp add: settled_def)

interpretation settled_conn: conn_invariant settled
proof
  show u: "keeps settled (upd_ql q h)" for q h
    by (rule keepsI) (auto simp: upd_ql_def bnd_run get_ql_def elim: settled_frame split: option.splits)
  show "keeps settled (upd_queue_of q r (\<lambda>x. x\<lparr>q_workers := k x\<rparr>))" for q r k
    unfolding upd_queue_of_def get_queue_of_def
    by (intro keeps_intros u) (auto intro!: keepsI simp: get_ql_def split: option.splits)
qed (auto intro: settled_upd_c settled_upd_loop elim: settled_frame simp: same_core_def)

lemma settled_upd_queue_of: "keeps settled (upd_queue_of q r f)"
  unfolding upd_queue_of_def upd_ql_def
  by (intro keeps_intros handler_keeps keeps_modify) (erule settled_frame; simp)

lemma settled_migrate_one: "keeps settled (migrate_one n c)"
proof
  fix s assume s: "settled s"
  show "settled (snd (migrate_one n c s))"
  proof (cases "s_conns s c")
    case None
    with s show ?thesis by (simp add: migrate_one_def bnd_run get_c_def)
  next
    case (Some r)
    with s have "c_status r \<noteq> Migration" by (simp add: settled_def)
    moreover have "keeps settled (loop_accept m c)" for m
      unfolding loop_accept_def by (intro keeps_intros handler_keeps; simp add: harmless)
    ultimately have "keeps settled (if c_nloop r \<noteq> n then ret ()
     else if \<not> c_go_loop r \<or> c_need_loop r = n then ret ()
     else
       thn (upd_c c (\<lambda>r. r\<lparr>c_go_loop := False\<rparr>))
      (if is_closed r then ret ()
       else
         thn (set_poll_mode n (c_fd r) (- 1))
        (thn (loop_accept (c_need_loop r) c)
             (whenp (c_status r = Migration)
                (thn (upd_loop (c_need_loop r) (\<lambda>l. l\<lparr>l_accept_request := True\<rparr>))
                     (wake (c_need_loop r)))))))"
      by (intro keeps_intros handler_keeps; simp add: harmless)
    from keepsD [OF this s] Some show ?thesis by (simp add: migrate_one_def bnd_run get_c_def)
  qed
qed

lemma settled_accept: "keeps settled (add_connection jk fd c)"
proof -
  have new: "keeps settled (modify (\<lambda>s. s\<lparr>s_conns := (s_conns s)(c \<mapsto> new_connect jk fd),
              s_connections := (s_connections s)(fd \<mapsto> c)\<rparr>))"
    by (rule keeps_modify) (auto simp: settled_def new_connect_def)
  have "keeps settled (loop_accept active c)" for active
    unfolding loop_accept_def by (intro keeps_intros handler_keeps; simp add: harmless)
  then show ?thesis
    unfolding add_connection_def by (intro keeps_intros new handler_keeps settled_conn.other_modify; simp add: harmless)
qed

lemma settled_balance: "keeps settled (balance clock usage)"
  unfolding balance_def by (intro keeps_intros keeps_modify; simp add: settled_def)

interpretation settled: blind_invariant settled
proof
  show "keeps settled (delete_connections n)" for n
    unfolding delete_connections_def
    by (intro keeps_intros handler_keeps keeps_modify; simp add: harmless settled_def)
qed (auto intro!: keeps_modify settled_upd_queue_of settled_migrate_one settled_accept settled_balance
      elim: settled_frame simp: place_queue_def split: option.splits if_splits)

section \<open>Properties\<close>

lemma start_shaped: "well_shaped (new_server threads jsonrpc2 version now rnd jnk mem)"
  unfolding well_shaped_def new_server_def start_threads_def Let_def by (auto simp: nat_le_iff Suc_le_eq)

text \<open>
  Claim C20. In every state the broker can reach from its start, there are as many loops as threads,
  between 1 and 62 of them, every queue line has exactly one queue per loop, and the loop that gets new
  connections is one of them: the index of a loop is always within the arrays of loops and of a line.
\<close>

theorem reachable_shape:
  assumes "reachable (new_server threads jsonrpc2 version now rnd jnk mem) s"
  shows "1 \<le> s_threads s \<and> s_threads s \<le> 62 \<and> length (s_loops s) = s_threads s \<and> s_active_loop s < s_threads s \<and>
    (\<forall>ql. Some ql \<in> set (s_queue_list s) \<longrightarrow> length (ql_queue ql) = s_threads s)"
proof -
  have "well_shaped s"
    using assms by (rule shape.reachable_keeps) (rule start_shaped)
  then show ?thesis by (simp add: well_shaped_def)
qed

text \<open>
  Claim C21. No reachable state has a connection in the status \<^verbatim>\<open>migration\<close> or a loop asked to accept
  requests: the part of \<^verbatim>\<open>_migrate_recv\<close> that repeats the request of a moved client is never run, it
  returns at its first test.
\<close>

theorem reachable_settled:
  assumes "reachable (new_server threads jsonrpc2 version now rnd jnk mem) s" and "n < s_threads s"
  shows "(\<forall>c r. s_conns s c = Some r \<longrightarrow> c_status r \<noteq> Migration) \<and> migrate_recv n s = (Inr (), s)"
proof -
  have "settled s"
    using assms(1) by (rule settled.reachable_keeps) (simp add: settled_def new_server_def new_loop_def)
  moreover have "well_shaped s"
    using assms(1) by (rule shape.reachable_keeps) (rule start_shaped)
  ultimately show ?thesis
    using assms(2) by (simp add: settled_def well_shaped_def migrate_recv_def get_loop_def bnd_run)
qed

theorem reachable_shape_witness:
  "\<exists>s. reachable (new_server 3 False ''1'' 0 (\<lambda>_. 0) 0 calm_memory) s \<and> s_threads s = 3 \<and> length (s_loops s) = 3"
proof -
  let ?s = "new_server 3 False ''1'' 0 (\<lambda>_. 0) 0 calm_memory"
  have "s_threads ?s = 3" by (simp add: new_server_def start_threads_def)
  with reachable_shape [OF reachable.init [of ?s]] reachable.init [of ?s] show ?thesis by auto
qed

theorem reachable_settled_witness:
  "\<exists>s. reachable (new_server 3 False ''1'' 0 (\<lambda>_. 0) 0 calm_memory) s \<and> migrate_recv 2 s = (Inr (), s)"
proof -
  let ?s = "new_server 3 False ''1'' 0 (\<lambda>_. 0) 0 calm_memory"
  have "2 < s_threads ?s" by (simp add: new_server_def start_threads_def)
  with reachable_settled [OF reachable.init [of ?s], of 2] reachable.init [of ?s] show ?thesis by auto
qed

end
