(* ===== verification/Broker_Ids.thy ===== *)
theory Broker_Ids imports Broker_Runs Numerals begin

text \<open>
  The identifiers the broker makes up for requests and workers without one: a counter in the high half of a
  32-bit number and a random low half, in hexadecimal.
\<close>

lemma hex_bytes_inject:
  assumes "hex_bytes (ucast (v :: 32 word)) = hex_bytes (ucast (w :: 32 word))"
  shows "v = w"
proof -
  have "to_i64 (uint (ucast v :: 64 word)) = to_i64 (uint (ucast w :: 64 word))"
    using hextoi_hex_bytes [of "ucast v"] hextoi_hex_bytes [of "ucast w"] assms by simp
  moreover have "to_i64 (uint (ucast x :: 64 word)) = uint x" for x :: "32 word"
  proof -
    have "uint x < 4294967296" using unsigned_less [of x, where 'a = int] by simp
    moreover from this have "uint (ucast x :: 64 word) = uint x"
      by (simp add: unsigned_ucast_eq take_bit_int_eq_self_iff)
    moreover have "0 \<le> uint x" by simp
    ultimately have "to_i64 (uint x) = uint x" by (intro to_i64_id) linarith+
    with \<open>uint (ucast x :: 64 word) = uint x\<close> show ?thesis by simp
  qed
  ultimately show ?thesis by (simp add: word_uint_eq_iff)
qed

lemma id_counter:
  fixes i r :: "32 word"
  shows "unat (push_bit 16 i + and r 0xffff) div 65536 = unat i mod 65536"
proof -
  have low: "unat (and r 0xffff) = unat r mod 65536"
  proof -
    have "and r 0xffff = take_bit 16 r" by (simp add: take_bit_eq_mask mask_eq_exp_minus_1)
    then have "unat (and r 0xffff) = take_bit 16 (unat r)" by (simp only: unsigned_take_bit_eq)
    then show ?thesis by (simp add: take_bit_eq_mod)
  qed
  have high: "unat (push_bit 16 i) = (unat i mod 65536) * 65536"
    unfolding unsigned_push_bit_eq by (simp add: push_bit_eq_mult take_bit_eq_mod mult_mod_left)
  have "(unat i mod 65536) * 65536 + unat r mod 65536 < 2 ^ 32"
    using mod_less_divisor [of 65536 "unat i"] mod_less_divisor [of 65536 "unat r"] by simp
  then have "unat (push_bit 16 i + and r 0xffff) = (unat i mod 65536) * 65536 + unat r mod 65536"
    unfolding unat_word_ariths by (simp add: low high)
  then show ?thesis by simp
qed

lemma shifted_counter:
  fixes i :: "32 word"
  assumes "0 < k" and "k < 65536"
  shows "unat (i + of_nat k) mod 65536 \<noteq> unat i mod 65536"
proof -
  have "unat (of_nat k :: 32 word) = k" using assms(2) by (simp add: unat_of_nat)
  then have "unat (i + of_nat k) mod 65536 = (unat i + k) mod 65536"
    unfolding unat_word_ariths by (simp add: mod_mod_cancel)
  moreover have "(unat i + k) mod 65536 \<noteq> unat i mod 65536"
  proof
    assume "(unat i + k) mod 65536 = unat i mod 65536"
    then have "65536 dvd k" using mod_eq_dvd_iff_nat [of "unat i" "unat i + k" 65536] by simp
    with assms show False by (auto dest: dvd_imp_le)
  qed
  ultimately show ?thesis by simp
qed

section \<open>A run of calls\<close>

text \<open>\<open>n\<close> identifiers, one after the other; \<open>f n\<close> is what the broker does after the call that leaves \<open>n\<close> more to make.\<close>

fun make_ids :: "(nat \<Rightarrow> server \<Rightarrow> server) \<Rightarrow> nat \<Rightarrow> (server, bytes list) prog" where
  "make_ids f 0 = ret []"
| "make_ids f (Suc n) = bnd generate_id (\<lambda>i. thn (modify (f n)) (bnd (make_ids f n) (\<lambda>is. ret (i # is))))"

text \<open>The identifier for a value of the counter and of \<^verbatim>\<open>rand\<close>.\<close>

definition id_of :: "32 word \<Rightarrow> 32 word \<Rightarrow> bytes" where
  "id_of i r = hex_bytes (ucast (push_bit 16 i + and r 0xffff))"

lemma generate_id_run:
  "generate_id s = (Inr (id_of (s_gen_index s + 1) (s_rand s (s_nrand s))),
     s\<lparr>s_gen_index := s_gen_index s + 1, s_nrand := s_nrand s + 1\<rparr>)"
  by (simp add: generate_id_def id_of_def Let_def)

lemma make_ids_run:
  "\<forall>n s. s_gen_index (f n s) = s_gen_index s \<Longrightarrow>
   \<exists>is s'. make_ids f n s = (Inr is, s') \<and> length is = n \<and>
     (\<forall>j < n. \<exists>r. is ! j = id_of (s_gen_index s + 1 + of_nat j) r)"
proof (induction n arbitrary: s)
  case 0
  then show ?case by simp
next
  case (Suc n)
  let ?s = "f n (s\<lparr>s_gen_index := s_gen_index s + 1, s_nrand := s_nrand s + 1\<rparr>)"
  have i: "s_gen_index ?s = s_gen_index s + 1" using Suc.prems by simp
  from Suc.IH [OF Suc.prems, of ?s] obtain ids s' where
    run: "make_ids f n ?s = (Inr ids, s')" "length ids = n"
    and ids: "\<forall>j < n. \<exists>r. ids ! j = id_of (s_gen_index s + 1 + 1 + of_nat j) r" unfolding i by blast
  let ?i = "id_of (s_gen_index s + 1) (s_rand s (s_nrand s))"
  have "\<exists>r. (?i # ids) ! j = id_of (s_gen_index s + 1 + of_nat j) r" if j: "j < Suc n" for j
  proof (cases j)
    case 0
    then show ?thesis by auto
  next
    case (Suc k)
    with ids j show ?thesis by (auto simp: add.assoc)
  qed
  moreover have "make_ids f (Suc n) s = (Inr (?i # ids), s')"
    by (simp add: bnd_run thn_run generate_id_run run(1) [simplified])
  ultimately show ?case using run(2) by (intro exI [of _ "?i # ids"] exI [of _ s']) simp
qed

lemma id_of_distinct:
  assumes "j < k" and "k - j < 65536"
  shows "id_of (i + of_nat j) r \<noteq> id_of (i + of_nat k) r'"
proof
  assume "id_of (i + of_nat j) r = id_of (i + of_nat k) r'"
  moreover have k: "i + of_nat k = i + of_nat j + of_nat (k - j)" using assms(1) by (simp add: of_nat_diff)
  ultimately have "unat (i + of_nat j + of_nat (k - j)) mod 65536 = unat (i + of_nat j) mod 65536"
    using hex_bytes_inject id_counter [of "i + of_nat j" r] id_counter [of "i + of_nat k" r'] unfolding id_of_def by metis
  with shifted_counter [of "k - j" "i + of_nat j"] assms show False by simp
qed

section \<open>Properties\<close>

text \<open>
  Claim C40. Identifiers that are made up one after the other, at most 65536 of them, are different, whatever \<^verbatim>\<open>rand\<close>
  returns and whatever the broker does in between that leaves the counter alone: the counter keeps them apart.
\<close>

theorem ids_distinct:
  assumes "n \<le> 65536" and "\<forall>n s. s_gen_index (f n s) = s_gen_index s"
  shows "\<exists>is s'. make_ids f n s = (Inr is, s') \<and> length is = n \<and> distinct is"
proof -
  from make_ids_run [OF assms(2)] obtain ids s' where run: "make_ids f n s = (Inr ids, s')" "length ids = n"
    and ids: "\<forall>j < n. \<exists>r. ids ! j = id_of (s_gen_index s + 1 + of_nat j) r" by blast
  have less: "ids ! j \<noteq> ids ! k" if "j < k" "k < n" for j k
  proof -
    from ids that obtain r r' where "ids ! j = id_of (s_gen_index s + 1 + of_nat j) r"
      "ids ! k = id_of (s_gen_index s + 1 + of_nat k) r'" by (meson less_trans)
    with id_of_distinct [OF that(1)] that assms(1) show ?thesis by simp
  qed
  have "distinct ids" unfolding distinct_conv_nth run(2) using less by (metis nat_neq_iff)
  with run show ?thesis by blast
qed

theorem ids_distinct_witness:
  "\<exists>is s'. make_ids (\<lambda>_ s. s\<lparr>s_now := s_now s + 1\<rparr>) 65536 (new_server 1 False ''1'' 0 (\<lambda>_. 7) 0 calm_memory) = (Inr is, s') \<and>
     length is = 65536 \<and> distinct is"
  by (rule ids_distinct) simp_all

end
