(* ===== verification/Broker_Names.thy ===== *)
theory Broker_Names imports Broker_Runs begin

text \<open>
  Queue lines by name, over the contract of the trie (locale \<open>queue_index\<close> of \<open>Mapper\<close>): a queue created on
  demand is found under its name, no other name or line is touched, and deleting it restores every lookup.
\<close>

lemma free_slot_Some:
  "free_slot i qs = Some k \<Longrightarrow> i \<le> k \<and> k - i < length qs \<and> qs ! (k - i) = None"
proof (induction i qs rule: free_slot.induct)
  case (3 i ql qs)
  then have "i + 1 \<le> k \<and> k - (i + 1) < length qs \<and> qs ! (k - (i + 1)) = None" by simp
  then show ?case by (cases "k - i") (auto simp: Suc_diff_Suc less_Suc_eq_0_disj, metis Suc_diff_Suc diff_Suc_eq_diff_pred diff_Suc_1 less_eq_Suc_le nth_Cons_Suc)
qed auto

lemma place_queue_run:
  assumes "length (s_queue_list s) < 65536"
  shows "\<exists>q s'. place_queue ql s = (Inr (Suc q), s') \<and> has_ql q ql s' \<and> q \<le> length (s_queue_list s) \<and>
    (\<forall>p ql'. has_ql p ql' s \<longrightarrow> has_ql p ql' s') \<and> s_mapper s' = s_mapper s"
proof (cases "free_slot 0 (s_queue_list s)")
  case None
  then show ?thesis
    using assms by (intro exI [of _ "length (s_queue_list s)"] exI [of _ "s\<lparr>s_queue_list := s_queue_list s @ [Some ql]\<rparr>"])
      (auto simp: place_queue_def has_ql_def nth_append)
next
  case (Some q)
  with free_slot_Some [OF Some] assms show ?thesis
    by (intro exI [of _ q] exI [of _ "s\<lparr>s_queue_list := (s_queue_list s)[q := Some ql]\<rparr>"])
      (auto simp: place_queue_def has_ql_def nth_list_update)
qed

lemma has_ql_flag [simp]: "has_ql q ql (s\<lparr>s_global_locked := b\<rparr>) = has_ql q ql s"
  by (simp add: has_ql_def)

text \<open>A name without a line gets one.\<close>

lemma get_queue_new:
  assumes "mapper_find (s_mapper s) key = Inr 0" and "\<not> s_global_locked s" and "length (s_queue_list s) < 65535"
    and "place_queue (new_queue_line (s_threads s) key) (s\<lparr>s_global_locked := True\<rparr>) = (Inr (Suc q), s1)"
    and "q \<le> length (s_queue_list s)" and "mapper_add key (Suc q) (s_mapper s1) = (Inr (), m)"
  shows "get_queue key True s = (Inr (Some q), s1\<lparr>s_mapper := m, s_global_locked := False\<rparr>)"
proof -
  have "Suc q mod 65536 = Suc q" using assms(3,5) by simp
  then show ?thesis
    using assms by (simp add: get_queue_def find_queue_def guard_global_def bnd_run thn_run Let_def mapper_op_def)
qed

lemma delete_queue_run:
  assumes "\<not> s_global_locked s" and "mapper_del key (s_mapper s) = (Inr (Suc q), m)"
    and "has_ql q (new_queue_line n key) s"
  shows "delete_queue key s = (Inr (), s\<lparr>s_mapper := m, s_queue_list := (s_queue_list s)[q := None]\<rparr>)"
proof -
  have "for_each (replicate n \<lparr>q_workers = [], q_clients = []\<rparr>) (\<lambda>q.
      thn (for_each (q_clients q) drop_client) (for_each (q_workers q) drop_worker)) = ret ()"
    by (induction n) simp_all
  then show ?thesis
    using assms
    by (simp add: delete_queue_def guard_global_def mapper_op_def bnd_run thn_run get_ql_def has_ql_def with_gc_def
        new_queue_line_def free_queue_line_def)
qed

section \<open>Properties\<close>

text \<open>
  Claim C33. A queue asked for under a new plain name is created empty with one queue per loop, is what every
  later lookup of the name finds, and neither another name's lookup nor another line is touched; deleting it
  by its name frees its slot and restores the answer of every lookup.
\<close>

theorem queue_lifecycle:
  assumes "wf_mapper (s_mapper s)" and "has_room (s_mapper s) key" and "\<not> is_pattern key"
    and "exact (s_mapper s) key = 0" and "mapper_find (s_mapper s) key = Inr 0"
    and "\<not> s_global_locked s" and "length (s_queue_list s) < 65535"
  shows "\<exists>q s1 s2. get_queue key True s = (Inr (Some q), s1) \<and>
    line_of s1 key q (new_queue_line (s_threads s) key) \<and> get_queue key b s1 = (Inr (Some q), s1) \<and>
    (\<forall>name. name \<noteq> key \<longrightarrow> mapper_find (s_mapper s1) name = mapper_find (s_mapper s) name) \<and>
    (\<forall>p ql. has_ql p ql s \<longrightarrow> has_ql p ql s1) \<and>
    delete_queue key s1 = (Inr (), s2) \<and> s_queue_list s2 ! q = None \<and>
    mapper_find (s_mapper s2) = mapper_find (s_mapper s)"
proof -
  let ?ql = "new_queue_line (s_threads s) key"
  obtain q s1 where p: "place_queue ?ql (s\<lparr>s_global_locked := True\<rparr>) = (Inr (Suc q), s1)" "has_ql q ?ql s1"
    "q \<le> length (s_queue_list s)" "\<forall>p ql'. has_ql p ql' s \<longrightarrow> has_ql p ql' s1" "s_mapper s1 = s_mapper s"
    using place_queue_run [of "s\<lparr>s_global_locked := True\<rparr>" ?ql] assms by auto
  from trie.insert_law [OF assms(1,2), of "Suc q"] assms(3) obtain m where
    m: "mapper_add key (Suc q) (s_mapper s) = (Inr (), m)" "wf_mapper m" "exact m = (exact (s_mapper s))(key := Suc q)"
      "star m = star (s_mapper s)" by auto
  from trie.remove_law [OF m(2), of key] assms(3) obtain m2 where
    m2: "mapper_del key m = (Inr (Suc q), m2)" "wf_mapper m2" "exact m2 = (exact m)(key := 0)" "star m2 = star m"
    using m(3) by auto
  let ?s1 = "s1\<lparr>s_mapper := m, s_global_locked := False\<rparr>"
  have get: "get_queue key True s = (Inr (Some q), ?s1)"
    by (rule get_queue_new [OF assms(5-7) p(1,3)]) (simp add: p(5) m(1))
  have find: "mapper_find m key = Inr (Suc q)"
    using trie.lookup_law [OF m(2)] m(3) by (simp add: pick_def pick_from_def)
  have line: "line_of ?s1 key q ?ql" using find p(2) by (simp add: line_of_def has_ql_def)
  have other: "mapper_find m name = mapper_find (s_mapper s) name" if "name \<noteq> key" for name
    using trie.pick_other [of "exact m" name "exact (s_mapper s)"] trie.lookup_law [OF m(2)]
      trie.lookup_law [OF assms(1)] m(3,4) that by simp
  have del: "delete_queue key ?s1 = (Inr (), ?s1\<lparr>s_mapper := m2, s_queue_list := (s_queue_list ?s1)[q := None]\<rparr>)"
    (is "_ = (_, ?s2)")
    by (rule delete_queue_run [where n = "s_threads s"]) (use m2 p(2) in \<open>simp_all add: has_ql_def\<close>)
  have "exact m2 = exact (s_mapper s)" "star m2 = star (s_mapper s)"
    using m(3,4) m2(3,4) assms(4) by (auto simp: fun_eq_iff)
  then have restored: "mapper_find m2 = mapper_find (s_mapper s)"
    using trie.lookup_law [OF m2(2)] trie.lookup_law [OF assms(1)] by (intro ext) simp
  show ?thesis
    by (rule exI [of _ q], rule exI [of _ ?s1], rule exI [of _ ?s2], intro conjI, rule get, rule line,
        rule get_queue_run, rule line)
      (use other p(2,4) del restored in \<open>auto simp: has_ql_def\<close>)
qed

theorem queue_lifecycle_witness:
  "\<exists>q s1 s2. get_queue ''job'' True (new_server 2 False ''1'' 0 (\<lambda>_. 0) 0 calm_memory) = (Inr (Some q), s1) \<and>
     get_queue ''job'' False s1 = (Inr (Some q), s1) \<and> delete_queue ''job'' s1 = (Inr (), s2)"
proof -
  let ?s = "new_server 2 False ''1'' 0 (\<lambda>_. 0) 0 calm_memory"
  have s: "s_mapper ?s = new_mapper" "\<not> s_global_locked ?s" "length (s_queue_list ?s) < 65535"
    by (simp_all add: new_server_def)
  have "has_room new_mapper ''job''" "\<not> is_pattern ''job''"
    by (simp_all add: has_room_def valid_name_def name_stem_def good_char_def u16_of_char_def schar_def
        new_mapper_def is_pattern_def)
  moreover have "mapper_find new_mapper ''job'' = Inr 0"
    using trie.lookup_law [OF wf_new_mapper, of "''job''"] new_mapper_empty
    by (simp add: pick_def pick_from_def)
  ultimately show ?thesis
    using queue_lifecycle [of ?s "''job''" False] s wf_new_mapper new_mapper_empty by simp blast
qed

end
