(* ===== verification/Broker_Cleaning.thy ===== *)
theory Broker_Cleaning imports Demo_State begin

text \<open>
  What the cleaning of the queues by the service thread leaves: the workers that still wait and the
  requests that are still wanted, in their order, with the links of the others undone. And what happens
  to the registration of a client when another one with the same id goes away.
\<close>

section \<open>Undone links\<close>

definition dropped :: "nat set \<Rightarrow> (nat \<Rightarrow> connect option) \<Rightarrow> nat \<Rightarrow> connect option" where
  "dropped X cs = (\<lambda>c. if c \<in> X then map_option (\<lambda>x. x\<lparr>c_link := c_link x - 1\<rparr>) (cs c) else cs c)"

definition linked :: "server \<Rightarrow> nat \<Rightarrow> bool" where
  "linked s c = (\<exists>x. s_conns s c = Some x \<and> 1 \<le> c_link x \<and> c_nloop x < length (s_loops s))"

lemma dropped_empty [simp]: "dropped {} cs = cs"
  by (simp add: dropped_def)

lemma dropped_dropped: "X \<inter> Y = {} \<Longrightarrow> dropped X (dropped Y cs) = dropped (X \<union> Y) cs"
  by (auto simp: dropped_def fun_eq_iff)

text \<open>States that agree but for the links of some connections and the dead lists.\<close>

definition after_drop :: "nat set \<Rightarrow> server \<Rightarrow> server \<Rightarrow> bool" where
  "after_drop X s s' = (s_conns s' = dropped X (s_conns s) \<and> length (s_loops s') = length (s_loops s))"

lemma linked_after: "after_drop X s s' \<Longrightarrow> c \<notin> X \<Longrightarrow> linked s' c = linked s c"
  by (simp add: after_drop_def linked_def dropped_def)

lemma after_drop_trans:
  "after_drop X s s' \<Longrightarrow> after_drop Y s' s'' \<Longrightarrow> X \<inter> Y = {} \<Longrightarrow> after_drop (X \<union> Y) s s''"
  by (auto simp: after_drop_def dropped_dropped Int_commute Un_commute)

lemma unlink_run:
  assumes "linked s c" and "has_ql q ql s"
  shows "\<exists>s'. conn_unlink c s = (Inr (), s') \<and> after_drop {c} s s' \<and> has_ql q ql s'"
proof -
  from assms(1) obtain x where x: "s_conns s c = Some x" "1 \<le> c_link x" "c_nloop x < length (s_loops s)"
    by (auto simp: linked_def)
  have "dropped {c} (s_conns s) = (s_conns s)(c \<mapsto> x\<lparr>c_link := c_link x - 1\<rparr>)"
    using x by (auto simp: dropped_def)
  with x assms(2) show ?thesis
    by (cases "c_link x = 1") (auto simp: conn_unlink_def bnd_run thn_run runs after_drop_def)
qed

section \<open>The two loops\<close>

definition waits :: "server \<Rightarrow> nat \<Rightarrow> bool" where
  "waits s w = (case s_conns s w of None \<Rightarrow> False | Some x \<Rightarrow> \<not> is_closed x \<and> c_status x = Worker_wait_job)"

definition wanted :: "server \<Rightarrow> message \<Rightarrow> bool" where
  "wanted s m = (case msg_conn m of None \<Rightarrow> True | Some c \<Rightarrow>
     (case s_conns s c of None \<Rightarrow> False | Some x \<Rightarrow> \<not> is_closed x \<and> c_status x = Client_wait_result))"

definition senders :: "message list \<Rightarrow> nat list" where
  "senders ms = List.map_filter msg_conn ms"

lemma senders_simps [simp]:
  "senders [] = []" "senders (m # ms) = (case msg_conn m of None \<Rightarrow> senders ms | Some c \<Rightarrow> c # senders ms)"
  by (simp_all add: senders_def List.map_filter_def split: option.splits)

lemma senders_filter: "set (senders (filter P ms)) \<subseteq> set (senders ms)"
  by (induction ms) (auto split: option.splits)

lemma waits_after: "after_drop X s s' \<Longrightarrow> waits s' = waits s"
  by (auto simp: fun_eq_iff waits_def after_drop_def dropped_def is_closed_def split: option.splits)

lemma wanted_after: "after_drop X s s' \<Longrightarrow> wanted s' = wanted s"
  by (auto simp: fun_eq_iff wanted_def after_drop_def dropped_def is_closed_def split: option.splits)

lemma clean_workers_run:
  "has_ql q ql s \<Longrightarrow> r < length (ql_queue ql) \<Longrightarrow> q_workers (ql_queue ql ! r) = kept @ ws \<Longrightarrow>
   distinct ws \<Longrightarrow> \<forall>w \<in> set ws. linked s w \<Longrightarrow>
   \<exists>s' ql'. clean_workers q r kept ws s = (Inr (), s') \<and> has_ql q ql' s' \<and>
     ql_queue ql' = (ql_queue ql)[r := (ql_queue ql ! r)\<lparr>q_workers := kept @ filter (waits s) ws\<rparr>] \<and>
     after_drop (set (filter (\<lambda>w. \<not> waits s w) ws)) s s'"
proof (induction ws arbitrary: kept s ql)
  case Nil
  then show ?case by (auto simp: after_drop_def)
next
  case (Cons w ws)
  then obtain x where x: "s_conns s w = Some x" by (auto simp: linked_def)
  show ?case
  proof (cases "waits s w")
    case True
    with x have "\<not> is_closed x" "c_status x = Worker_wait_job" by (simp_all add: waits_def)
    with Cons.IH [OF Cons.prems(1,2), of "kept @ [w]"] Cons.prems True x show ?thesis
      by (simp add: bnd_run runs)
  next
    case False
    with x have gone: "is_closed x \<or> c_status x \<noteq> Worker_wait_job" by (simp add: waits_def)
    let ?ql = "ql\<lparr>ql_queue := (ql_queue ql)[r := (ql_queue ql ! r)\<lparr>q_workers := kept @ ws\<rparr>]\<rparr>"
    have set_w: "set_workers q r (kept @ ws) s = (Inr (), put_ql q ?ql s)"
      using Cons.prems by (simp add: set_workers_def runs)
    have "linked (put_ql q ?ql s) w" "has_ql q ?ql (put_ql q ?ql s)"
      using Cons.prems by (simp_all add: linked_def has_ql_def)
    from unlink_run [OF this] obtain s1 where s1: "conn_unlink w (put_ql q ?ql s) = (Inr (), s1)"
      and drop: "after_drop {w} s s1" and ql1: "has_ql q ?ql s1" by (auto simp: after_drop_def)
    have "\<forall>v \<in> set ws. linked s1 v"
      using Cons.prems linked_after [OF drop] by (metis distinct.simps(2) list.set_intros(2) singletonD)
    with Cons.IH [OF ql1, of kept] Cons.prems obtain s' ql' where
      run: "clean_workers q r kept ws s1 = (Inr (), s')" and ql': "has_ql q ql' s'"
        "ql_queue ql' = (ql_queue ql)[r := (ql_queue ql ! r)\<lparr>q_workers := kept @ filter (waits s1) ws\<rparr>]"
      and rest: "after_drop (set (filter (\<lambda>w. \<not> waits s1 w) ws)) s1 s'" by auto
    have "after_drop (set (filter (\<lambda>v. \<not> waits s v) (w # ws))) s s'"
      using after_drop_trans [OF drop rest] Cons.prems(4) False by (simp add: waits_after [OF drop])
    with run ql' show ?thesis
      using x gone False by (auto simp: bnd_run thn_run runs set_w s1 waits_after [OF drop])
  qed
qed

lemma clean_clients_run:
  "has_ql q ql s \<Longrightarrow> r < length (ql_queue ql) \<Longrightarrow> q_clients (ql_queue ql ! r) = kept @ ms \<Longrightarrow>
   distinct (senders ms) \<Longrightarrow> \<forall>c \<in> set (senders ms). linked s c \<Longrightarrow>
   \<exists>s' ql'. clean_clients q r kept ms s = (Inr (), s') \<and> has_ql q ql' s' \<and>
     ql_queue ql' = (ql_queue ql)[r := (ql_queue ql ! r)\<lparr>q_clients := kept @ filter (wanted s) ms\<rparr>] \<and>
     after_drop (set (senders (filter (\<lambda>m. \<not> wanted s m) ms))) s s'"
proof (induction ms arbitrary: kept s ql)
  case Nil
  then show ?case by (auto simp: after_drop_def)
next
  case (Cons m ms)
  show ?case
  proof (cases "wanted s m")
    case True
    then have "dead_message m s = (Inr False, s)"
      by (auto simp: wanted_def dead_message_def bnd_run get_c_def split: option.splits)
    with Cons.IH [OF Cons.prems(1,2), of "kept @ [m]"] Cons.prems True show ?thesis
      by (auto simp: bnd_run split: option.splits)
  next
    case False
    then obtain c where c: "msg_conn m = Some c" by (auto simp: wanted_def split: option.splits)
    with Cons.prems obtain x where x: "s_conns s c = Some x" by (auto simp: linked_def)
    have dead: "dead_message m s = (Inr True, s)"
      using False c x by (auto simp: wanted_def dead_message_def bnd_run runs)
    let ?ql = "ql\<lparr>ql_queue := (ql_queue ql)[r := (ql_queue ql ! r)\<lparr>q_clients := kept @ ms\<rparr>]\<rparr>"
    have set_m: "set_clients q r (kept @ ms) s = (Inr (), put_ql q ?ql s)"
      using Cons.prems by (simp add: set_clients_def runs)
    have "linked (put_ql q ?ql s) c" "has_ql q ?ql (put_ql q ?ql s)"
      using Cons.prems c by (simp_all add: linked_def has_ql_def)
    from unlink_run [OF this] obtain s1 where s1: "conn_unlink c (put_ql q ?ql s) = (Inr (), s1)"
      and drop: "after_drop {c} s s1" and ql1: "has_ql q ?ql s1" by (auto simp: after_drop_def)
    have "\<forall>d \<in> set (senders ms). linked s1 d"
      using Cons.prems(4,5) c linked_after [OF drop] by simp metis
    with Cons.IH [OF ql1, of kept] Cons.prems c obtain s' ql' where
      run: "clean_clients q r kept ms s1 = (Inr (), s')" and ql': "has_ql q ql' s'"
        "ql_queue ql' = (ql_queue ql)[r := (ql_queue ql ! r)\<lparr>q_clients := kept @ filter (wanted s1) ms\<rparr>]"
      and rest: "after_drop (set (senders (filter (\<lambda>m. \<not> wanted s1 m) ms))) s1 s'" by auto
    have "after_drop (set (senders (filter (\<lambda>m. \<not> wanted s m) (m # ms)))) s s'"
      using after_drop_trans [OF drop rest] Cons.prems(4) False c senders_filter [of _ ms] by (auto simp: wanted_after [OF drop])
    with run ql' show ?thesis
      using dead False c by (auto simp: bnd_run thn_run set_m delete_message_def s1 wanted_after [OF drop])
  qed
qed

text \<open>
  Claim C15. Cleaning a queue takes out exactly the workers that are closed or no longer wait for a job and
  the requests whose client is closed or no longer waits for its result; the others keep their order, each
  connection taken out loses one link, and nothing else of any connection changes.
\<close>

theorem clean_queue_exact:
  assumes "has_ql q ql s" and "r < length (ql_queue ql)"
    and "ql_queue ql ! r = \<lparr>q_workers = ws, q_clients = ms\<rparr>"
    and "distinct (ws @ senders ms)" and "\<forall>c \<in> set (ws @ senders ms). linked s c"
  shows "\<exists>s' ql'. clean_queue q r s = (Inr (), s') \<and> has_ql q ql' s' \<and>
    ql_queue ql' = (ql_queue ql)[r := \<lparr>q_workers = filter (waits s) ws, q_clients = filter (wanted s) ms\<rparr>] \<and>
    s_conns s' = dropped (set (filter (\<lambda>w. \<not> waits s w) ws) \<union> set (senders (filter (\<lambda>m. \<not> wanted s m) ms))) (s_conns s)"
proof -
  obtain s1 ql1 where one: "clean_workers q r [] ws s = (Inr (), s1)" "has_ql q ql1 s1"
    "ql_queue ql1 = (ql_queue ql)[r := \<lparr>q_workers = filter (waits s) ws, q_clients = ms\<rparr>]"
    and drop: "after_drop (set (filter (\<lambda>w. \<not> waits s w) ws)) s s1"
    using clean_workers_run [OF assms(1,2), of "[]" ws] assms(3-5) by auto
  have apart: "set (filter (\<lambda>w. \<not> waits s w) ws) \<inter> set (senders ms) = {}" using assms(4) by auto
  then have "\<forall>c \<in> set (senders ms). linked s1 c" using assms(5) linked_after [OF drop] by auto
  with clean_clients_run [OF one(2), of r "[]" ms] one(3) assms(2,4) obtain s2 ql2 where
    two: "clean_clients q r [] ms s1 = (Inr (), s2)" "has_ql q ql2 s2"
      "ql_queue ql2 = (ql_queue ql)[r := \<lparr>q_workers = filter (waits s) ws, q_clients = filter (wanted s1) ms\<rparr>]"
    and rest: "after_drop (set (senders (filter (\<lambda>m. \<not> wanted s1 m) ms))) s1 s2" by auto
  have "after_drop (set (filter (\<lambda>w. \<not> waits s w) ws) \<union> set (senders (filter (\<lambda>m. \<not> wanted s1 m) ms))) s s2"
    by (rule after_drop_trans [OF drop rest]) (use apart senders_filter [of _ ms] in blast)
  moreover have "clean_queue q r s = (Inr (), s2)"
    using assms one two by (simp add: clean_queue_def bnd_run thn_run runs)
  ultimately show ?thesis
    using two(2,3) by (auto simp: after_drop_def wanted_after [OF drop])
qed

theorem clean_queue_exact_witness:
  "let s = demo new_mapper (demo_line [2, 3] []) [2 \<mapsto> demo_conn 6, 3 \<mapsto> demo_conn 7\<lparr>c_status := Worker_wait_job\<rparr>] in
   \<exists>s' ql'. clean_queue 0 0 s = (Inr (), s') \<and> has_ql 0 ql' s' \<and>
    ql_queue ql' = [\<lparr>q_workers = [3], q_clients = []\<rparr>] \<and> s_conns s' = dropped {2} (s_conns s)"
proof -
  let ?s = "demo new_mapper (demo_line [2, 3] []) [2 \<mapsto> demo_conn 6, 3 \<mapsto> demo_conn 7\<lparr>c_status := Worker_wait_job\<rparr>]"
  have "has_ql 0 (demo_line [2, 3] []) ?s" by (simp add: has_ql_def)
  from clean_queue_exact [OF this, of 0 "[2, 3]" "[]"] show ?thesis
    by (simp add: linked_def waits_def is_closed_def)
qed

section \<open>Clients with the same id\<close>

text \<open>
  Claim C19. When a client that waits in a queue goes away and another client is registered for a result
  under the same id, the registration of the other client is erased: the result that a worker sends for it
  is refused as unknown. The client that has gone loses a link that was never counted for it.
\<close>

theorem disconnect_erases_other:
  assumes "s_conns s c = Some x" and "c_status x = Client_wait_result" and "c_id x \<noteq> []"
    and "s_wait_response s (c_id x) = Some d" and "d \<noteq> c"
    and "c_worker_item x = None" and "c_direct_message x = []" and "\<not> c_fail_on_disconnect x" and "1 < c_link x"
  shows "\<exists>s'. on_disconnect c s = (Inr (), s') \<and> s_conns s' d = s_conns s d \<and>
    s_conns s' c = Some (x\<lparr>c_link := c_link x - 1\<rparr>) \<and>
    s_wait_response s' = (s_wait_response s)(c_id x := None) \<and> worker_result (c_id x) w s' = (Inr (- 1), s')"
proof -
  let ?s = "put_c c (x\<lparr>c_link := c_link x - 1\<rparr>) (s\<lparr>s_wait_response := (s_wait_response s)(c_id x := None)\<rparr>)"
  have "on_disconnect c s = (Inr (), ?s)"
    using assms by (simp add: on_disconnect_def bnd_run thn_run runs)
  moreover have "worker_result (c_id x) w ?s = (Inr (- 1), ?s)"
    by (simp add: worker_result_def bnd_run)
  ultimately show ?thesis using assms(5) by auto
qed

theorem disconnect_erases_other_witness:
  "let s = (demo new_mapper (demo_line [] []) [1 \<mapsto> demo_conn 5\<lparr>c_id := ''15'', c_status := Client_wait_result\<rparr>,
       2 \<mapsto> demo_conn 6\<lparr>c_id := ''15'', c_status := Client_wait_result\<rparr>])\<lparr>s_wait_response := [''15'' \<mapsto> 1]\<rparr> in
   \<exists>s'. on_disconnect 2 s = (Inr (), s') \<and> worker_result ''15'' (Some 3) s' = (Inr (- 1), s') \<and>
     s_conns s' 1 = s_conns s 1"
  using disconnect_erases_other [of "(demo new_mapper (demo_line [] []) [1 \<mapsto> demo_conn 5\<lparr>c_id := ''15'', c_status := Client_wait_result\<rparr>,
       2 \<mapsto> demo_conn 6\<lparr>c_id := ''15'', c_status := Client_wait_result\<rparr>])\<lparr>s_wait_response := [''15'' \<mapsto> 1]\<rparr>" 2
       "demo_conn 6\<lparr>c_id := ''15'', c_status := Client_wait_result\<rparr>" 1 "Some 3"]
  by auto

end
