(* ===== verification/Broker_Timeouts.thy ===== *)
theory Broker_Timeouts imports Demo_State begin

text \<open>
  The timeouts of waiting workers (\<^verbatim>\<open>Loop::_check_timeout\<close>): which connections a look at all queues changes, and how.
\<close>

section \<open>One worker\<close>

text \<open>Nothing happens to a worker that asked for no timeout, has time left, is gone or no longer waits. The others are
  told so and are free, and their next timeout is counted from now.\<close>

definition expired :: "32 word \<Rightarrow> connect \<Rightarrow> bool" where
  "expired now r = (c_ping r \<noteq> 0 \<and> \<not> c_ping_timeout r > now \<and> \<not> is_closed r \<and> c_status r = Worker_wait_job)"

definition timed :: "32 word \<Rightarrow> connect \<Rightarrow> connect" where
  "timed now r = (if expired now r
     then emitted (response (c_keep_alive r) ''408 Timeout'' [] [])
       (r\<lparr>c_status := (if c_worker_mode r then Worker_mode_async else Net)\<rparr>)\<lparr>c_ping_timeout := now + c_ping r\<rparr>
     else r)"

lemma timed_sel [simp]: "c_nloop (timed now r) = c_nloop r"
  by (simp add: timed_def)

lemma timed_twice [simp]: "timed now (timed now r) = timed now r"
proof (cases "expired now r")
  case True
  then have "\<not> expired now (timed now r)" by (auto simp: timed_def expired_def)
  then show ?thesis by (simp add: timed_def [of now "timed now r"])
qed (simp add: timed_def)

text \<open>The connections of \<open>ws\<close> timed.\<close>

definition all_timed :: "32 word \<Rightarrow> nat set \<Rightarrow> (nat \<Rightarrow> connect option) \<Rightarrow> nat \<Rightarrow> connect option" where
  "all_timed now ws cs = (\<lambda>c. if c \<in> ws then map_option (timed now) (cs c) else cs c)"

lemma all_timed_twice: "all_timed now ws (all_timed now ws' cs) = all_timed now (ws \<union> ws') cs"
  by (auto simp: all_timed_def option.map_comp comp_def)

lemma all_timed_none [simp]: "all_timed now {} cs = cs"
  by (simp add: all_timed_def)

lemma timeout_worker_run:
  assumes "s_conns s w = Some r" and "c_nloop r < length (s_loops s)"
  shows "\<exists>ls. length ls = length (s_loops s) \<and>
    timeout_worker now w s = (Inr (), s\<lparr>s_conns := all_timed now {w} (s_conns s), s_loops := ls\<rparr>)"
proof (cases "expired now r")
  case False
  then have "timeout_worker now w s = (Inr (), s)" using assms by (auto simp: timeout_worker_def expired_def bnd_run runs)
  moreover have "all_timed now {w} (s_conns s) = s_conns s" using assms False by (auto simp: all_timed_def timed_def)
  ultimately show ?thesis by (intro exI [of _ "s_loops s"]) simp
next
  case True
  let ?r = "r\<lparr>c_status := (if c_worker_mode r then Worker_mode_async else Net)\<rparr>"
  have "timeout_worker now w s = (Inr (), s\<lparr>s_conns := (s_conns s)(w \<mapsto> timed now r), s_loops := told w ?r (s_loops s)\<rparr>)"
    using assms True
    by (simp add: timeout_worker_def expired_def timed_def free_worker_def bnd_run thn_run runs buffered_conns is_closed_def
        response_def emit_def put_c_def buffered_def told_def emitted_def)
  moreover have "all_timed now {w} (s_conns s) = (s_conns s)(w \<mapsto> timed now r)" using assms by (auto simp: all_timed_def)
  ultimately show ?thesis by (intro exI [of _ "told w ?r (s_loops s)"]) simp
qed

section \<open>All of them\<close>

text \<open>Connections that exist and belong to a loop.\<close>

definition seated :: "server \<Rightarrow> nat set \<Rightarrow> bool" where
  "seated s ws = (\<forall>w \<in> ws. \<exists>r. s_conns s w = Some r \<and> c_nloop r < length (s_loops s))"

text \<open>A program that, with the queue lines \<open>qls\<close>, times the connections \<open>ws\<close> and changes nothing else but what the loops
  are to send.\<close>

definition timing :: "queue_line option list \<Rightarrow> 32 word \<Rightarrow> (server, unit) prog \<Rightarrow> nat set \<Rightarrow> bool" where
  "timing qls now m ws = (\<forall>s. s_queue_list s = qls \<longrightarrow> seated s ws \<longrightarrow> (\<exists>ls. length ls = length (s_loops s) \<and>
     m s = (Inr (), s\<lparr>s_conns := all_timed now ws (s_conns s), s_loops := ls\<rparr>)))"

lemma timesD:
  assumes "timing qls now m ws" and "s_queue_list s = qls" and "seated s ws"
  obtains ls where "length ls = length (s_loops s)" and "m s = (Inr (), s\<lparr>s_conns := all_timed now ws (s_conns s), s_loops := ls\<rparr>)"
  using assms unfolding timing_def by blast

lemma seated_timed:
  "seated s ws' \<Longrightarrow> length ls = length (s_loops s) \<Longrightarrow> seated (s\<lparr>s_conns := all_timed now ws (s_conns s), s_loops := ls\<rparr>) ws'"
  by (fastforce simp: seated_def all_timed_def)

lemma times_ret: "timing qls now (ret ()) {}"
  unfolding timing_def ret_def by (intro allI impI, rule_tac x = "s_loops s" in exI, simp)

lemma times_thn:
  assumes "timing qls now m ws" and "timing qls now m' ws'"
  shows "timing qls now (thn m m') (ws' \<union> ws)"
  unfolding timing_def
proof (intro allI impI)
  fix s assume s: "s_queue_list s = qls" "seated s (ws' \<union> ws)"
  then have "seated s ws" "seated s ws'" by (auto simp: seated_def)
  with assms(1) s(1) obtain ls where 1: "length ls = length (s_loops s)"
    "m s = (Inr (), s\<lparr>s_conns := all_timed now ws (s_conns s), s_loops := ls\<rparr>)" unfolding timing_def by blast
  let ?s = "s\<lparr>s_conns := all_timed now ws (s_conns s), s_loops := ls\<rparr>"
  have "s_queue_list ?s = qls" "seated ?s ws'" using s(1) seated_timed [OF \<open>seated s ws'\<close> 1(1)] by simp_all
  with assms(2) obtain ls' where "length ls' = length (s_loops ?s)"
    "m' ?s = (Inr (), ?s\<lparr>s_conns := all_timed now ws' (s_conns ?s), s_loops := ls'\<rparr>)" unfolding timing_def by blast
  with 1 show "\<exists>ls. length ls = length (s_loops s) \<and>
      thn m m' s = (Inr (), s\<lparr>s_conns := all_timed now (ws' \<union> ws) (s_conns s), s_loops := ls\<rparr>)"
    by (intro exI [of _ ls']) (simp add: thn_run all_timed_twice)
qed

lemma times_for_each:
  "\<forall>x \<in> set xs. timing qls now (f x) (ws x) \<Longrightarrow> timing qls now (for_each xs f) (\<Union>x \<in> set xs. ws x)"
proof (induction xs)
  case Nil
  then show ?case by (simp only: for_each.simps list.set UN_empty times_ret)
next
  case (Cons x xs)
  then have "timing qls now (thn (f x) (for_each xs f)) ((\<Union>x \<in> set xs. ws x) \<union> ws x)" by (intro times_thn) auto
  then show ?case by (simp add: Un_commute)
qed

lemma times_worker: "timing qls now (timeout_worker now w) {w}"
  using timeout_worker_run by (auto simp: timing_def seated_def)

lemma times_guard:
  assumes "q < length qls" "qls ! q = Some ql" "\<not> ql_locked ql"
    and "timing (qls[q := Some (ql\<lparr>ql_locked := True\<rparr>)]) now m ws"
  shows "timing qls now (guard_ql q m) ws"
  unfolding timing_def
proof (intro allI impI)
  fix s assume s: "s_queue_list s = qls" "seated s ws"
  let ?s = "put_ql q (ql\<lparr>ql_locked := True\<rparr>) s"
  have "s_queue_list ?s = qls[q := Some (ql\<lparr>ql_locked := True\<rparr>)]" "seated ?s ws" using s by (simp_all add: seated_def)
  with assms(4) obtain ls where ls: "length ls = length (s_loops s)"
    "m ?s = (Inr (), ?s\<lparr>s_conns := all_timed now ws (s_conns s), s_loops := ls\<rparr>)" unfolding timing_def by fastforce
  have "guard_ql q m s = (Inr (), put_ql q (ql\<lparr>ql_locked := True\<rparr>\<lparr>ql_locked := False\<rparr>)
      (?s\<lparr>s_conns := all_timed now ws (s_conns s), s_loops := ls\<rparr>))"
    by (rule guard_ql_run [where m = m, OF _ assms(3) ls(2)]) (use s assms(1,2) in \<open>simp_all add: has_ql_def stuck_def\<close>)
  moreover have "ql\<lparr>ql_locked := True\<rparr>\<lparr>ql_locked := False\<rparr> = ql" using assms(3) by (cases ql) simp
  moreover have "qls[q := Some ql] = qls" using assms(1,2) by (metis list_update_id)
  ultimately have "guard_ql q m s = (Inr (), s\<lparr>s_conns := all_timed now ws (s_conns s), s_loops := ls\<rparr>)"
    using s(1) by (simp add: put_ql_def)
  with ls(1) show "\<exists>ls. length ls = length (s_loops s) \<and>
      guard_ql q m s = (Inr (), s\<lparr>s_conns := all_timed now ws (s_conns s), s_loops := ls\<rparr>)" by blast
qed

text \<open>The workers of a line, and of all lines.\<close>

definition line_workers :: "queue_line \<Rightarrow> nat set" where
  "line_workers ql = (\<Union>x \<in> set (ql_queue ql). set (q_workers x))"

definition all_workers :: "server \<Rightarrow> nat set" where
  "all_workers s = (\<Union>ql \<in> {ql. Some ql \<in> set (s_queue_list s)}. line_workers ql)"

lemma times_line:
  assumes "q < length qls" "qls ! q = Some ql" "\<not> ql_locked ql"
  shows "timing qls now (guard_ql q (bnd (get_ql q) (\<lambda>ql. for_each (ql_queue ql) (\<lambda>x. for_each (q_workers x) (timeout_worker now)))))
    (line_workers ql)"
proof (rule times_guard [OF assms])
  let ?qls = "qls[q := Some (ql\<lparr>ql_locked := True\<rparr>)]"
  have "timing ?qls now (for_each (ql_queue ql) (\<lambda>x. for_each (q_workers x) (timeout_worker now))) (line_workers ql)"
    unfolding line_workers_def
    by (rule times_for_each) (use times_for_each [of _ ?qls now "timeout_worker now" "\<lambda>w. {w}"] times_worker in auto)
  moreover have "get_ql q s = (Inr (ql\<lparr>ql_locked := True\<rparr>), s)" if "s_queue_list s = ?qls" for s
    by (rule get_ql_run) (use that assms(1) in \<open>simp add: has_ql_def\<close>)
  ultimately show "timing ?qls now (bnd (get_ql q) (\<lambda>ql. for_each (ql_queue ql) (\<lambda>x. for_each (q_workers x) (timeout_worker now))))
      (line_workers ql)"
    by (simp add: timing_def bnd_run)
qed

section \<open>Property\<close>

text \<open>
  Claim C16. A look at the timeouts goes over the workers of every queue once: a worker that waits, has asked for a
  timeout and has waited for it is sent 408 and is free, and its timeout starts again; every other worker and
  every connection that is in no queue is as before, and so are the queues, the registered ids and the locks.
\<close>

theorem timeouts_exact:
  assumes "\<not> s_global_locked s" and "\<forall>ql. Some ql \<in> set (s_queue_list s) \<longrightarrow> \<not> ql_locked ql"
    and "\<forall>w \<in> all_workers s. \<exists>r. s_conns s w = Some r \<and> c_nloop r < length (s_loops s)"
  shows "\<exists>ls. length ls = length (s_loops s) \<and> check_timeout s = (Inr (), s\<lparr>s_loops := ls, s_conns := (\<lambda>c.
    if c \<in> all_workers s then map_option (timed (s_now s)) (s_conns s c) else s_conns s c)\<rparr>)"
proof -
  let ?m = "\<lambda>q. guard_ql q (bnd (get_ql q) (\<lambda>ql. for_each (ql_queue ql) (\<lambda>x. for_each (q_workers x) (timeout_worker (s_now s)))))"
  let ?ws = "\<lambda>q. line_workers (the (s_queue_list s ! q))"
  have "timing (s_queue_list s) (s_now s) (?m q) (?ws q)" if q: "q \<in> set (queue_ids s)" for q
  proof -
    from q obtain ql where "q < length (s_queue_list s)" "s_queue_list s ! q = Some ql" by (auto simp: queue_ids_def)
    with assms(2) times_line [of q "s_queue_list s" ql "s_now s"] show ?thesis by (metis nth_mem option.sel)
  qed
  then have t: "timing (s_queue_list s) (s_now s) (for_each (queue_ids s) ?m) (\<Union>q \<in> set (queue_ids s). ?ws q)"
    by (intro times_for_each) auto
  have ws: "(\<Union>q \<in> set (queue_ids s). ?ws q) = all_workers s"
    by (force simp: queue_ids_def all_workers_def in_set_conv_nth)
  let ?s = "s\<lparr>s_global_locked := True\<rparr>"
  have "seated ?s (all_workers s)" using assms(3) by (simp add: seated_def)
  then obtain ls where ls: "length ls = length (s_loops s)"
    "for_each (queue_ids s) ?m ?s = (Inr (), ?s\<lparr>s_conns := all_timed (s_now s) (all_workers s) (s_conns s), s_loops := ls\<rparr>)"
    using timesD [OF t [unfolded ws], of ?s] by auto
  have "queue_ids ?s = queue_ids s" by (simp add: queue_ids_def)
  with ls assms(1) show ?thesis
    by (intro exI [of _ ls]) (simp add: check_timeout_def thn_run all_timed_def)
qed

theorem timeouts_exact_witness:
  "\<exists>ls. check_timeout (demo new_mapper (demo_line [3, 2] []) [3 \<mapsto> demo_conn 5\<lparr>c_status := Worker_wait_job\<rparr>,
       2 \<mapsto> demo_conn 6\<lparr>c_status := Worker_wait_job, c_ping := 60\<rparr>]) = (Inr (),
     (demo new_mapper (demo_line [3, 2] []) [3 \<mapsto> demo_conn 5\<lparr>c_status := Worker_wait_job\<rparr>,
       2 \<mapsto> emitted (response True ''408 Timeout'' [] []) (demo_conn 6\<lparr>c_ping := 60\<rparr>)\<lparr>c_ping_timeout := 60\<rparr>])\<lparr>s_loops := ls\<rparr>)"
proof -
  let ?cs = "[3 \<mapsto> demo_conn 5\<lparr>c_status := Worker_wait_job\<rparr>, 2 \<mapsto> demo_conn 6\<lparr>c_status := Worker_wait_job, c_ping := 60\<rparr>]"
  let ?s = "demo new_mapper (demo_line [3, 2] []) ?cs"
  have s: "\<not> s_global_locked ?s" "s_now ?s = 0" "all_workers ?s = {3, 2}"
    by (auto simp: demo_def new_server_def all_workers_def line_workers_def demo_line_def)
  have t: "timed 0 (demo_conn 5\<lparr>c_status := Worker_wait_job\<rparr>) = demo_conn 5\<lparr>c_status := Worker_wait_job\<rparr>"
    "timed 0 (demo_conn 6\<lparr>c_status := Worker_wait_job, c_ping := 60\<rparr>) =
      emitted (response True ''408 Timeout'' [] []) (demo_conn 6\<lparr>c_ping := 60\<rparr>)\<lparr>c_ping_timeout := 60\<rparr>"
    by (simp_all add: timed_def expired_def demo_conn_def new_connect_def is_closed_def)
  have open_lines: "\<forall>ql. Some ql \<in> set (s_queue_list ?s) \<longrightarrow> \<not> ql_locked ql" by simp
  have "\<forall>w \<in> all_workers ?s. \<exists>r. s_conns ?s w = Some r \<and> c_nloop r < length (s_loops ?s)" unfolding s(3) by simp
  from timeouts_exact [OF s(1) open_lines this, unfolded s(2,3) demo_sel] obtain ls where "check_timeout ?s = (Inr (), ?s\<lparr>s_loops := ls, s_conns := (\<lambda>c.
      if c \<in> {3, 2} then map_option (timed 0) (?cs c) else ?cs c)\<rparr>)" by blast
  moreover have "(\<lambda>c :: nat. if c \<in> {3, 2} then map_option (timed 0) (?cs c) else ?cs c) =
      [3 \<mapsto> demo_conn 5\<lparr>c_status := Worker_wait_job\<rparr>,
       2 \<mapsto> emitted (response True ''408 Timeout'' [] []) (demo_conn 6\<lparr>c_ping := 60\<rparr>)\<lparr>c_ping_timeout := 60\<rparr>]"
    using t by (intro ext) simp
  ultimately show ?thesis by (intro exI [of _ ls]) (simp add: demo_def)
qed

end
