(* ===== verification/Broker_Arrivals.thy ===== *)
theory Broker_Arrivals imports Broker_Calls "HOL-Library.Multiset" begin

text \<open>
  Requests that arrive one after the other at a queue without workers: the loop that finds each its place makes the
  queue the stable sort of the arrivals by priority.
\<close>

section \<open>Inserting is a stable sort\<close>

definition prio :: "message \<Rightarrow> int" where
  "prio m = - msg_priority m"

definition arrive :: "message list \<Rightarrow> message \<Rightarrow> message list" where
  "arrive ms m = insert_message m ms"

lemma arrive_sorted:
  assumes "sorted (map prio ms)"
  shows "arrive ms m = filter (\<lambda>x. prio x \<le> prio m) ms @ m # filter (\<lambda>x. prio m < prio x) ms"
    and "sorted (map prio (arrive ms m))"
proof -
  have "by_priority ms" using assms by (simp add: by_priority_def sorted_map prio_def)
  from insert_message_eq [OF this, of m] show eq: "arrive ms m = filter (\<lambda>x. prio x \<le> prio m) ms @ m # filter (\<lambda>x. prio m < prio x) ms"
    by (simp add: arrive_def prio_def)
  from assms show "sorted (map prio (arrive ms m))"
    unfolding eq by (auto simp: sorted_append sorted_filter)
qed

lemma arrive_filter:
  assumes "sorted (map prio ms)"
  shows "filter (\<lambda>x. k = prio x) (arrive ms m) = filter (\<lambda>x. k = prio x) (ms @ [m])" and "mset (arrive ms m) = mset (ms @ [m])"
proof -
  have "filter (\<lambda>x. k = prio x \<and> prio x \<le> prio m) ms = (if k \<le> prio m then filter (\<lambda>x. k = prio x) ms else [])"
    "filter (\<lambda>x. k = prio x \<and> prio m < prio x) ms = (if k \<le> prio m then [] else filter (\<lambda>x. k = prio x) ms)"
    by (auto simp: filter_empty_conv intro: filter_cong)
  then show "filter (\<lambda>x. k = prio x) (arrive ms m) = filter (\<lambda>x. k = prio x) (ms @ [m])"
    unfolding arrive_sorted(1) [OF assms] by (auto simp: conj_commute)
  have "mset (filter (\<lambda>x. prio x \<le> prio m) ms) + mset (filter (\<lambda>x. prio m < prio x) ms) = mset ms"
    by (simp add: mset_filter not_le [symmetric])
  then show "mset (arrive ms m) = mset (ms @ [m])" unfolding arrive_sorted(1) [OF assms] by simp
qed

lemma arrivals_sort: "foldl arrive [] ms = sort_key prio ms"
proof -
  have "sorted (map prio (foldl arrive [] ms)) \<and> mset (foldl arrive [] ms) = mset ms \<and>
      (\<forall>k. filter (\<lambda>x. k = prio x) (foldl arrive [] ms) = filter (\<lambda>x. k = prio x) ms)"
    by (induction ms rule: rev_induct) (simp_all add: arrive_sorted(2) arrive_filter)
  then show ?thesis by (intro properties_for_sort_key [symmetric]) auto
qed

section \<open>Requests one after the other\<close>

definition enqueue_all :: "nat \<Rightarrow> nat \<Rightarrow> bytes \<Rightarrow> nat list \<Rightarrow> (server, unit) prog" where
  "enqueue_all n q name cs = for_each cs (\<lambda>c. thn (enqueue n q name c) (ret ()))"

text \<open>A client whose request waits for a worker.\<close>

definition waits :: "connect \<Rightarrow> bool" where
  "waits r = (\<not> c_no_response r \<and> c_header_option r \<noteq> ''if present'')"

lemma enqueue_all_run:
  assumes "has_ql q ql s" and "n < length (ql_queue ql)" and "distinct cs"
    and "\<forall>c \<in> set cs. \<exists>r. s_conns s c = Some r \<and> waits r"
  shows "\<exists>s' ql'. enqueue_all n q name cs s = (Inr (), s') \<and> has_ql q ql' s' \<and>
    q_clients (ql_queue ql' ! n) = foldl arrive (q_clients (ql_queue ql ! n)) (map (\<lambda>c. client_message (the (s_conns s c)) c) cs)"
  using assms
proof (induction cs arbitrary: s ql)
  case Nil
  then show ?case by (auto simp: enqueue_all_def)
next
  case (Cons c cs)
  then obtain r where r: "s_conns s c = Some r" "waits r" by auto
  let ?ql = "with_message n (client_message r c) ql"
  let ?s = "put_c c (r\<lparr>c_required_worker := [], c_name := name, c_link := c_link r + 1, c_status := Client_wait_result\<rparr>)
    (put_ql q ?ql (put_c c (r\<lparr>c_required_worker := [], c_name := name, c_link := c_link r + 1\<rparr>) s))"
  have run: "enqueue n q name c s = (Inr 0, ?s)"
    using enqueue_run(1) [OF r(1) Cons.prems(1,2)] r(2) by (simp add: waits_def)
  have q: "has_ql q ?ql ?s" using Cons.prems(1) by (simp add: has_ql_def)
  have n: "n < length (ql_queue ?ql)" using Cons.prems(2) by (simp add: with_message_def)
  have same: "s_conns ?s d = s_conns s d" if "d \<in> set cs" for d using that Cons.prems(3) by auto
  then have "\<forall>c \<in> set cs. \<exists>r. s_conns ?s c = Some r \<and> waits r" using Cons.prems(4) by simp
  from Cons.IH [OF q n _ this] Cons.prems(3) obtain s' ql' where
    s': "enqueue_all n q name cs ?s = (Inr (), s')" "has_ql q ql' s'"
    "q_clients (ql_queue ql' ! n) = foldl arrive (q_clients (ql_queue ?ql ! n)) (map (\<lambda>c. client_message (the (s_conns ?s c)) c) cs)"
    by auto
  have "map (\<lambda>c. client_message (the (s_conns ?s c)) c) cs = map (\<lambda>c. client_message (the (s_conns s c)) c) cs"
    by (rule map_cong) (simp_all only: same)
  moreover have "q_clients (ql_queue ?ql ! n) = arrive (q_clients (ql_queue ql ! n)) (client_message r c)"
    using Cons.prems(2) by (simp add: with_message_def arrive_def)
  ultimately have "q_clients (ql_queue ql' ! n) =
      foldl arrive (q_clients (ql_queue ql ! n)) (map (\<lambda>c. client_message (the (s_conns s c)) c) (c # cs))"
    using s'(3) r(1) by (simp only: list.map foldl.simps option.sel)
  moreover have "enqueue_all n q name (c # cs) s = (Inr (), s')"
    using run s'(1) by (simp add: enqueue_all_def thn_run)
  ultimately show ?case using s'(2) by blast
qed

section \<open>Property\<close>

text \<open>
  Claim C6. Requests that arrive at an empty queue without workers wait in it sorted by priority, those of the same
  priority in the order they came: each client's message holds its priority and the worker it asked for.
\<close>

theorem arrivals_sorted:
  assumes "has_ql q ql s" and "n < length (ql_queue ql)" and "q_clients (ql_queue ql ! n) = []" and "distinct cs"
    and "\<forall>c \<in> set cs. \<exists>r. s_conns s c = Some r \<and> waits r"
  shows "\<exists>s' ql'. enqueue_all n q name cs s = (Inr (), s') \<and> has_ql q ql' s' \<and>
    q_clients (ql_queue ql' ! n) = sort_key (\<lambda>m. - msg_priority m) (map (\<lambda>c. client_message (the (s_conns s c)) c) cs)"
  using enqueue_all_run [OF assms(1,2,4,5)] assms(3) by (simp add: arrivals_sort prio_def [abs_def])

theorem arrivals_sorted_witness:
  "\<exists>s' ql'. enqueue_all 0 0 ''job'' [1, 2, 3] (demo new_mapper (demo_line [] [])
       [1 \<mapsto> demo_conn 5, 2 \<mapsto> demo_conn 6\<lparr>c_priority := 4\<rparr>, 3 \<mapsto> demo_conn 7\<lparr>c_priority := 4\<rparr>]) = (Inr (), s') \<and> has_ql 0 ql' s' \<and>
     map msg_conn (q_clients (ql_queue ql' ! 0)) = [Some 2, Some 3, Some 1]"
proof -
  let ?s = "demo new_mapper (demo_line [] [])
       [1 \<mapsto> demo_conn 5, 2 \<mapsto> demo_conn 6\<lparr>c_priority := 4\<rparr>, 3 \<mapsto> demo_conn 7\<lparr>c_priority := 4\<rparr>]"
  have "has_ql 0 (demo_line [] []) ?s" by (simp add: has_ql_def)
  from arrivals_sorted [OF this, of 0 "[1, 2, 3]" "''job''"] obtain s' ql' where
    "enqueue_all 0 0 ''job'' [1, 2, 3] ?s = (Inr (), s')" "has_ql 0 ql' s'"
    "q_clients (ql_queue ql' ! 0) = sort_key (\<lambda>m. - msg_priority m) (map (\<lambda>c. client_message (the (s_conns ?s c)) c) [1, 2, 3])"
    by (auto simp: waits_def)
  then show ?thesis by (intro exI [of _ s'] exI [of _ ql']) (simp add: client_message_def)
qed

end
