(* ===== verification/Broker_Losses.thy ===== *)
theory Broker_Losses imports Broker_Calls begin

text \<open>
  A worker that goes away with a request: what a client is told when the worker asked for its requests with
  \<^verbatim>\<open>fail_on_disconnect\<close>, with ids and without.
\<close>

section \<open>Handing a request to such a worker\<close>

definition job_text :: "bytes \<Rightarrow> connect \<Rightarrow> connect \<Rightarrow> bytes" where
  "job_text name rc rw = response (c_keep_alive rw) ''200 OK''
     (if c_noid rw then [(''Name'', name)] else [(''Id'', c_id rc), (''Name'', name)]) (c_body rc)"

lemma hand_over_bound_run:
  assumes "s_conns s c = Some rc" "s_conns s w = Some rw" "c \<noteq> w" "\<not> is_closed rw" "c_nloop rw < length (s_loops s)"
    and "\<not> c_no_response rc" "c_fail_on_disconnect rw"
    and "\<not> c_noid rw \<longrightarrow> c_id rc \<noteq> [] \<and> s_wait_response s (c_id rc) = None"
  shows "\<exists>s'. hand_over q name c w s = (Inr 0, s') \<and> s_queue_list s' = s_queue_list s \<and>
    s_conns s' = (s_conns s)(c \<mapsto> rc\<lparr>c_link := (if c_noid rw then 1 else 2) + c_link rc, c_status := Client_wait_result\<rparr>,
      w \<mapsto> emitted (job_text name rc rw) (rw\<lparr>c_client := Some c\<rparr>)\<lparr>c_status := if c_noid rw then Worker_wait_result else Net\<rparr>) \<and>
    s_wait_response s' = (if c_noid rw then s_wait_response s else (s_wait_response s)(c_id rc \<mapsto> c)) \<and>
    s_jsonrpc2 s' = s_jsonrpc2 s \<and> length (s_loops s') = length (s_loops s)"
proof (cases "c_noid rw")
  case True
  have "emitted t (rw\<lparr>c_client := Some c, c_status := x\<rparr>) = emitted t (rw\<lparr>c_client := Some c\<rparr>)\<lparr>c_status := x\<rparr>" for t x
    by (simp add: emitted_def)
  with hand_over_noid_run [OF assms(1-6) True, of q name] True show ?thesis
    by (auto simp only: job_text_def steady_def if_True add.commute)
next
  case False
  with assms show ?thesis
    by (simp add: hand_over_def attach_def bnd_run thn_run runs response_def buffered_conns is_closed_def fun_upd_twist job_text_def)
qed

section \<open>The worker goes\<close>

text \<open>The line a registered worker is in exists and its registration is one of its links.\<close>

definition in_ring :: "connect \<Rightarrow> server \<Rightarrow> bool" where
  "in_ring r s = (case c_worker_item r of None \<Rightarrow> True | Some q \<Rightarrow> 1 < c_link r \<and> (\<exists>ql. has_ql q ql s))"

definition out_of_ring :: "connect \<Rightarrow> connect" where
  "out_of_ring r = (if c_worker_item r = None then r else r\<lparr>c_link := c_link r - 1, c_worker_item := None\<rparr>)"

lemma out_of_ring_sel [simp]:
  "c_direct_message (out_of_ring r) = c_direct_message r" "c_status (out_of_ring r) = c_status r" "c_noid (out_of_ring r) = c_noid r"
  "c_fail_on_disconnect (out_of_ring r) = c_fail_on_disconnect r" "c_client (out_of_ring r) = c_client r"
  "c_worker_item (out_of_ring r) = None"
  by (simp_all add: out_of_ring_def)

text \<open>What is left of \<^verbatim>\<open>on_disconnect\<close> for a worker bound to its client.\<close>

lemma disconnect_run:
  assumes "s_conns s w = Some r" and "in_ring r s" and "c_direct_message r = []" and "c_status r \<noteq> Client_wait_result"
    and "c_fail_on_disconnect r"
  shows "\<exists>s1. s_conns s1 = (s_conns s)(w \<mapsto> out_of_ring r) \<and> s_wait_response s1 = s_wait_response s \<and>
    s_jsonrpc2 s1 = s_jsonrpc2 s \<and> length (s_loops s1) = length (s_loops s) \<and>
    on_disconnect w s =
      thn (if c_noid r then
             (if c_status r = Worker_wait_result then
                (case c_client r of
                   None \<Rightarrow> throw (Thrown ''No client'')
                 | Some d \<Rightarrow> bnd (get_c d) (\<lambda>client.
                     thn (whenp (\<not> is_closed client) (reply d ''503 Service Unavailable'' (- 1)))
                         (upd_c d (\<lambda>r. r\<lparr>c_status := Net\<rparr>))))
              else if c_client r \<noteq> None then throw (Thrown ''Client is linked to pending worker'')
              else ret ())
           else (case c_client r of
              None \<Rightarrow> ret ()
            | Some d \<Rightarrow> bnd (get_c d) (\<lambda>client. thn (worker_result (c_id client) None) (ret ()))))
      (bnd (get_c w) (\<lambda>r. case c_client r of
         None \<Rightarrow> ret ()
       | Some d \<Rightarrow> thn (conn_unlink d) (upd_c w (\<lambda>r. r\<lparr>c_client := None\<rparr>)))) s1"
proof (cases "c_worker_item r")
  case None
  then have "(s_conns s)(w \<mapsto> out_of_ring r) = s_conns s" using assms(1) by (simp add: out_of_ring_def fun_upd_idem)
  with None assms show ?thesis
    by (intro exI [of _ s]) (simp add: on_disconnect_def bnd_run thn_run runs cong: if_cong option.case_cong)
next
  case (Some q)
  with assms(2) obtain ql where ql: "has_ql q ql s" "1 < c_link r" by (auto simp: in_ring_def)
  let ?s1 = "put_c w (out_of_ring r) (put_c w (r\<lparr>c_link := c_link r - 1\<rparr>) (put_ql q (ql\<lparr>ql_ring := remove1 w (ql_ring ql)\<rparr>) s))"
  have pop: "ring_pop w s = (Inr (), ?s1)"
    using assms(1) Some ql by (simp add: ring_pop_def bnd_run thn_run runs out_of_ring_def)
  show ?thesis
    using assms Some pop
    by (intro exI [of _ ?s1]) (simp add: on_disconnect_def bnd_run thn_run runs cong: if_cong option.case_cong)
qed

text \<open>The client is told, in either way; then the bond between them is undone.\<close>

definition lost_text :: "bool \<Rightarrow> connect \<Rightarrow> bool \<Rightarrow> bytes" where
  "lost_text noid rc jsonrpc2 = response (c_keep_alive rc) ''503 Service Unavailable''
     (if noid then [] else [(''Id'', c_id rc)]) (code_body jsonrpc2 (- 1))"

lemma disconnect_told_run:
  assumes "s_conns s w = Some rw" and "in_ring rw s" and "c_direct_message rw = []" and "c_status rw = (if c_noid rw then Worker_wait_result else Net)"
    and "c_fail_on_disconnect rw" and "c_client rw = Some c" and "c \<noteq> w"
    and "s_conns s c = Some rc" "\<not> is_closed rc" "c_nloop rc < length (s_loops s)" "(if c_noid rw then 1 else 2) < c_link rc"
    and "\<not> c_noid rw \<longrightarrow> s_wait_response s (c_id rc) = Some c"
  shows "\<exists>s'. on_disconnect w s = (Inr (), s') \<and>
    s_conns s' = (s_conns s)(c \<mapsto> emitted (lost_text (c_noid rw) rc (s_jsonrpc2 s)) rc
        \<lparr>c_status := Net, c_link := c_link rc - (if c_noid rw then 1 else 2)\<rparr>, w \<mapsto> (out_of_ring rw)\<lparr>c_client := None\<rparr>) \<and>
    s_wait_response s' = (if c_noid rw then s_wait_response s else (s_wait_response s)(c_id rc := None))"
proof -
  have "c_status rw \<noteq> Client_wait_result" using assms(4) by (simp split: if_splits)
  from disconnect_run [OF assms(1-3) this assms(5)] obtain s1 where s1:
    "s_conns s1 = (s_conns s)(w \<mapsto> out_of_ring rw)" "s_wait_response s1 = s_wait_response s" "s_jsonrpc2 s1 = s_jsonrpc2 s"
    "length (s_loops s1) = length (s_loops s)"
    and run: "on_disconnect w s =
      thn (if c_noid rw then
             (if c_status rw = Worker_wait_result then
                (case c_client rw of
                   None \<Rightarrow> throw (Thrown ''No client'')
                 | Some d \<Rightarrow> bnd (get_c d) (\<lambda>client.
                     thn (whenp (\<not> is_closed client) (reply d ''503 Service Unavailable'' (- 1)))
                         (upd_c d (\<lambda>r. r\<lparr>c_status := Net\<rparr>))))
              else if c_client rw \<noteq> None then throw (Thrown ''Client is linked to pending worker'')
              else ret ())
           else (case c_client rw of
              None \<Rightarrow> ret ()
            | Some d \<Rightarrow> bnd (get_c d) (\<lambda>client. thn (worker_result (c_id client) None) (ret ()))))
      (bnd (get_c w) (\<lambda>r. case c_client r of
         None \<Rightarrow> ret ()
       | Some d \<Rightarrow> thn (conn_unlink d) (upd_c w (\<lambda>r. r\<lparr>c_client := None\<rparr>)))) s1" by blast
  have c1: "s_conns s1 c = Some rc" "s_conns s1 w = Some (out_of_ring rw)" "c_nloop rc < length (s_loops s1)" using s1 assms(7,8,10) by simp_all
  show ?thesis
  proof (cases "c_noid rw")
    case True
    with assms c1 s1 show ?thesis
      unfolding run by (simp add: bnd_run thn_run runs lost_text_def emitted_def fun_upd_twist)
  next
    case False
    with assms c1 s1 show ?thesis
      unfolding run
      by (simp add: worker_result_def bnd_run thn_run runs response_def buffered_conns is_closed_def lost_text_def emitted_def fun_upd_twist)
  qed
qed

section \<open>Property\<close>

lemma bound_dispatch_run:
  assumes line: "line_of s name q ql" "\<not> ql_locked ql" "n < length (ql_queue ql)" "n < length (s_loops s)"
    and head: "q_workers (ql_queue ql ! n) = w # ws"
    and conns: "s_conns s c = Some rc" "s_conns s w = Some rw" "c \<noteq> w" "fit rc rw" "1 < c_link rw"
      "c_nloop rw < length (s_loops s)"
    and kind: "\<not> c_no_response rc" "c_fail_on_disconnect rw"
      "\<not> c_noid rw \<longrightarrow> c_id rc \<noteq> [] \<and> s_wait_response s (c_id rc) = None"
  shows "\<exists>s'. client_request n name c s = (Inr 0, s') \<and>
    s_conns s' = (s_conns s)(c \<mapsto> rc\<lparr>c_link := (if c_noid rw then 1 else 2) + c_link rc, c_status := Client_wait_result\<rparr>,
      w \<mapsto> emitted (job_text name rc rw) (rw\<lparr>c_link := c_link rw - 1, c_status := Busy, c_client := Some c\<rparr>)
        \<lparr>c_status := if c_noid rw then Worker_wait_result else Net\<rparr>) \<and>
    s_wait_response s' = (if c_noid rw then s_wait_response s else (s_wait_response s)(c_id rc \<mapsto> c)) \<and>
    s_jsonrpc2 s' = s_jsonrpc2 s \<and> length (s_loops s') = length (s_loops s) \<and>
    s_queue_list s' = (s_queue_list s)[q := Some (took n ws ql)]"
proof -
  let ?s2 = "head_taken n q ws ql w rw s" and ?rw = "rw\<lparr>c_link := c_link rw - 1, c_status := Busy\<rparr>"
  have c2: "s_conns ?s2 c = Some rc" "s_conns ?s2 w = Some ?rw" "\<not> is_closed ?rw" "c_nloop ?rw < length (s_loops ?s2)"
    "c_fail_on_disconnect ?rw" "\<not> c_noid ?rw \<longrightarrow> c_id rc \<noteq> [] \<and> s_wait_response ?s2 (c_id rc) = None"
    using conns kind by (auto simp: fit_def is_closed_def)
  have job: "job_text name rc ?rw = job_text name rc rw" by (simp add: job_text_def)
  from hand_over_bound_run [OF c2(1,2) conns(3) c2(3,4) kind(1) c2(5,6), of q name] obtain s3 where
    s3: "hand_over q name c w ?s2 = (Inr 0, s3)" "s_queue_list s3 = s_queue_list ?s2"
    "s_conns s3 = (s_conns s)(c \<mapsto> rc\<lparr>c_link := (if c_noid rw then 1 else 2) + c_link rc, c_status := Client_wait_result\<rparr>,
      w \<mapsto> emitted (job_text name rc rw) (rw\<lparr>c_link := c_link rw - 1, c_status := Busy, c_client := Some c\<rparr>)
        \<lparr>c_status := if c_noid rw then Worker_wait_result else Net\<rparr>)"
    "s_wait_response s3 = (if c_noid rw then s_wait_response s else (s_wait_response s)(c_id rc \<mapsto> c))"
    "s_jsonrpc2 s3 = s_jsonrpc2 s" "length (s_loops s3) = length (s_loops s)"
    using conns(3) unfolding job by (auto simp: fun_upd_twist)
  from head_run [OF line head conns(1-5) s3(1,2)] show ?thesis using s3(2-6) by simp
qed

text \<open>
  Claim C9. A worker that asked with \<open>fail_on_disconnect\<close> and goes away with the request it was handed: the client is told
  \<open>503 Service Unavailable\<close> at once, under its id when the worker works with ids, and is free for its next request.
  The client is linked as it was before the request, nothing stays registered under its id, and the worker is
  bound to nobody and out of the ring.
\<close>

theorem worker_lost_told:
  assumes line: "line_of s name q ql" "\<not> ql_locked ql" "n < length (ql_queue ql)" "n < length (s_loops s)"
    and head: "q_workers (ql_queue ql ! n) = w # ws"
    and conns: "s_conns s c = Some rc" "s_conns s w = Some rw" "c \<noteq> w" "fit rc rw" "1 < c_link rw"
      "c_nloop rw < length (s_loops s)"
    and kind: "\<not> c_no_response rc" "c_fail_on_disconnect rw"
      "\<not> c_noid rw \<longrightarrow> c_id rc \<noteq> [] \<and> s_wait_response s (c_id rc) = None"
    and client: "\<not> is_closed rc" "c_nloop rc < length (s_loops s)" "0 < c_link rc"
    and worker: "c_direct_message rw = []" "c_worker_item rw = Some q \<longrightarrow> 2 < c_link rw" "c_worker_item rw \<in> {None, Some q}"
  shows "\<exists>s1 s2 rc2 rw2. client_request n name c s = (Inr 0, s1) \<and> on_disconnect w s1 = (Inr (), s2) \<and>
    s_conns s2 = (s_conns s)(c \<mapsto> rc2, w \<mapsto> rw2) \<and>
    c_send_buffer rc2 = c_send_buffer rc @ response (c_keep_alive rc) ''503 Service Unavailable''
      (if c_noid rw then [] else [(''Id'', c_id rc)]) (code_body (s_jsonrpc2 s) (- 1)) \<and>
    c_status rc2 = Net \<and> c_link rc2 = c_link rc \<and> s_wait_response s2 = s_wait_response s \<and>
    c_client rw2 = None \<and> c_worker_item rw2 = None \<and> c_link rw2 = c_link rw - (if c_worker_item rw = None then 1 else 2)"
proof -
  let ?k = "if c_noid rw then 1 else 2"
  let ?rc1 = "rc\<lparr>c_link := ?k + c_link rc, c_status := Client_wait_result\<rparr>"
  let ?rw1 = "emitted (job_text name rc rw) (rw\<lparr>c_link := c_link rw - 1, c_status := Busy, c_client := Some c\<rparr>)
        \<lparr>c_status := if c_noid rw then Worker_wait_result else Net\<rparr>"
  from bound_dispatch_run [OF line head conns kind] obtain s1 where
    s1: "client_request n name c s = (Inr 0, s1)" "s_conns s1 = (s_conns s)(c \<mapsto> ?rc1, w \<mapsto> ?rw1)"
      "s_wait_response s1 = (if c_noid rw then s_wait_response s else (s_wait_response s)(c_id rc \<mapsto> c))"
      "s_jsonrpc2 s1 = s_jsonrpc2 s" "length (s_loops s1) = length (s_loops s)"
      "s_queue_list s1 = (s_queue_list s)[q := Some (took n ws ql)]" by blast
  have "has_ql q (took n ws ql) s1" using line(1) s1(6) by (simp add: line_of_def has_ql_def)
  then have ring: "in_ring ?rw1 s1" using worker(2,3) by (auto simp: in_ring_def split: option.splits)
  from disconnect_told_run [OF _ this, where w = w and c = c and rc = ?rc1] obtain s2 where
    s2: "on_disconnect w s1 = (Inr (), s2)"
      "s_conns s2 = (s_conns s1)(c \<mapsto> emitted (lost_text (c_noid rw) ?rc1 (s_jsonrpc2 s)) ?rc1\<lparr>c_status := Net, c_link := c_link rc\<rparr>,
        w \<mapsto> (out_of_ring ?rw1)\<lparr>c_client := None\<rparr>)"
      "s_wait_response s2 = (if c_noid rw then s_wait_response s1 else (s_wait_response s1)(c_id rc := None))"
    using s1 conns(3) kind client worker(1) by (cases "c_noid rw") (auto simp: is_closed_def)
  let ?rc2 = "emitted (lost_text (c_noid rw) ?rc1 (s_jsonrpc2 s)) ?rc1\<lparr>c_status := Net, c_link := c_link rc\<rparr>"
  have "s_conns s2 = (s_conns s)(c \<mapsto> ?rc2, w \<mapsto> (out_of_ring ?rw1)\<lparr>c_client := None\<rparr>)"
    unfolding s2(2) s1(2) using conns(3) by (auto simp: fun_upd_twist)
  moreover have "s_wait_response s2 = s_wait_response s" unfolding s2(3) s1(3) using kind(3) by (auto simp: fun_upd_idem)
  ultimately show ?thesis
    using s1(1) s2(1)
    by - (rule exI [of _ s1], rule exI [of _ s2], rule exI [of _ ?rc2], rule exI [of _ "(out_of_ring ?rw1)\<lparr>c_client := None\<rparr>"],
      simp add: lost_text_def out_of_ring_def)
qed

theorem worker_lost_told_witness:
  "\<exists>m s1 s2 rc2. client_request 0 ''job'' 2 (demo m (demo_line [3] []) [2 \<mapsto> demo_conn 5\<lparr>c_id := ''15'', c_body := ''hi''\<rparr>,
       3 \<mapsto> demo_conn 6\<lparr>c_status := Worker_wait_job, c_fail_on_disconnect := True\<rparr>]) = (Inr 0, s1) \<and>
     on_disconnect 3 s1 = (Inr (), s2) \<and> s_conns s2 2 = Some rc2 \<and>
     c_send_buffer rc2 = response True ''503 Service Unavailable'' [(''Id'', ''15'')] []"
proof -
  obtain m where m: "mapper_find m ''job'' = Inr (Suc 0)" using demo_mapper by blast
  let ?cs = "[2 \<mapsto> demo_conn 5\<lparr>c_id := ''15'', c_body := ''hi''\<rparr>, 3 \<mapsto> demo_conn 6\<lparr>c_status := Worker_wait_job, c_fail_on_disconnect := True\<rparr>]"
  have j: "\<not> s_jsonrpc2 (demo m (demo_line [3] []) ?cs)" by (simp add: demo_def new_server_def)
  from worker_lost_told [OF demo_line_of [OF m, of "demo_line [3] []" ?cs], of 0 3 "[]" 2 "demo_conn 5\<lparr>c_id := ''15'', c_body := ''hi''\<rparr>"
      "demo_conn 6\<lparr>c_status := Worker_wait_job, c_fail_on_disconnect := True\<rparr>"] j
  obtain s1 s2 rc2 rw2 where "client_request 0 ''job'' 2 (demo m (demo_line [3] []) ?cs) = (Inr 0, s1)" "on_disconnect 3 s1 = (Inr (), s2)"
    "s_conns s2 = ?cs(2 \<mapsto> rc2, 3 \<mapsto> rw2)" "c_send_buffer rc2 = response True ''503 Service Unavailable'' [(''Id'', ''15'')] []"
    by (auto simp: fit_def is_closed_def code_body_def)
  then show ?thesis by - (rule exI [of _ m], rule exI [of _ s1], rule exI [of _ s2], rule exI [of _ rc2], simp)
qed

end
