(* ===== verification/Broker_Publishing.thy ===== *)
theory Broker_Publishing imports Broker_Calls begin

text \<open>
  Publishing: \<^verbatim>\<open>Connect::pub\<close> puts one message, shared and counted, into the list of every worker registered
  for the queue that waits or keeps its connection for requests.
\<close>

section \<open>One worker\<close>

definition receives :: "connect \<Rightarrow> bool" where
  "receives r = (c_status r = Worker_wait_job \<or> c_noid r)"

text \<open>A waiting worker is free again and its socket is to become writable; the others get the message later.\<close>

definition published :: "nat \<Rightarrow> connect \<Rightarrow> connect" where
  "published d r =
     (if c_status r = Worker_wait_job
      then emitted [] (r\<lparr>c_status := (if c_worker_mode r then Worker_mode_async else Net), c_direct_message := c_direct_message r @ [d]\<rparr>)
      else if c_noid r then r\<lparr>c_direct_message := c_direct_message r @ [d]\<rparr> else r)"

definition shared :: "nat \<Rightarrow> direct_message \<Rightarrow> nat \<Rightarrow> server \<Rightarrow> server" where
  "shared d x n s = s\<lparr>s_dms := (s_dms s)(d \<mapsto> x\<lparr>dm_counter := dm_counter x + of_nat n\<rparr>)\<rparr>"

lemma pub_one_run:
  assumes "s_conns s w = Some r" and "c_nloop r < length (s_loops s)" and "s_dms s d = Some x"
  shows "\<exists>ls. length ls = length (s_loops s) \<and> pub_one d w s = (Inr (),
    s\<lparr>s_dms := (s_dms s)(d \<mapsto> x\<lparr>dm_counter := dm_counter x + of_nat (if receives r then 1 else 0)\<rparr>),
      s_conns := (s_conns s)(w \<mapsto> published d r), s_loops := ls\<rparr>)"
proof (cases "c_status r = Worker_wait_job")
  case True
  let ?r = "r\<lparr>c_status := (if c_worker_mode r then Worker_mode_async else Net), c_direct_message := c_direct_message r @ [d]\<rparr>"
  from True show ?thesis
    using assms
    by (intro exI [of _ "told w ?r (s_loops s)"]) (simp add: pub_one_def free_worker_def give_dm_def dm_link_def receives_def published_def bnd_run thn_run runs emit_def put_c_def)
next
  case False
  then show ?thesis
    using assms
    by (intro exI [of _ "s_loops s"])
      (simp add: pub_one_def give_dm_def dm_link_def receives_def published_def bnd_run thn_run runs put_c_def fun_upd_idem)
qed

section \<open>The whole ring\<close>

definition reached :: "(nat \<Rightarrow> connect option) \<Rightarrow> nat list \<Rightarrow> nat" where
  "reached conns ws = length (filter (\<lambda>w. case conns w of None \<Rightarrow> False | Some r \<Rightarrow> receives r) ws)"

definition all_published :: "nat \<Rightarrow> nat list \<Rightarrow> (nat \<Rightarrow> connect option) \<Rightarrow> nat \<Rightarrow> connect option" where
  "all_published d ws conns = (\<lambda>v. if v \<in> set ws then map_option (published d) (conns v) else conns v)"

lemma dms_twice:
  "s\<lparr>s_dms := (s_dms s)(d \<mapsto> y), s_conns := cs, s_loops := ls\<rparr>
     \<lparr>s_dms := (s_dms (s\<lparr>s_dms := (s_dms s)(d \<mapsto> y), s_conns := cs, s_loops := ls\<rparr>))(d \<mapsto> z), s_conns := cs', s_loops := ls'\<rparr> =
   s\<lparr>s_dms := (s_dms s)(d \<mapsto> z), s_conns := cs', s_loops := ls'\<rparr>"
  by simp

lemma pub_ring_run:
  "distinct ws \<Longrightarrow> \<forall>w \<in> set ws. \<exists>r. s_conns s w = Some r \<and> c_nloop r < length (s_loops s) \<Longrightarrow> s_dms s d = Some x \<Longrightarrow>
   \<exists>ls. length ls = length (s_loops s) \<and> for_each ws (pub_one d) s = (Inr (),
     s\<lparr>s_dms := (s_dms s)(d \<mapsto> x\<lparr>dm_counter := dm_counter x + of_nat (reached (s_conns s) ws)\<rparr>),
       s_conns := all_published d ws (s_conns s), s_loops := ls\<rparr>)"
proof (induction ws arbitrary: s x)
  case Nil
  then show ?case by (intro exI [of _ "s_loops s"]) (simp add: all_published_def reached_def fun_upd_idem)
next
  case (Cons w ws)
  from Cons.prems(2) obtain r where r: "s_conns s w = Some r" "c_nloop r < length (s_loops s)" by auto
  let ?k = "if receives r then 1 else 0 :: nat"
  let ?x = "x\<lparr>dm_counter := dm_counter x + of_nat ?k\<rparr>"
  from pub_one_run [OF r Cons.prems(3)] obtain ls where ls: "length ls = length (s_loops s)" and
    one: "pub_one d w s = (Inr (), s\<lparr>s_dms := (s_dms s)(d \<mapsto> ?x), s_conns := (s_conns s)(w \<mapsto> published d r), s_loops := ls\<rparr>)"
    by blast
  let ?s = "s\<lparr>s_dms := (s_dms s)(d \<mapsto> ?x), s_conns := (s_conns s)(w \<mapsto> published d r), s_loops := ls\<rparr>"
  have "w \<notin> set ws" using Cons.prems(1) by simp
  then have n: "reached (s_conns ?s) ws = reached (s_conns s) ws"
    unfolding reached_def by (intro arg_cong [of _ _ length] filter_cong) auto
  have v: "\<forall>v \<in> set ws. \<exists>r. s_conns ?s v = Some r \<and> c_nloop r < length (s_loops ?s)" using Cons.prems(2) \<open>w \<notin> set ws\<close> ls by auto
  have "distinct ws" "s_dms ?s d = Some ?x" using Cons.prems(1) by simp_all
  moreover have "length (s_loops ?s) = length ls" by simp
  ultimately obtain ls' where ls': "length ls' = length ls" and
    more: "for_each ws (pub_one d) ?s = (Inr (), ?s\<lparr>s_dms := (s_dms ?s)(d \<mapsto> ?x\<lparr>dm_counter := dm_counter ?x + of_nat (reached (s_conns ?s) ws)\<rparr>),
       s_conns := all_published d ws (s_conns ?s), s_loops := ls'\<rparr>)" using Cons.IH [OF _ v] by metis
  have "all_published d ws (s_conns ?s) = all_published d (w # ws) (s_conns s)"
    using \<open>w \<notin> set ws\<close> r(1) by (auto simp: all_published_def)
  moreover have "?x\<lparr>dm_counter := dm_counter ?x + of_nat (reached (s_conns ?s) ws)\<rparr> =
      x\<lparr>dm_counter := dm_counter x + of_nat (reached (s_conns s) (w # ws))\<rparr>"
    unfolding n using r(1) by (cases "receives r") (simp_all add: reached_def add.assoc)
  moreover have "for_each (w # ws) (pub_one d) s = for_each ws (pub_one d) ?s"
    by (simp only: for_each.simps thn_run one prod.case sum.case)
  ultimately have "for_each (w # ws) (pub_one d) s = (Inr (), s\<lparr>s_dms := (s_dms s)(d \<mapsto> x\<lparr>dm_counter :=
      dm_counter x + of_nat (reached (s_conns s) (w # ws))\<rparr>), s_conns := all_published d (w # ws) (s_conns s), s_loops := ls'\<rparr>)"
    by (simp only: more dms_twice)
  moreover have "length ls' = length (s_loops s)" using ls ls' by simp
  ultimately show ?case by blast
qed

lemma emit_next_dm: "s_next_dm (emit c x s) = s_next_dm s"
  by (simp add: emit_def split: option.splits)

section \<open>Property\<close>

text \<open>
  Claim C10. Publishing to a queue reaches exactly the workers registered for it that wait for work or keep their connection for
  requests: each gets the message once, behind those it has not been sent yet, a waiting one stops waiting and is
  made writable, and nothing else about any other connection changes. The message is the publisher's body under the
  name of the queue; it is counted by as many as have it, so that the last of them frees it, and it is freed at once when
  there is none. The publisher is answered.
\<close>

theorem pub_delivers:
  assumes line: "line_of s name q ql" "distinct (ql_ring ql)"
      "\<forall>w \<in> set (ql_ring ql). \<exists>r. s_conns s w = Some r \<and> c_nloop r < length (s_loops s)"
    and few: "length (ql_ring ql) < 2 ^ 32"
    and client: "s_conns s c = Some rc" "c \<notin> set (ql_ring ql)" "\<not> is_closed rc" "c_nloop rc < length (s_loops s)"
  defines "d \<equiv> s_next_dm s" and "n \<equiv> reached (s_conns s) (ql_ring ql)"
  shows "\<exists>s'. pub c name s = (Inr (), s') \<and>
    s_conns s' = (all_published d (ql_ring ql) (s_conns s))
      (c \<mapsto> emitted (response (c_keep_alive rc) ''200 OK'' [] (code_body (s_jsonrpc2 s) 1)) rc) \<and>
    s_dms s' = (s_dms s)(d := if n = 0 then None else Some \<lparr>dm_data = dm_text name (c_body rc), dm_counter = of_nat n\<rparr>) \<and>
    s_next_dm s' = d + 1 \<and> s_queue_list s' = s_queue_list s \<and> s_wait_response s' = s_wait_response s"
proof -
  let ?x = "\<lparr>dm_data = dm_text name (c_body rc), dm_counter = 1\<rparr>"
  let ?s1 = "s\<lparr>s_dms := (s_dms s)(d \<mapsto> ?x), s_next_dm := d + 1\<rparr>"
  have gq: "get_queue name False s = (Inr (Some q), s)" using line(1) by (rule get_queue_run)
  have ql: "has_ql q ql ?s1" using line(1) by (simp add: line_of_def has_ql_def)
  have "\<forall>w \<in> set (ql_ring ql). \<exists>r. s_conns ?s1 w = Some r \<and> c_nloop r < length (s_loops ?s1)" using line(3) by simp
  from pub_ring_run [OF line(2) this, of d ?x] obtain ls where ls: "length ls = length (s_loops s)" and
    ring: "for_each (ql_ring ql) (pub_one d) ?s1 = (Inr (), ?s1\<lparr>s_dms := (s_dms s)(d \<mapsto> ?x\<lparr>dm_counter := 1 + of_nat n\<rparr>),
       s_conns := all_published d (ql_ring ql) (s_conns s), s_loops := ls\<rparr>)" by (auto simp: n_def)
  let ?s2 = "?s1\<lparr>s_dms := (s_dms s)(d \<mapsto> ?x\<lparr>dm_counter := 1 + of_nat n\<rparr>),
       s_conns := all_published d (ql_ring ql) (s_conns s), s_loops := ls\<rparr>"
  have c2: "s_conns ?s2 c = Some rc" "c_nloop rc < length (s_loops ?s2)" using client ls by (simp_all add: all_published_def)
  note rep = reply_run [OF c2(1) client(3) c2(2), of "''200 OK''" 1]
  have "n \<le> length (ql_ring ql)" by (simp add: n_def reached_def)
  with few have n: "n < 2 ^ 32" by simp
  have zero: "(word_of_nat n :: 32 word) = 0 \<longleftrightarrow> n = 0"
  proof
    assume "(word_of_nat n :: 32 word) = 0"
    then have "unat (word_of_nat n :: 32 word) = 0" by simp
    with n show "n = 0" by (simp add: unat_of_nat)
  qed simp
  show ?thesis
    using gq client(1) ring rep c2 zero get_ql_run [OF ql]
    by (simp add: pub_def emit_next_dm bnd_run thn_run runs new_dm_def d_def [symmetric] dm_unlink_def Let_def fun_upd_twist)
qed

theorem pub_delivers_witness:
  "\<exists>m s'. pub 2 ''job'' (demo m (demo_line [] []\<lparr>ql_ring := [3, 4]\<rparr>) [2 \<mapsto> demo_conn 5\<lparr>c_body := ''hi''\<rparr>,
       3 \<mapsto> demo_conn 6\<lparr>c_status := Worker_wait_job\<rparr>, 4 \<mapsto> demo_conn 7]) = (Inr (), s') \<and>
     s_dms s' 0 = Some \<lparr>dm_data = dm_text ''job'' ''hi'', dm_counter = 1\<rparr> \<and>
     map_option c_direct_message (s_conns s' 3) = Some [0] \<and> map_option c_direct_message (s_conns s' 4) = Some []"
proof -
  obtain m where m: "mapper_find m ''job'' = Inr (Suc 0)" using demo_mapper by blast
  let ?cs = "[2 \<mapsto> demo_conn 5\<lparr>c_body := ''hi''\<rparr>, 3 \<mapsto> demo_conn 6\<lparr>c_status := Worker_wait_job\<rparr>, 4 \<mapsto> demo_conn 7]"
  let ?ql = "demo_line [] []\<lparr>ql_ring := [3, 4]\<rparr>"
  have "s_next_dm (demo m ?ql ?cs) = 0" by (simp add: demo_def new_server_def)
  moreover have "reached ?cs [3, 4] = 1" by (simp add: reached_def receives_def)
  ultimately show ?thesis
    using pub_delivers [OF demo_line_of [OF m, of ?ql ?cs], of 2 "demo_conn 5\<lparr>c_body := ''hi''\<rparr>"]
    by (intro exI [of _ m]) (auto simp: is_closed_def all_published_def published_def)
qed

end
