(* ===== verification/Http_Splits.thy ===== *)
theory Http_Splits imports Demo_State begin

text \<open>
  Requests that arrive in pieces: when it makes no difference whether the bytes of a request come in one
  packet or in two, and when it does. The operations on a line of the head do not look at the receive
  buffer (\<open>blind\<close>), so what is left in it matters only until the head is complete.
\<close>

declare pop_line_None [simp del]

section \<open>The loop over the lines ends\<close>

lemma bnd_cong: "(\<And>x s'. m s = (Inr x, s') \<Longrightarrow> f x s' = g x s') \<Longrightarrow> bnd m f s = bnd m g s"
  by (simp add: bnd_def split: prod.splits sum.splits)

lemma slice_pop_length: "slice_pop n data = (Inr x, rest) \<Longrightarrow> length rest \<le> length data"
  by (auto simp: slice_pop_def split: sum.splits)

lemma take_body_length: "take_body c data s = (Inr rest, s') \<Longrightarrow> length rest \<le> length data"
  by (auto simp: take_body_def bnd_run thn_run whenp_def Let_def split: prod.splits sum.splits if_splits
      dest: slice_pop_length)

lemma recv_lines_fuel:
  "length data < j \<Longrightarrow> length data < k \<Longrightarrow> recv_lines j c data = recv_lines k c data"
proof (induction j arbitrary: k data)
  case 0
  then show ?case by simp
next
  case (Suc j)
  from Suc.prems(2) obtain k' where k: "k = Suc k'" by (cases k) auto
  show ?case
  proof (cases "pop_line data")
    case None
    with k show ?thesis by simp
  next
    case (Some lr)
    then obtain line rest where lr: "pop_line data = Some (line, rest)" by (cases lr) auto
    have shorter: "length rest < length data" using lr by (rule pop_line_shorter)
    have step: "recv_lines j c d = recv_lines k' c d" if "length d \<le> length rest" for d
      using that shorter Suc.prems k by (intro Suc.IH) simp_all
    show ?thesis
      unfolding k using lr step shorter
      by (auto simp: Let_def intro!: ext bnd_cong dest!: take_body_length)
  qed
qed

lemma recv_lines_ends: "length data < k \<Longrightarrow> fst (recv_lines k c data s) \<noteq> Inr Endless"
proof (induction k arbitrary: data s)
  case 0
  then show ?case by simp
next
  case (Suc k)
  show ?case
  proof (cases "pop_line data")
    case None
    then show ?thesis by simp
  next
    case (Some lr)
    then obtain line rest where lr: "pop_line data = Some (line, rest)" by (cases lr) auto
    have "fst (recv_lines k c d s') \<noteq> Inr Endless" if "length d \<le> length rest" for d s'
      using that pop_line_shorter [OF lr] Suc.prems by (intro Suc.IH) simp
    with lr show ?thesis
      by (auto simp: Let_def bnd_run split: prod.splits sum.splits dest!: take_body_length)
  qed
qed

text \<open>One turn of the loop.\<close>

lemma recv_lines_turn:
  "pop_line data = None \<Longrightarrow> recv_lines (length data + 1) c data = ret (Rest data)"
  "pop_line data = Some (line, rest) \<Longrightarrow> length data < k \<Longrightarrow> rstrip line \<noteq> [] \<Longrightarrow>
   recv_lines k c data = bnd (read_line c (rstrip line))
     (\<lambda>go. if go then recv_lines (length rest + 1) c rest else ret Closed)"
proof -
  assume lr: "pop_line data = Some (line, rest)" and k: "length data < k" and l: "rstrip line \<noteq> []"
  from k obtain k' where k': "k = Suc k'" "length data \<le> k'" by (cases k) auto
  have "recv_lines k' c rest = recv_lines (length rest + 1) c rest"
    by (rule recv_lines_fuel) (use k' pop_line_shorter [OF lr] in simp_all)
  with lr l show "recv_lines k c data = bnd (read_line c (rstrip line))
      (\<lambda>go. if go then recv_lines (length rest + 1) c rest else ret Closed)"
    unfolding k'(1) recv_lines.simps by (simp only: option.case prod.case Let_def if_False)
qed simp

declare recv_lines.simps [simp del]

section \<open>Blank lines\<close>

text \<open>Whether some complete line is blank, and what follows the last complete line.\<close>

function has_blank :: "bytes \<Rightarrow> bool" where
  "has_blank data = (case pop_line data of None \<Rightarrow> False
     | Some (line, rest) \<Rightarrow> rstrip line = [] \<or> has_blank rest)"
  by pat_completeness auto
termination by (relation "measure length") (auto dest: pop_line_shorter)

function last_part :: "bytes \<Rightarrow> bytes" where
  "last_part data = (case pop_line data of None \<Rightarrow> data | Some (line, rest) \<Rightarrow> last_part rest)"
  by pat_completeness auto
termination by (relation "measure length") (auto dest: pop_line_shorter)

text \<open>Whether some complete line is an option, the header that is kept as a view.\<close>

function has_option :: "bytes \<Rightarrow> bool" where
  "has_option data = (case pop_line data of None \<Rightarrow> False
     | Some (line, rest) \<Rightarrow> starts_with_lc (rstrip line) ''option: '' \<or> has_option rest)"
  by pat_completeness auto
termination by (relation "measure length") (auto dest: pop_line_shorter)

declare has_blank.simps [simp del] last_part.simps [simp del] has_option.simps [simp del]

lemma blank_simps:
  "pop_line data = None \<Longrightarrow> has_blank data = False"
  "pop_line data = Some (line, rest) \<Longrightarrow> has_blank data = (rstrip line = [] \<or> has_blank rest)"
  "pop_line data = None \<Longrightarrow> last_part data = data"
  "pop_line data = Some (line, rest) \<Longrightarrow> last_part data = last_part rest"
  "pop_line data = None \<Longrightarrow> has_option data = False"
  "pop_line data = Some (line, rest) \<Longrightarrow>
   has_option data = (starts_with_lc (rstrip line) ''option: '' \<or> has_option rest)"
  by (simp_all add: has_blank.simps [of data] last_part.simps [of data] has_option.simps [of data])

lemma last_part_append: "last_part (x @ y) = last_part (last_part x @ y)"
proof (induction x rule: last_part.induct)
  case (1 x)
  show ?case
  proof (cases "pop_line x")
    case None
    then show ?thesis by (simp add: blank_simps)
  next
    case (Some lr)
    then obtain l r where lr: "pop_line x = Some (l, r)" by (cases lr) auto
    from 1 [OF lr refl] show ?thesis
      by (simp only: blank_simps(4) [OF lr] blank_simps(4) [OF pop_line_append [OF lr]])
  qed
qed

lemma has_blank_append: "\<not> has_blank x \<Longrightarrow> has_blank (x @ y) = has_blank (last_part x @ y)"
proof (induction x rule: has_blank.induct)
  case (1 x)
  show ?case
  proof (cases "pop_line x")
    case None
    then show ?thesis by (simp add: blank_simps)
  next
    case (Some lr)
    then obtain l r where lr: "pop_line x = Some (l, r)" by (cases lr) auto
    with "1.prems" have "rstrip l \<noteq> []" and "\<not> has_blank r" by (simp_all add: blank_simps)
    with "1.IH" [OF lr refl] show ?thesis
      by (simp add: blank_simps(4) [OF lr] blank_simps(2) [OF pop_line_append [OF lr]])
  qed
qed

text \<open>The loop over a text that has no blank line can be cut anywhere.\<close>

lemma recv_lines_split:
  "\<not> has_blank x \<Longrightarrow> length (x @ y) < k \<Longrightarrow>
   recv_lines k c (x @ y) = bnd (recv_lines (length x + 1) c x) (\<lambda>t. case t of
     Closed \<Rightarrow> ret Closed | Rest t \<Rightarrow> recv_lines (length (t @ y) + 1) c (t @ y) | Endless \<Rightarrow> ret Endless)"
proof (induction x arbitrary: k rule: has_blank.induct)
  case (1 x)
  let ?rest = "\<lambda>t. case t of Closed \<Rightarrow> ret Closed | Rest t \<Rightarrow> recv_lines (length (t @ y) + 1) c (t @ y)
    | Endless \<Rightarrow> ret Endless"
  show ?case
  proof (cases "pop_line x")
    case None
    have "recv_lines k c (x @ y) = recv_lines (length (x @ y) + 1) c (x @ y)"
      using "1.prems" by (intro recv_lines_fuel) simp_all
    with recv_lines_turn(1) [OF None, of c] show ?thesis by (simp only: bnd_ret lines_end.case)
  next
    case (Some lr)
    then obtain l r where lr: "pop_line x = Some (l, r)" by (cases lr) auto
    from "1.prems"(1) lr have l: "rstrip l \<noteq> []" and r: "\<not> has_blank r" by (simp_all add: blank_simps)
    have "recv_lines k c (x @ y) = bnd (read_line c (rstrip l))
        (\<lambda>go. if go then recv_lines (length (r @ y) + 1) c (r @ y) else ret Closed)"
      by (rule recv_lines_turn(2) [OF pop_line_append [OF lr] "1.prems"(2) l])
    also have "\<dots> = bnd (recv_lines (length x + 1) c x) ?rest"
    proof -
      have turn: "recv_lines (length x + 1) c x = bnd (read_line c (rstrip l))
          (\<lambda>go. if go then recv_lines (length r + 1) c r else ret Closed)"
        by (rule recv_lines_turn(2) [OF lr _ l]) simp
      have later: "recv_lines (length (r @ y) + 1) c (r @ y) = bnd (recv_lines (length r + 1) c r) ?rest"
        by (rule "1.IH" [OF lr refl r]) simp
      have "(if go then recv_lines (length (r @ y) + 1) c (r @ y) else ret Closed) =
          bnd (if go then recv_lines (length r + 1) c r else ret Closed) ?rest" for go
        by (cases go) (simp_all only: if_True if_False later bnd_ret lines_end.case)
      then show ?thesis unfolding turn bnd_assoc by presburger
    qed
    finally show ?thesis .
  qed
qed

section \<open>Operations that do not look at the receive buffer\<close>

definition set_buf :: "nat \<Rightarrow> bytes \<Rightarrow> server \<Rightarrow> server" where
  "set_buf c b s = s\<lparr>s_conns := (s_conns s)(c := map_option (\<lambda>r. r\<lparr>c_buffer := b\<rparr>) (s_conns s c))\<rparr>"

lemma set_buf_sel [simp]:
  "s_connections (set_buf c b s) = s_connections s" "s_loops (set_buf c b s) = s_loops s"
  "s_jsonrpc2 (set_buf c b s) = s_jsonrpc2 s" "s_now (set_buf c b s) = s_now s"
  "s_conns (set_buf c b s) d =
     (if d = c then map_option (\<lambda>r. r\<lparr>c_buffer := b\<rparr>) (s_conns s c) else s_conns s d)"
  by (simp_all add: set_buf_def)

lemma set_buf_twice [simp]: "set_buf c b (set_buf c b' s) = set_buf c b s"
  by (simp add: set_buf_def option.map_comp comp_def)

lemma set_buf_same: "s_conns s c = Some r \<Longrightarrow> c_buffer r = b \<Longrightarrow> set_buf c b s = s"
  by (simp add: set_buf_def fun_upd_idem)

definition blind :: "nat \<Rightarrow> (server, 'a) prog \<Rightarrow> bool" where
  "blind c m = (\<forall>b s. m (set_buf c b s) = apsnd (set_buf c b) (m s))"

named_theorems blind_intros \<open>operations that do not look at the receive buffer\<close>

lemma blindD: "blind c m \<Longrightarrow> m (set_buf c b s) = apsnd (set_buf c b) (m s)"
  by (simp add: blind_def)

lemma blind_basic [blind_intros]: "blind c (ret x)" "blind c (throw e)" "blind c (lift_res r)"
  by (simp_all add: blind_def)

lemma blind_Pair [simp]: "blind c (Pair x)"
  by (simp add: blind_def)

lemma blind_gets [blind_intros]: "(\<And>b s. f (set_buf c b s) = f s) \<Longrightarrow> blind c (gets f)"
  by (simp add: blind_def)

lemma blind_bnd [blind_intros]:
  assumes "blind c m" and "\<And>x. blind c (f x)"
  shows "blind c (bnd m f)"
  unfolding blind_def using assms [THEN blindD]
  by (auto simp: bnd_run split: prod.splits sum.splits)

lemma blind_thn [blind_intros]: "blind c m \<Longrightarrow> blind c n \<Longrightarrow> blind c (thn m n)"
  by (simp add: thn_def blind_bnd)

lemma blind_whenp [blind_intros]: "blind c m \<Longrightarrow> blind c (whenp b m)"
  by (simp add: whenp_def blind_intros)

lemma blind_if [blind_intros]: "blind c m \<Longrightarrow> blind c n \<Longrightarrow> blind c (if b then m else n)"
  by simp

lemma blind_option [blind_intros]:
  "blind c n \<Longrightarrow> (\<And>x. blind c (f x)) \<Longrightarrow> blind c (case z of None \<Rightarrow> n | Some x \<Rightarrow> f x)"
  by (cases z) auto

lemma blind_catch_invalid [blind_intros]:
  assumes "blind c m" and "blind c h"
  shows "blind c (catch_invalid m h)"
  unfolding blind_def catch_invalid_def using assms [THEN blindD]
  by (auto split: prod.splits sum.splits)

text \<open>A read of the connection is harmless when what follows does not use its receive buffer.\<close>

lemma blind_get_c [blind_intros]:
  assumes "\<And>r b. f (r\<lparr>c_buffer := b\<rparr>) = f r" and "\<And>r. blind c (f r)"
  shows "blind c (bnd (get_c d) f)"
  unfolding blind_def using assms(1) assms(2) [THEN blindD]
  by (auto simp: bnd_run get_c_def split: option.splits)

lemma blind_upd_c [blind_intros]:
  "(\<And>r b. g (r\<lparr>c_buffer := b\<rparr>) = (g r)\<lparr>c_buffer := b\<rparr>) \<Longrightarrow> blind c (upd_c d g)"
  by (auto simp: blind_def upd_c_def set_buf_def fun_upd_twist split: option.splits)

lemma blind_upd_loop [blind_intros]: "blind c (upd_loop n g)"
  by (simp add: blind_def upd_loop_def set_buf_def)

lemma blind_conn [blind_intros]:
  "blind c (conn_close d)" "blind c (conn_unlink d)" "blind c (add_send d x)" "blind c (write_mode b d)"
  unfolding conn_close_def conn_unlink_def add_send_def write_mode_def Let_def
  by (intro blind_intros; simp)+

lemma blind_send [blind_intros]:
  "blind c (send_status d st)" "blind c (send_done_body d body)" "blind c (send_done d)"
  unfolding send_status_def send_done_body_def send_done_def is_closed_def
  by (intro blind_intros; simp)+

lemma blind_reply [blind_intros]: "blind c (reply d st err)"
  unfolding reply_def send_done_code_def by (intro blind_intros; simp)

lemma blind_head [blind_intros]:
  "blind c (start_request d)" "blind c (read_method line d)" "blind c (set_type x d)" "blind c (set_step d st)"
  "blind c (invalid_reply d)"
  unfolding start_request_def read_method_def set_type_def set_step_def invalid_reply_def Let_def
  by (intro blind_intros; simp add: reset_request_def)+

lemma blind_read_header [blind_intros]: "blind c (read_header data d)"
  unfolding read_header_def by (intro blind_intros; simp)

lemma blind_read_line: "blind c (read_line d line)"
  unfolding read_line_def by (intro blind_intros; simp)

lemma blind_prod [blind_intros]: "(\<And>x y. blind c (f x y)) \<Longrightarrow> blind c (case z of (x, y) \<Rightarrow> f x y)"
  by (cases z) auto

lemma blind_sum [blind_intros]:
  "(\<And>x. blind c (f x)) \<Longrightarrow> (\<And>x. blind c (g x)) \<Longrightarrow> blind c (case z of Inl x \<Rightarrow> f x | Inr x \<Rightarrow> g x)"
  by (cases z) auto

lemma blind_take_body: "blind c (take_body d data)"
  unfolding take_body_def Let_def by (intro blind_intros; simp cong: prod.case_cong sum.case_cong)

text \<open>The end of the head empties the receive buffer.\<close>

lemma finish_forgets: "finish_request c data (set_buf c b s) = finish_request c data s"
  by (cases "s_conns s c") (simp_all add: finish_request_def thn_run upd_c_def set_buf_def fun_upd_idem)

section \<open>Running through the head\<close>

text \<open>What a run leaves in the receive buffer is the only difference, and none once the head was complete.\<close>

definition same_head :: "nat \<Rightarrow> bytes \<Rightarrow> (exn + lines_end) \<times> server \<Rightarrow> (exn + lines_end) \<times> server \<Rightarrow> bool" where
  "same_head c b x y = (x = y \<or> (\<forall>t. fst y \<noteq> Inr (Rest t)) \<and> x = apsnd (set_buf c b) y)"

lemma same_headE:
  assumes "same_head c b x y"
  obtains "x = y" | e s' where "y = (Inl e, s')" "x = (Inl e, set_buf c b s')"
  | z s' where "\<And>t. z \<noteq> Rest t" "y = (Inr z, s')" "x = (Inr z, set_buf c b s')"
proof (cases y)
  case (Pair o' s')
  with assms that show ?thesis
    by (cases o'; cases "\<exists>t. o' = Inr (Rest t)") (auto simp: same_head_def)
qed

lemma recv_lines_blank:
  "has_blank d \<Longrightarrow> same_head c b (recv_lines (length d + 1) c d (set_buf c b s)) (recv_lines (length d + 1) c d s)"
proof (induction d arbitrary: s rule: has_blank.induct)
  case (1 d)
  then obtain l r where lr: "pop_line d = Some (l, r)"
    by (cases "pop_line d") (auto simp: blank_simps)
  show ?case
  proof (cases "rstrip l = []")
    case True
    have "recv_lines (length d + 1) c d = bnd (take_body c r) (\<lambda>data. bnd (finish_request c data) (\<lambda>again.
        if again then recv_lines (length d) c data else ret (Rest data)))"
      using lr True by (simp add: recv_lines.simps)
    then show ?thesis
      by (cases "take_body c r s") (auto simp: same_head_def bnd_run blindD [OF blind_take_body]
          finish_forgets split: sum.splits)
  next
    case False
    with "1.prems" lr have r: "has_blank r" by (simp add: blank_simps)
    have turn: "recv_lines (length d + 1) c d = bnd (read_line c (rstrip l))
        (\<lambda>go. if go then recv_lines (length r + 1) c r else ret Closed)"
      by (rule recv_lines_turn(2) [OF lr _ False]) simp
    show ?thesis
      unfolding turn using "1.IH" [OF lr refl r]
      by (cases "read_line c (rstrip l) s") (auto simp: same_head_def bnd_run blindD [OF blind_read_line]
          split: sum.splits)
  qed
qed

lemma recv_lines_open:
  "\<not> has_blank d \<Longrightarrow> blind c (recv_lines (length d + 1) c d) \<and>
   (\<forall>s t s'. recv_lines (length d + 1) c d s = (Inr (Rest t), s') \<longrightarrow> t = last_part d)"
proof (induction d rule: has_blank.induct)
  case (1 d)
  show ?case
  proof (cases "pop_line d")
    case None
    have turn: "recv_lines (length d + 1) c d = ret (Rest d)" by (rule recv_lines_turn(1) [OF None])
    show ?thesis unfolding turn using None by (simp add: blind_intros blank_simps)
  next
    case (Some lr)
    then obtain l r where lr: "pop_line d = Some (l, r)" by (cases lr) auto
    with "1.prems" have l: "rstrip l \<noteq> []" and r: "\<not> has_blank r" by (simp_all add: blank_simps)
    have turn: "recv_lines (length d + 1) c d = bnd (read_line c (rstrip l))
        (\<lambda>go. if go then recv_lines (length r + 1) c r else ret Closed)"
      by (rule recv_lines_turn(2) [OF lr _ l]) simp
    note later = "1.IH" [OF lr refl r]
    have "blind c (recv_lines (length d + 1) c d)"
      unfolding turn by (intro blind_intros blind_read_line conjunct1 [OF later])
    moreover have "t = last_part r" if "recv_lines (length d + 1) c d s = (Inr (Rest t), s')" for s t s'
      using that conjunct2 [OF later] unfolding turn
      by (auto simp: bnd_run split: prod.splits sum.splits if_splits)
    ultimately show ?thesis using lr by (simp add: blank_simps)
  qed
qed

text \<open>The state of a connection in the head of a request.\<close>

definition heading :: "32 word \<Rightarrow> bytes \<Rightarrow> status \<Rightarrow> bool \<Rightarrow> connect \<Rightarrow> bool" where
  "heading now b st e r = (c_http_step r \<in> {Http_start, Http_header} \<and> conn_ready r \<and> c_status r = st \<and>
     c_buffer r = b \<and> (c_ping r \<noteq> 0 \<longrightarrow> c_ping_timeout r = now + c_ping r) \<and>
     (e \<longrightarrow> c_header_option r = []))"

text \<open>What comes from outside and is not used up by reading a head.\<close>

definition outside :: "server \<Rightarrow> 32 word \<times> memory \<times> nat" where
  "outside s = (s_now s, s_memory s, s_nmemory s)"

definition in_head :: "nat \<Rightarrow> 32 word \<times> memory \<times> nat \<Rightarrow> bytes \<Rightarrow> status \<Rightarrow> bool \<Rightarrow> server \<Rightarrow> bool" where
  "in_head c w b st e s = (outside s = w \<and> (\<exists>r. s_conns s c = Some r \<and> heading (fst w) b st e r))"

lemma head_upd_c [keeps_intros]:
  "(\<And>r. heading (fst w) b st e r \<Longrightarrow> heading (fst w) b st e (g r)) \<Longrightarrow> keeps (in_head c w b st e) (upd_c d g)"
  by (auto simp: keeps_def in_head_def outside_def upd_c_def split: option.splits)

lemma head_upd_loop [keeps_intros]: "keeps (in_head c w b st e) (upd_loop n g)"
  by (auto simp: keeps_def in_head_def outside_def upd_loop_def)

lemma head_get_c: "keeps (in_head c w b st e) (get_c d)"
  by (auto simp: keeps_def in_head_def outside_def get_c_def split: option.splits)

lemma head_read [keeps_intros]:
  "(\<And>r. heading (fst w) b st e r \<Longrightarrow> keeps (in_head c w b st e) (f r)) \<Longrightarrow> keeps (in_head c w b st e) (bnd (get_c c) f)"
  by (auto simp: keeps_def in_head_def outside_def get_c_def bnd_run split: option.splits)

lemma head_clock [keeps_intros]:
  "keeps (in_head c w b st e) (f (fst w)) \<Longrightarrow> keeps (in_head c w b st e) (bnd (gets s_now) f)"
  by (auto simp: keeps_def in_head_def outside_def)

lemma head_unlink [keeps_intros]: "keeps (in_head c w b st e) (conn_unlink d)"
  unfolding conn_unlink_def by (intro keeps_intros head_get_c; auto simp: heading_def conn_ready_def)

lemma head_write [keeps_intros]: "keeps (in_head c w b st e) (write_mode x d)"
  unfolding write_mode_def Let_def by (intro keeps_bnd keeps_intros head_get_c; auto simp: heading_def conn_ready_def)

lemma head_send [keeps_intros]:
  "keeps (in_head c w b st e) (add_send d x)" "keeps (in_head c w b st e) (reply d x n)"
proof -
  show a: "keeps (in_head c w b st e) (add_send d x)" for d x
    unfolding add_send_def by (intro keeps_intros; auto simp: heading_def conn_ready_def)
  show "keeps (in_head c w b st e) (reply d x n)"
    unfolding reply_def send_status_def send_done_code_def send_done_def send_done_body_def
    by (intro keeps_bnd keeps_intros a head_get_c)
qed

lemma head_noid [keeps_intros]:
  "st \<noteq> Worker_wait_result \<Longrightarrow> keeps (in_head c w b st e) (upd_c c (\<lambda>r. r\<lparr>c_client := None, c_noid := False\<rparr>))"
  by (rule head_upd_c) (auto simp: heading_def conn_ready_def)

lemma head_start: "keeps (in_head c w b st e) (start_request c)"
proof -
  have "keeps (in_head c w b st e) (upd_c c reset_request)"
    by (rule head_upd_c) (auto simp: heading_def conn_ready_def reset_request_def)
  then show ?thesis
    unfolding start_request_def by (intro keeps_intros; auto simp: heading_def conn_ready_def reset_request_def)
qed

lemma head_read_header:
  "e \<longrightarrow> \<not> starts_with_lc line ''option: '' \<Longrightarrow> keeps (in_head c w b st e) (read_header line c)"
  unfolding read_header_def set_type_def by (intro keeps_intros; auto simp: heading_def conn_ready_def)

lemma head_read_line:
  assumes "e \<longrightarrow> \<not> starts_with_lc line ''option: ''"
  shows "keeps (in_head c w b st e) (read_line c line)"
proof -
  have "keeps (in_head c w b st e) (conn_close c)" "keeps (in_head c w b st e) (set_step c Http_header)"
    "keeps (in_head c w b st e) (read_method line c)"
    unfolding conn_close_def set_step_def read_method_def Let_def
    by (intro keeps_intros; auto simp: heading_def conn_ready_def)+
  then show ?thesis
    unfolding read_line_def invalid_reply_def by (intro keeps_intros head_start head_read_header assms)
qed

text \<open>At the start of a request, or with no option seen: then there is none after the line either.\<close>

definition fresh_head :: "nat \<Rightarrow> 32 word \<times> memory \<times> nat \<Rightarrow> bytes \<Rightarrow> status \<Rightarrow> server \<Rightarrow> bool" where
  "fresh_head c w b st s = (in_head c w b st True s \<or>
     (in_head c w b st False s \<and> (\<exists>r. s_conns s c = Some r \<and> c_http_step r = Http_start)))"

lemma reset_twice: "reset_request (reset_request r) = reset_request r"
  by (simp add: reset_request_def json_load_def)

lemma read_line_reset:
  assumes "s_conns s c = Some r" and "c_http_step r = Http_start"
  shows "read_line c line s = read_line c line (put_c c (reset_request r) s)"
proof -
  have "c_http_step (reset_request r) = Http_start" using assms(2) by (simp add: reset_request_def)
  with assms show ?thesis by (simp add: read_line_def start_request_def bnd_run thn_run runs reset_twice)
qed

lemma fresh_read_line:
  assumes "\<not> starts_with_lc line ''option: ''"
  shows "keeps (fresh_head c w b st) (read_line c line)"
proof
  fix s assume s: "fresh_head c w b st s"
  have kept: "keeps (in_head c w b st True) (read_line c line)" by (rule head_read_line) (use assms in simp)
  show "fresh_head c w b st (snd (read_line c line s))"
  proof (cases "in_head c w b st True s")
    case True
    from keepsD [OF kept this] show ?thesis by (simp add: fresh_head_def)
  next
    case False
    with s obtain r where r: "s_conns s c = Some r" "c_http_step r = Http_start"
      and "in_head c w b st False s" by (auto simp: fresh_head_def)
    then have "in_head c w b st True (put_c c (reset_request r) s)"
      by (auto simp: in_head_def outside_def heading_def reset_request_def conn_ready_def put_c_def)
    from keepsD [OF kept this] show ?thesis
      unfolding read_line_reset [OF r] by (simp add: fresh_head_def)
  qed
qed

lemma lines_keep:
  assumes "\<And>line. e \<longrightarrow> \<not> starts_with_lc line ''option: '' \<Longrightarrow> keeps P (read_line c line)"
  shows "\<not> has_blank d \<Longrightarrow> e \<longrightarrow> \<not> has_option d \<Longrightarrow> keeps P (recv_lines (length d + 1) c d)"
proof (induction d rule: has_blank.induct)
  case (1 d)
  show ?case
  proof (cases "pop_line d")
    case None
    show ?thesis unfolding recv_lines_turn(1) [OF None] by (rule keeps_ret)
  next
    case (Some lr)
    then obtain l r where lr: "pop_line d = Some (l, r)" by (cases lr) auto
    with "1.prems" have l: "rstrip l \<noteq> []" "e \<longrightarrow> \<not> starts_with_lc (rstrip l) ''option: ''"
      and r: "\<not> has_blank r" "e \<longrightarrow> \<not> has_option r" by (auto simp: blank_simps)
    have turn: "recv_lines (length d + 1) c d = bnd (read_line c (rstrip l))
        (\<lambda>go. if go then recv_lines (length r + 1) c r else ret Closed)"
      by (rule recv_lines_turn(2) [OF lr _ l(1)]) simp
    show ?thesis unfolding turn by (intro keeps_intros assms [OF l(2)] "1.IH" [OF lr refl r])
  qed
qed

lemma head_recv_lines:
  "\<not> has_blank d \<Longrightarrow> keeps (in_head c w b st False) (recv_lines (length d + 1) c d)"
  "\<not> has_blank d \<Longrightarrow> \<not> has_option d \<Longrightarrow> keeps (fresh_head c w b st) (recv_lines (length d + 1) c d)"
  by (rule lines_keep [where e = False]; simp add: head_read_line)
    (rule lines_keep [where e = True]; simp add: fresh_read_line)

lemma fresh_head_in: "fresh_head c w b st s \<Longrightarrow> in_head c w b st False s"
  by (auto simp: fresh_head_def in_head_def heading_def)

text \<open>The loop over the lines stops early only for a connection it has closed.\<close>

definition shut :: "nat \<Rightarrow> server \<Rightarrow> bool" where
  "shut c s = (case s_conns s c of None \<Rightarrow> False | Some r \<Rightarrow> is_closed r)"

lemma read_line_shut: "read_line c line s = (Inr False, s') \<Longrightarrow> shut c s'"
  by (auto simp: read_line_def bnd_run thn_run conn_close_def upd_c_def shut_def is_closed_def
      split: prod.splits sum.splits if_splits option.splits)

lemma recv_lines_shut: "recv_lines k c d s = (Inr Closed, s') \<Longrightarrow> shut c s'"
proof (induction k arbitrary: d s)
  case 0
  then show ?case by (simp add: recv_lines.simps)
next
  case (Suc k)
  show ?case
  proof (cases "pop_line d")
    case None
    with Suc.prems show ?thesis by (simp add: recv_lines.simps)
  next
    case (Some lr)
    then obtain l r where "pop_line d = Some (l, r)" by (cases lr) auto
    with Suc.prems show ?thesis
      by (auto simp: recv_lines.simps Let_def bnd_run intro: Suc.IH dest: read_line_shut
          split: prod.splits sum.splits if_splits)
  qed
qed

section \<open>One packet or two\<close>

lemma buffer_same: "c_buffer r = b \<Longrightarrow> r\<lparr>c_buffer := b\<rparr> = (r :: connect)"
  "r\<lparr>c_ping_timeout := c_ping_timeout r\<rparr> = (r :: connect)"
  "c_buffer r = b \<Longrightarrow> r\<lparr>c_ping_timeout := p, c_buffer := b\<rparr> = (r\<lparr>c_ping_timeout := p\<rparr> :: connect)"
  by (cases r; simp)+

text \<open>The connection when the packet has come in, but for its option.\<close>

definition refilled :: "32 word \<Rightarrow> bytes \<Rightarrow> connect \<Rightarrow> connect" where
  "refilled now buf r = r\<lparr>
     c_ping_timeout := (if c_ping r = 0 then c_ping_timeout r else now + c_ping r),
     c_buffer := (if c_buffer r = [] then [] else c_buffer r @ buf)\<rparr>"

lemma refill_run:
  assumes "s_conns s c = Some r"
  shows "thn (whenp (c_ping r \<noteq> 0) (upd_c c (\<lambda>r. r\<lparr>c_ping_timeout := now + c_ping r\<rparr>)))
      (thn (whenp (c_buffer r \<noteq> []) (upd_c c (\<lambda>r. r\<lparr>c_buffer := c_buffer r @ buf\<rparr>))) m) s =
    m (put_c c (refilled now buf r) s)"
proof -
  define r1 where "r1 = r\<lparr>c_ping_timeout := (if c_ping r = 0 then c_ping_timeout r else now + c_ping r)\<rparr>"
  have ping: "whenp (c_ping r \<noteq> 0) (upd_c c (\<lambda>r. r\<lparr>c_ping_timeout := now + c_ping r\<rparr>)) s = (Inr (), put_c c r1 s)"
    using assms by (cases "c_ping r = 0") (simp_all add: r1_def runs buffer_same(2) put_c_same)
  have buf: "c_buffer r1 = c_buffer r" by (simp add: r1_def)
  have whole: "refilled now buf r = r1\<lparr>c_buffer := (if c_buffer r = [] then [] else c_buffer r @ buf)\<rparr>"
    by (simp add: refilled_def r1_def)
  have "whenp (c_buffer r \<noteq> []) (upd_c c (\<lambda>r. r\<lparr>c_buffer := c_buffer r @ buf\<rparr>)) (put_c c r1 s) =
      (Inr (), put_c c (refilled now buf r) s)"
  proof (cases "c_buffer r = []")
    case True
    then have "refilled now buf r = r1" using whole buffer_same(1) [of r1 "[]"] buf by simp
    with True show ?thesis by simp
  next
    case False
    with buf show ?thesis by (simp add: runs whole)
  qed
  with ping show ?thesis by (simp add: thn_run)
qed

text \<open>A packet in the head of a request is read from the connection as it is when no option was kept of an earlier
  packet; an option that was kept is whatever the memory shows by now.\<close>

lemma on_recv_head:
  assumes "s_conns s c = Some r" and "conn_ready r" and "c_http_step r \<in> {Http_start, Http_header}"
    and "c_http_step r = Http_start \<or> c_header_option r = []"
  shows "on_recv c buf s = recv_requests c (c_buffer r @ buf) (put_c c (refilled (s_now s) buf r) s)"
proof -
  have "stale_option c s = (Inr (), s)" using assms by (auto simp: stale_option_def bnd_run runs)
  then show ?thesis using assms refill_run [OF assms(1)]
    by (auto simp: on_recv_def bnd_run runs Let_def thn_Inr)
qed

lemma on_recv_stale:
  assumes "s_conns s c = Some r" and "conn_ready r" and "c_http_step r = Http_header"
    and "c_header_option r \<noteq> []"
  shows "on_recv c buf s = recv_requests c (c_buffer r @ buf) (put_c c
    ((refilled (s_now s) buf r)\<lparr>c_header_option := mm_stale (s_memory s) (s_nmemory s)\<rparr>)
    (s\<lparr>s_nmemory := s_nmemory s + 1\<rparr>))"
proof -
  let ?r = "r\<lparr>c_header_option := mm_stale (s_memory s) (s_nmemory s)\<rparr>"
  let ?s = "put_c c ?r (s\<lparr>s_nmemory := s_nmemory s + 1\<rparr>)"
  have stale: "stale_option c s = (Inr (), ?s)"
    using assms by (simp add: stale_option_def bnd_run runs next_stale_def)
  have "(refilled now buf r)\<lparr>c_header_option := x\<rparr> = refilled now buf (r\<lparr>c_header_option := x\<rparr>)" for now x
    by (simp add: refilled_def)
  with refill_run [of ?s c ?r "s_now s" buf "recv_requests c (c_buffer r @ buf)"] show ?thesis using assms
    by (simp add: on_recv_def bnd_run runs Let_def thn_Inr [where m = "stale_option c", OF stale])
qed

text \<open>The two ways to read a text go on from states that differ in the receive buffer.\<close>

lemma two_packets:
  assumes r: "s_conns s c = Some r" "conn_ready r" "c_http_step r \<in> {Http_start, Http_header}" "c_buffer r = []"
    and fresh: "c_http_step r = Http_start \<or> c_header_option r = []"
    and x: "\<not> has_blank x" "\<not> has_option x" "on_recv c x s = (Inr (), s1)" "\<not> shut c s1"
  shows "\<exists>s0. in_head c (outside s) [] (c_status r) False s0 \<and> outside s1 = outside s \<and>
    on_recv c (x @ y) s = recv_requests c (last_part x @ y) s0 \<and>
    on_recv c y s1 = recv_requests c (last_part x @ y)
      (set_buf c (if last_part x = [] then [] else last_part x @ y) s0)"
proof -
  let ?t = "last_part x"
  define r' where "r' = r\<lparr>c_ping_timeout := (if c_ping r = 0 then c_ping_timeout r else s_now s + c_ping r)\<rparr>"
  define s' where "s' = put_c c r' s"
  have start: "on_recv c buf s = recv_requests c buf s'" for buf
    unfolding on_recv_head [OF r(1-3) fresh] r'_def s'_def refilled_def
    by (simp only: r(4) simp_thms if_True append_Nil buffer_same(3) [OF r(4)])
  have "fresh_head c (outside s) [] (c_status r) s'"
    using r fresh by (auto simp: fresh_head_def in_head_def outside_def heading_def r'_def s'_def conn_ready_def put_c_def)
  note kept = keepsD' [OF head_recv_lines(2) [OF x(1,2)] this]
  obtain t s0 where run: "recv_lines (length x + 1) c x s' = (Inr (Rest t), s0)"
    and tail: "recv_end c t s0 = (Inr (), s1)"
    using x(3,4) recv_lines_shut [of "length x + 1" c x s'] unfolding start recv_requests_def
    by (auto simp: bnd_run split: prod.splits sum.splits lines_end.splits)
  have t: "t = ?t" using recv_lines_open [OF x(1)] run by blast
  have f0: "fresh_head c (outside s) [] (c_status r) s0" by (rule kept [OF run])
  note s0 = fresh_head_in [OF f0]
  obtain r0 where r0: "s_conns s0 c = Some r0" "heading (s_now s) [] (c_status r) False r0"
    and e0: "c_http_step r0 = Http_start \<or> c_header_option r0 = []"
    and out: "outside s0 = outside s"
    using f0 by (auto simp: fresh_head_def in_head_def outside_def heading_def)
  then have now: "s_now s0 = s_now s" by (simp add: outside_def)
  have s1: "s1 = set_buf c ?t s0"
    using tail r0 t by (auto simp: recv_end_def add_rest_def bnd_run runs heading_def set_buf_def put_c_def
        split: http_step.splits)
  have one: "on_recv c (x @ y) s = recv_requests c (?t @ y) s0"
    unfolding start recv_requests_def recv_lines_split [OF x(1) less_add_one] bnd_assoc
    by (simp add: bnd_run run [simplified] t)
  have r1: "s_conns s1 c = Some (r0\<lparr>c_buffer := ?t\<rparr>)" by (simp add: s1 r0)
  have none: "c_http_step (r0\<lparr>c_buffer := ?t\<rparr>) = Http_start \<or> c_header_option (r0\<lparr>c_buffer := ?t\<rparr>) = []"
    using e0 by simp
  have ready: "conn_ready (r0\<lparr>c_buffer := ?t\<rparr>)" "c_http_step (r0\<lparr>c_buffer := ?t\<rparr>) \<in> {Http_start, Http_header}"
    using r0 by (auto simp: heading_def conn_ready_def)
  have stamp: "r0\<lparr>c_ping_timeout := s_now s + c_ping r0, c_buffer := b\<rparr> = r0\<lparr>c_buffer := b\<rparr>"
    if "c_ping r0 \<noteq> 0" for b
    using r0 that by (cases r0) (simp add: heading_def)
  have "on_recv c y s1 = recv_requests c (?t @ y) (put_c c (r0\<lparr>c_buffer := (if ?t = [] then [] else ?t @ y)\<rparr>) s1)"
    unfolding on_recv_head [OF r1 ready none, of y] refilled_def using stamp now s1 by simp
  also have "put_c c (r0\<lparr>c_buffer := b\<rparr>) s1 = set_buf c b s0" for b
    using r0 by (simp add: s1 put_c_def set_buf_def)
  finally have "on_recv c y s1 = recv_requests c (?t @ y) (set_buf c (if ?t = [] then [] else ?t @ y) s0)" .
  moreover have "outside s1 = outside s" using out by (simp add: s1 outside_def set_buf_def)
  ultimately show ?thesis using s0 one by blast
qed

text \<open>
  Claim C13. A request whose head ends in the second of two packets is handled as if the packets were one, when
  the first packet has no whole Option line: the outcome is the same and so is the state, but for the receive
  buffer of a connection that the reading has closed or failed on. (An option that came with the first
  packet is a view of memory the second one is written over; \<open>on_recv_stale\<close> says what is read then.)
\<close>

theorem two_packets_same:
  assumes "s_conns s c = Some r" and "conn_ready r" and "c_http_step r \<in> {Http_start, Http_header}"
    and "c_http_step r = Http_start \<or> c_header_option r = []"
    and "c_buffer r = []" and "\<not> has_blank x" and "\<not> has_option x" and "has_blank (x @ y)"
    and "on_recv c x s = (Inr (), s1)" and "\<not> shut c s1"
  shows "apsnd (set_buf c []) (on_recv c y s1) = apsnd (set_buf c []) (on_recv c (x @ y) s) \<and>
    (fst (on_recv c (x @ y) s) = Inr () \<and> \<not> shut c (snd (on_recv c (x @ y) s)) \<longrightarrow>
     on_recv c y s1 = on_recv c (x @ y) s)"
proof -
  let ?d = "last_part x @ y"
  let ?lines = "recv_lines (length ?d + 1) c ?d"
  obtain s0 b where one: "on_recv c (x @ y) s = recv_requests c ?d s0"
    and two: "on_recv c y s1 = recv_requests c ?d (set_buf c b s0)"
    using two_packets [OF assms(1-3,5,4,6,7,9,10)] by blast
  have "has_blank ?d" using assms(6,8) by (simp add: has_blank_append)
  from recv_lines_blank [OF this, of c b s0] show ?thesis
  proof (cases rule: same_headE)
    case 1
    then show ?thesis unfolding one two recv_requests_def by (simp add: bnd_run)
  next
    case 2
    then show ?thesis unfolding one two recv_requests_def by (simp add: bnd_run)
  next
    case (3 z s')
    moreover have "z = Closed" using 3(1,2) recv_lines_ends [of ?d "length ?d + 1" c s0] by (cases z) auto
    ultimately have "z = Closed" "shut c s'" by (auto intro: recv_lines_shut)
    with 3 show ?thesis unfolding one two recv_requests_def by (simp add: bnd_run)
  qed
qed

theorem two_packets_same_witness:
  "on_recv 1 (''ho HTTP/1.1'' @ crlf @ crlf) (snd (on_recv 1 ''GET /ec'' idle)) =
     on_recv 1 (''GET /ec'' @ ''ho HTTP/1.1'' @ crlf @ crlf) idle \<and>
   map_option c_send_buffer (s_conns (snd (on_recv 1 (''GET /ec'' @ ''ho HTTP/1.1'' @ crlf @ crlf) idle)) 1) =
     Some (''HTTP/1.1 200 OK'' @ crlf @ ''Connection: keep-alive'' @ crlf @ ''Content-Length: 2'' @ crlf @ crlf @ ''ok'')"
proof -
  let ?y = "''ho HTTP/1.1'' @ crlf @ crlf"
  have "on_recv 1 ''GET /ec'' idle = (Inr (), snd (on_recv 1 ''GET /ec'' idle))"
    by (rule outcome) code_simp
  moreover have "\<not> shut 1 (snd (on_recv 1 ''GET /ec'' idle))" "\<not> has_blank ''GET /ec''" "\<not> has_option ''GET /ec''" "has_blank (''GET /ec'' @ ?y)"
    by code_simp+
  moreover have "fst (on_recv 1 (''GET /ec'' @ ?y) idle) = Inr ()" "\<not> shut 1 (snd (on_recv 1 (''GET /ec'' @ ?y) idle))"
    by code_simp+
  moreover have "s_conns idle 1 = Some (demo_conn 5)" "conn_ready (demo_conn 5)"
    "c_http_step (demo_conn 5) \<in> {Http_start, Http_header}" "c_buffer (demo_conn 5) = []"
    "c_http_step (demo_conn 5) = Http_start \<or> c_header_option (demo_conn 5) = []"
    by (simp_all add: idle_def conn_ready_def demo_conn_def new_connect_def)
  ultimately have "on_recv 1 ?y (snd (on_recv 1 ''GET /ec'' idle)) = on_recv 1 (''GET /ec'' @ ?y) idle"
    using two_packets_same [of idle 1 "demo_conn 5" "''GET /ec''" ?y] by blast
  moreover have "map_option c_send_buffer (s_conns (snd (on_recv 1 (''GET /ec'' @ ''ho HTTP/1.1'' @ crlf @ crlf) idle)) 1) =
     Some (''HTTP/1.1 200 OK'' @ crlf @ ''Connection: keep-alive'' @ crlf @ ''Content-Length: 2'' @ crlf @ crlf @ ''ok'')"
    by code_simp
  ultimately show ?thesis ..
qed

section \<open>An open head, twice\<close>

text \<open>What is added to the receive buffer at the end.\<close>

lemma recv_end_open:
  assumes "s_conns s c = Some r" and "c_http_step r \<in> {Http_start, Http_header}"
  shows "c_buffer r = [] \<or> data = [] \<Longrightarrow> recv_end c data s = (Inr (), put_c c (r\<lparr>c_buffer := c_buffer r @ data\<rparr>) s)"
    and "c_buffer r \<noteq> [] \<Longrightarrow> data \<noteq> [] \<Longrightarrow> mm_room (s_memory s) (s_nmemory s) \<Longrightarrow>
      recv_end c data s = (Inr (), put_c c (r\<lparr>c_buffer := c_buffer r @ data\<rparr>) (s\<lparr>s_nmemory := s_nmemory s + 1\<rparr>))"
    and "c_buffer r \<noteq> [] \<Longrightarrow> data \<noteq> [] \<Longrightarrow> \<not> mm_room (s_memory s) (s_nmemory s) \<Longrightarrow> fst (recv_end c data s) = Inl Fault"
  using assms by (auto simp: recv_end_def add_rest_def next_room_def bnd_run runs)

lemma no_blank_start: "\<not> has_blank (x @ y) \<Longrightarrow> \<not> has_blank x"
proof (induction x rule: has_blank.induct)
  case (1 x)
  show ?case
  proof (cases "pop_line x")
    case None
    then show ?thesis by (simp add: blank_simps)
  next
    case (Some lr)
    then obtain l r where lr: "pop_line x = Some (l, r)" by (cases lr) auto
    from "1.IH" [OF lr refl] "1.prems" show ?thesis
      by (simp add: blank_simps(2) [OF lr] blank_simps(2) [OF pop_line_append [OF lr]])
  qed
qed

text \<open>
  Claim C18. A head that is still open after the second packet, the first one having ended inside a line: what is
  not consumed is appended to the receive buffer it is a part of. When nothing is left, or the block has room, the
  buffer then holds what was in it and the rest once more, where the one packet leaves the rest only, and
  nothing else is different; when the block has no room it is given back before its bytes are read.
\<close>

theorem third_packet_misread:
  assumes "s_conns s c = Some r" and "conn_ready r" and "c_http_step r \<in> {Http_start, Http_header}"
    and "c_http_step r = Http_start \<or> c_header_option r = []"
    and "c_buffer r = []" and "\<not> has_blank (x @ y)" and "\<not> has_option x" and "last_part x \<noteq> []"
    and "on_recv c x s = (Inr (), s1)" and "\<not> shut c s1"
    and "on_recv c (x @ y) s = (Inr (), s3)" and "\<not> shut c s3"
  shows "(\<exists>r3. s_conns s3 c = Some r3 \<and> c_buffer r3 = last_part (x @ y)) \<and>
    (if last_part (x @ y) = [] \<or> mm_room (s_memory s1) (s_nmemory s1)
     then \<exists>s2 r2. on_recv c y s1 = (Inr (), s2) \<and> s_conns s2 c = Some r2 \<and>
       c_buffer r2 = (last_part x @ y) @ last_part (x @ y) \<and>
       (set_buf c [] s2)\<lparr>s_nmemory := s_nmemory s3\<rparr> = set_buf c [] s3
     else fst (on_recv c y s1) = Inl Fault)"
proof -
  let ?d = "last_part x @ y" and ?t = "last_part (x @ y)"
  let ?lines = "recv_lines (length ?d + 1) c ?d"
  have x: "\<not> has_blank x" by (rule no_blank_start [OF assms(6)])
  obtain s0 where s0: "in_head c (outside s) [] (c_status r) False s0" and out: "outside s1 = outside s"
    and one: "on_recv c (x @ y) s = recv_requests c ?d s0"
    and two: "on_recv c y s1 = recv_requests c ?d (set_buf c ?d s0)"
    using two_packets [OF assms(1-3,5,4) x assms(7,9,10)] assms(8) by auto
  have d: "\<not> has_blank ?d" using assms(6) x by (simp add: has_blank_append)
  note open_head = recv_lines_open [OF d, of c]
  have twice: "?lines (set_buf c ?d s0) = apsnd (set_buf c ?d) (?lines s0)"
    by (rule blindD [OF conjunct1 [OF open_head]])
  obtain t s' where run: "?lines s0 = (Inr (Rest t), s')"
    using assms(11,12) recv_lines_shut [of "length ?d + 1" c ?d s0] unfolding one recv_requests_def
    by (cases "?lines s0") (auto simp: bnd_run split: sum.splits lines_end.splits)
  have t: "t = ?t" using open_head run unfolding last_part_append [of x y] by blast
  have in_head: "in_head c (outside s) [] (c_status r) False s'"
    by (rule keepsD' [OF head_recv_lines(1) [OF d] s0 run])
  then obtain r' where r': "s_conns s' c = Some r'" "c_buffer r' = []"
    and step: "c_http_step r' \<in> {Http_start, Http_header}" by (auto simp: in_head_def heading_def)
  have mem: "s_memory s' = s_memory s1" "s_nmemory s' = s_nmemory s1"
    using in_head out by (simp_all add: in_head_def outside_def)
  have once: "recv_end c ?t s' = (Inr (), s3)"
    using assms(11) run unfolding one recv_requests_def by (simp add: bnd_run t)
  have s3: "s3 = put_c c (r'\<lparr>c_buffer := ?t\<rparr>) s'"
    using recv_end_open(1) [OF r'(1) step, of ?t] once r'(2) by simp
  let ?s' = "set_buf c ?d s'" and ?r' = "r'\<lparr>c_buffer := ?d\<rparr>"
  have again: "on_recv c y s1 = recv_end c ?t ?s'"
    using run twice unfolding two recv_requests_def by (simp add: bnd_run t)
  have at: "s_conns ?s' c = Some ?r'" "c_http_step ?r' \<in> {Http_start, Http_header}" "c_buffer ?r' \<noteq> []"
    using r' step assms(8) by simp_all
  have here: "s_memory ?s' = s_memory s1" "s_nmemory ?s' = s_nmemory s1" using mem by (simp_all add: set_buf_def)
  show ?thesis
  proof (cases "?t = [] \<or> mm_room (s_memory s1) (s_nmemory s1)")
    case True
    have "\<exists>n. recv_end c ?t ?s' = (Inr (), put_c c (?r'\<lparr>c_buffer := ?d @ ?t\<rparr>) (?s'\<lparr>s_nmemory := n\<rparr>))"
    proof (cases "?t = []")
      case True
      then have "recv_end c ?t ?s' = (Inr (), put_c c (?r'\<lparr>c_buffer := ?d @ ?t\<rparr>) (?s'\<lparr>s_nmemory := s_nmemory ?s'\<rparr>))"
        using recv_end_open(1) [OF at(1,2), of ?t] by simp
      then show ?thesis by blast
    next
      case False
      with True here have "mm_room (s_memory ?s') (s_nmemory ?s')" by simp
      from recv_end_open(2) [OF at(1-3) False this] show ?thesis by auto
    qed
    then show ?thesis using True unfolding again s3 by (auto simp: put_c_def set_buf_def)
  next
    case False
    then show ?thesis using recv_end_open(3) [OF at(1,2,3), of ?t] here unfolding again s3 by simp
  qed
qed

text \<open>The path the connection reads when \<^verbatim>\<open>POST /cmd HTTP/1.1\<close> comes in three packets is \<^verbatim>\<open>cmPOST\<close>.\<close>

theorem third_packet_misread_witness:
  "let s1 = snd (on_recv 1 ''POST '' idle); s2 = snd (on_recv 1 ''/cm'' s1);
     s3 = snd (on_recv 1 (''d HTTP/1.1'' @ crlf) s2) in
   map_option c_buffer (s_conns s2 1) = Some ''POST /cmPOST /cm'' \<and> map_option c_path (s_conns s3 1) = Some ''cmPOST''"
proof -
  let ?s1 = "snd (on_recv 1 ''POST '' idle)"
  let ?s2 = "snd (on_recv 1 ''/cm'' ?s1)"
  let ?s3 = "snd (on_recv 1 (''POST '' @ ''/cm'') idle)"
  have "on_recv 1 ''POST '' idle = (Inr (), ?s1)" "on_recv 1 (''POST '' @ ''/cm'') idle = (Inr (), ?s3)"
    by (rule outcome, code_simp)+
  moreover have "\<not> shut 1 ?s1" "\<not> shut 1 ?s3" "\<not> has_blank (''POST '' @ ''/cm'')" "\<not> has_option ''POST ''"
    "mm_room (s_memory ?s1) (s_nmemory ?s1)"
    and parts: "last_part ''POST '' = ''POST ''" "last_part (''POST '' @ ''/cm'') = ''POST /cm''"
    by code_simp+
  moreover have "s_conns idle 1 = Some (demo_conn 5)" "conn_ready (demo_conn 5)"
    "c_http_step (demo_conn 5) \<in> {Http_start, Http_header}" "c_buffer (demo_conn 5) = []"
    "c_http_step (demo_conn 5) = Http_start \<or> c_header_option (demo_conn 5) = []"
    by (simp_all add: idle_def conn_ready_def demo_conn_def new_connect_def)
  ultimately have "\<exists>s2 r2. on_recv 1 ''/cm'' ?s1 = (Inr (), s2) \<and> s_conns s2 1 = Some r2 \<and>
      c_buffer r2 = (''POST '' @ ''/cm'') @ ''POST /cm''"
    using third_packet_misread [of idle 1 "demo_conn 5" "''POST ''" "''/cm''" ?s1 ?s3] by auto
  then have "map_option c_buffer (s_conns ?s2 1) = Some ''POST /cmPOST /cm''" by force
  moreover have "map_option c_path (s_conns (snd (on_recv 1 (''d HTTP/1.1'' @ crlf) ?s2)) 1) = Some ''cmPOST''"
    by code_simp
  ultimately show ?thesis by simp
qed

section \<open>Receiving ends\<close>

text \<open>
  Claim C17. Receiving ends: the loop over the lines is over before it has used up more turns than there are
  bytes, however many it is allowed, and reading the requests of a packet is the loop with any such number of
  turns and then what its end asks for; the model's own number of turns is never what ends it.
\<close>

theorem receiving_ends:
  assumes "length data < k"
  shows "fst (recv_lines k c data s) \<noteq> Inr Endless \<and>
    recv_requests c data s = bnd (recv_lines k c data) (\<lambda>rest. case rest of
      Closed \<Rightarrow> ret () | Rest data \<Rightarrow> recv_end c data | Endless \<Rightarrow> throw Deadlock) s"
proof
  show "fst (recv_lines k c data s) \<noteq> Inr Endless" by (rule recv_lines_ends [OF assms])
  show "recv_requests c data s = bnd (recv_lines k c data) (\<lambda>rest. case rest of
      Closed \<Rightarrow> ret () | Rest data \<Rightarrow> recv_end c data | Endless \<Rightarrow> throw Deadlock) s"
    unfolding recv_requests_def using recv_lines_fuel [OF assms, of "length data + 1" c] by simp
qed

theorem receiving_ends_witness:
  "fst (recv_lines 100 1 ''GET /ec'' idle) \<noteq> Inr Endless \<and> (\<exists>s. recv_lines 100 1 ''GET /ec'' idle = (Inr (Rest ''GET /ec''), s))"
proof -
  have "fst (recv_lines 100 1 ''GET /ec'' idle) \<noteq> Inr Endless" by (rule conjunct1 [OF receiving_ends]) simp
  moreover have "recv_lines 100 1 ''GET /ec'' idle = (Inr (Rest ''GET /ec''), snd (recv_lines 100 1 ''GET /ec'' idle))"
    by (rule outcome) code_simp
  ultimately show ?thesis by blast
qed

end
