(* ===== verification/Http_Messages.thy ===== *)
theory Http_Messages imports Http_Splits Numerals begin

text \<open>
  A request as a client writes it, and what the connection has read when the bytes have come in: the
  fields of the request, one by one, and then the handler of a complete request runs.
\<close>

section \<open>The text of a request\<close>

datatype field = F_type request_type | F_name bytes | F_id bytes | F_option bytes | F_priority int
  | F_worker bytes | F_set_id bytes

definition name_of_type :: "request_type \<Rightarrow> bytes" where
  "name_of_type t = (case t of Rt_get \<Rightarrow> ''get'' | Rt_get_plus \<Rightarrow> ''get+'' | Rt_worker \<Rightarrow> ''worker''
     | Rt_async \<Rightarrow> ''async'' | Rt_pub \<Rightarrow> ''pub'' | Rt_result \<Rightarrow> ''result'' | Rt_create \<Rightarrow> ''create''
     | Rt_del \<Rightarrow> ''delete'' | Rt_none \<Rightarrow> [])"

fun field_line :: "field \<Rightarrow> bytes" where
  "field_line (F_type t) = ''Type: '' @ name_of_type t"
| "field_line (F_name v) = ''Name: '' @ v"
| "field_line (F_id v) = ''Id: '' @ v"
| "field_line (F_option v) = ''Option: '' @ v"
| "field_line (F_priority n) = ''Priority: '' @ number_bytes n"
| "field_line (F_worker v) = ''Worker-Id: '' @ v"
| "field_line (F_set_id v) = ''Set-Id: '' @ v"

fun set_field :: "field \<Rightarrow> connect \<Rightarrow> connect" where
  "set_field (F_type t) r = r\<lparr>c_type := t\<rparr>"
| "set_field (F_name v) r = r\<lparr>c_name := v\<rparr>"
| "set_field (F_id v) r = r\<lparr>c_id := v\<rparr>"
| "set_field (F_option v) r = r\<lparr>c_header_option := v\<rparr>"
| "set_field (F_priority n) r = r\<lparr>c_priority := n\<rparr>"
| "set_field (F_worker v) r = r\<lparr>c_required_worker := v\<rparr>"
| "set_field (F_set_id v) r = r\<lparr>c_connection_id := v\<rparr>"

text \<open>A value a line can carry.\<close>

definition one_line :: "bytes \<Rightarrow> bool" where
  "one_line v = (v \<noteq> [] \<and> CHR 0x0A \<notin> set v \<and> \<not> strippable (last v))"

fun good_field :: "field \<Rightarrow> bool" where
  "good_field (F_type t) = (t \<noteq> Rt_none)"
| "good_field (F_priority n) = (- 2147483648 \<le> n \<and> n < 2147483648)"
| "good_field (F_name v) = one_line v"
| "good_field (F_id v) = one_line v"
| "good_field (F_option v) = one_line v"
| "good_field (F_worker v) = one_line v"
| "good_field (F_set_id v) = one_line v"

lemma one_line_append: "one_line v \<Longrightarrow> CHR 0x0A \<notin> set p \<Longrightarrow> one_line (p @ v)"
  by (auto simp: one_line_def)

lemma pop_one_line:
  assumes "one_line l"
  shows "pop_line (l @ crlf @ rest) = Some (l @ crlf, rest)" and "rstrip (l @ crlf) = l"
proof -
  have "CHR 0x0A \<notin> set (l @ [CHR 0x0D])" using assms by (simp add: one_line_def)
  from pop_line_line [OF this, of rest] show "pop_line (l @ crlf @ rest) = Some (l @ crlf, rest)"
    by (simp add: crlf_def)
  have "rstrip (l @ crlf) = rstrip ((l @ [CHR 0x0D]) @ [CHR 0x0A])" by (simp add: crlf_def)
  also have "\<dots> = l"
    using assms by (simp only: rstrip_append_strippable strippable_def simp_thms rstrip_id one_line_def)
  finally show "rstrip (l @ crlf) = l" .
qed

section \<open>Header lines\<close>

lemma lower_simps [simp]:
  "lower CHR ''T'' = CHR ''t''" "lower CHR ''N'' = CHR ''n''" "lower CHR ''I'' = CHR ''i''"
  "lower CHR ''O'' = CHR ''o''" "lower CHR ''P'' = CHR ''p''" "lower CHR ''W'' = CHR ''w''"
  "lower CHR ''S'' = CHR ''s''" "lower CHR ''C'' = CHR ''c''" "lower CHR ''L'' = CHR ''l''"
  "lower CHR ''y'' = CHR ''y''" "lower CHR ''p'' = CHR ''p''" "lower CHR ''e'' = CHR ''e''"
  "lower CHR '':'' = CHR '':''" "lower CHR '' '' = CHR '' ''" "lower CHR ''a'' = CHR ''a''"
  "lower CHR ''m'' = CHR ''m''" "lower CHR ''d'' = CHR ''d''" "lower CHR ''t'' = CHR ''t''"
  "lower CHR ''i'' = CHR ''i''" "lower CHR ''o'' = CHR ''o''" "lower CHR ''n'' = CHR ''n''"
  "lower CHR ''r'' = CHR ''r''" "lower CHR ''k'' = CHR ''k''" "lower CHR ''-'' = CHR ''-''"
  "lower CHR ''g'' = CHR ''g''" "lower CHR ''h'' = CHR ''h''"
  by code_simp+

lemma read_field:
  assumes "s_conns s c = Some r" and "good_field f"
  shows "read_header (field_line f) c s = (Inr (), put_c c (set_field f r) s)"
  using assms
proof (cases f)
  case (F_type t)
  with assms show ?thesis
    by (cases t) (simp_all add: read_header_def set_type_def type_of_name_def name_of_type_def bnd_run runs)
qed (simp_all add: read_header_def bnd_run runs atoi_number_bytes to_i32_id)

lemma number_one_line:
  assumes "- (2 ^ 63) < n" and "n < 2 ^ 63"
  shows "one_line (number_bytes n)"
proof -
  have "a \<noteq> CHR 0x0A \<and> \<not> strippable a" if "digit a \<or> a = CHR ''-''" for a
    using that by (auto simp: digit_def strippable_def schar_def)
  with number_bytes_line [OF assms] show ?thesis
    unfolding one_line_def by (metis last_in_set)
qed

lemma field_one_line: "good_field f \<Longrightarrow> one_line (field_line f)"
proof (cases f)
  case (F_type t)
  then show "good_field f \<Longrightarrow> one_line (field_line f)"
    by (cases t) (simp_all add: one_line_def name_of_type_def strippable_def)
next
  case (F_priority n)
  then show "good_field f \<Longrightarrow> one_line (field_line f)"
    using one_line_append [OF number_one_line, of n "''Priority: ''"] by simp
qed (auto simp: one_line_def)

text \<open>A turn of the loop reads a header line.\<close>

lemma read_line_header:
  assumes "s_conns s c = Some r" and "c_http_step r = Http_header" and "read_header line c s = (Inr (), s')"
  shows "read_line c line s = (Inr True, s')"
  using assms by (simp add: read_line_def bnd_run thn_run runs catch_invalid_def)

lemma recv_header:
  assumes "s_conns s c = Some r" and "c_http_step r = Http_header" and "read_header line c s = (Inr (), s')"
    and "one_line line"
  shows "recv_lines (length (line @ crlf @ rest) + 1) c (line @ crlf @ rest) s = recv_lines (length rest + 1) c rest s'"
proof -
  have turn: "recv_lines (length (line @ crlf @ rest) + 1) c (line @ crlf @ rest) = bnd (read_line c line)
      (\<lambda>go. if go then recv_lines (length rest + 1) c rest else ret Closed)"
    using recv_lines_turn(2) [OF pop_one_line(1) [OF assms(4), of rest], of "length (line @ crlf @ rest) + 1" c]
      pop_one_line(2) [OF assms(4)] assms(4) by (simp add: one_line_def)
  show ?thesis unfolding turn by (simp add: bnd_run read_line_header [OF assms(1-3)])
qed

definition set_fields :: "field list \<Rightarrow> connect \<Rightarrow> connect" where
  "set_fields fs r = foldl (\<lambda>r f. set_field f r) r fs"

lemma set_field_step [simp]: "c_http_step (set_field f r) = c_http_step r"
  by (cases f) simp_all

lemma recv_fields:
  "s_conns s c = Some r \<Longrightarrow> c_http_step r = Http_header \<Longrightarrow> \<forall>f \<in> set fs. good_field f \<Longrightarrow>
   whole = concat (map (\<lambda>f. field_line f @ crlf) fs) @ rest \<Longrightarrow>
   recv_lines (length whole + 1) c whole s = recv_lines (length rest + 1) c rest (put_c c (set_fields fs r) s)"
proof (induction fs arbitrary: r s whole)
  case Nil
  then show ?case by (simp add: set_fields_def put_c_same)
next
  case (Cons f fs)
  let ?more = "concat (map (\<lambda>f. field_line f @ crlf) fs) @ rest"
  have f: "good_field f" using Cons.prems by simp
  have "recv_lines (length whole + 1) c whole s = recv_lines (length ?more + 1) c ?more (put_c c (set_field f r) s)"
    using recv_header [OF Cons.prems(1,2) read_field [OF Cons.prems(1) f] field_one_line [OF f], of ?more]
    unfolding Cons.prems(4) by (simp only: list.map concat.simps append_assoc)
  also have "\<dots> = recv_lines (length rest + 1) c rest (put_c c (set_fields (f # fs) r) s)"
    using Cons.IH [OF _ _ _ refl, of "put_c c (set_field f r) s" "set_field f r"] Cons.prems
    by (simp add: set_fields_def)
  finally show ?case .
qed

section \<open>The request line\<close>

lemma method_loop_word:
  "CHR '' '' \<notin> set w \<Longrightarrow> method_loop line i start part (w @ s) = method_loop line (i + length w) start part s"
  by (induction w arbitrary: i) auto

text \<open>A verb and a path of a request line.\<close>

definition word :: "bytes \<Rightarrow> bool" where
  "word w = (w \<noteq> [] \<and> CHR '' '' \<notin> set w \<and> CHR 0x0A \<notin> set w)"

definition request_line :: "bytes \<Rightarrow> bytes \<Rightarrow> bytes" where
  "request_line verb path = verb @ '' /'' @ path @ '' HTTP/1.1''"

lemma method_loop_path:
  assumes "word verb" and "word path"
  shows "method_loop (request_line verb path) 0 0 0 (request_line verb path) = path"
proof -
  let ?l = "request_line verb path"
  have at: "?l ! (length verb + 1) = CHR ''/''" by (simp add: request_line_def nth_append)
  have "method_loop ?l 0 0 0 ?l = method_loop ?l (length verb + 1) (length verb + 1) 1 ((CHR ''/'' # path) @ '' HTTP/1.1'')"
    using assms(1) method_loop_word [of verb ?l 0 0 0 "'' /'' @ path @ '' HTTP/1.1''"]
    by (simp add: word_def request_line_def)
  also have "\<dots> = method_loop ?l (length verb + 1 + length (CHR ''/'' # path)) (length verb + 1) 1 '' HTTP/1.1''"
    by (rule method_loop_word) (use assms(2) in \<open>simp add: word_def\<close>)
  also have "\<dots> = take (length path) (drop (length verb + 2) ?l)"
    using assms(2) at by (simp add: word_def)
  also have "\<dots> = path" by (simp add: request_line_def)
  finally show ?thesis .
qed

lemma request_line_one: "word verb \<Longrightarrow> word path \<Longrightarrow> one_line (request_line verb path)"
  by (auto simp: one_line_def word_def request_line_def strippable_def)

text \<open>What a new request starts from, with its request line.\<close>

definition started :: "bytes \<Rightarrow> connect \<Rightarrow> connect" where
  "started path r = r\<lparr>c_body := [], c_id := [], c_header_option := [], c_info := [],
     c_json := json_load [] (j_level (c_json r)), c_name := [], c_content_length := 0, c_priority := 0,
     c_required_worker := [], c_no_response := False, c_type := Rt_none,
     c_fail_on_disconnect := False, c_client := None, c_noid := False,
     c_path := path, c_http_version := 11, c_http_step := Http_header\<rparr>"

lemma read_request_line:
  assumes "s_conns s c = Some r" and "c_http_step r = Http_start" and "c_status r = Net"
    and "\<not> c_worker_mode r" and "c_client r = None" and "word verb" and "word path"
  shows "read_line c (request_line verb path) s = (Inr True, put_c c (started path r) s)"
proof -
  have "last (request_line verb path) = CHR ''1''" by (simp add: request_line_def)
  with assms show ?thesis
    by (simp add: read_line_def start_request_def read_method_def set_step_def bnd_run thn_run runs Let_def
        method_loop_path reset_request_def started_def) (simp add: word_def)
qed

section \<open>The whole request\<close>

definition request_text :: "bytes \<Rightarrow> bytes \<Rightarrow> field list \<Rightarrow> bytes \<Rightarrow> bytes" where
  "request_text verb path fs body = request_line verb path @ crlf @ concat (map (\<lambda>f. field_line f @ crlf) fs) @
     (if body = [] then [] else ''Content-Length: '' @ number_bytes (int (length body)) @ crlf) @ crlf @ body"

text \<open>The connection that has read it.\<close>

definition with_length :: "bytes \<Rightarrow> connect \<Rightarrow> connect" where
  "with_length body r = r\<lparr>c_content_length := int (length body)\<rparr>"

definition has_read :: "bytes \<Rightarrow> field list \<Rightarrow> bytes \<Rightarrow> connect \<Rightarrow> connect" where
  "has_read path fs body r = (set_fields fs (started path r))\<lparr>c_content_length := int (length body),
     c_http_step := Http_request_completed, c_body := body, c_buffer := []\<rparr>"

lemma set_fields_kept:
  "c_http_step (set_fields fs r) = c_http_step r \<and> c_content_length (set_fields fs r) = c_content_length r \<and>
   c_body (set_fields fs r) = c_body r"
proof (induction fs arbitrary: r)
  case (Cons f fs)
  from Cons.IH [of "set_field f r"] show ?case by (cases f) (simp_all add: set_fields_def)
qed (simp add: set_fields_def)

lemma recv_length:
  assumes "s_conns s c = Some r" and "c_http_step r = Http_header" and "c_content_length r = 0"
    and "length body < 2147483648"
    and "whole = (if body = [] then [] else ''Content-Length: '' @ number_bytes (int (length body)) @ crlf) @ rest"
  shows "recv_lines (length whole + 1) c whole s = recv_lines (length rest + 1) c rest (put_c c (with_length body r) s)"
proof (cases "body = []")
  case True
  have "with_length body r = r" using assms(3) True by (cases r) (simp add: with_length_def)
  with True assms show ?thesis by (simp add: put_c_same)
next
  case False
  let ?line = "''Content-Length: '' @ number_bytes (int (length body))"
  have "one_line ?line" by (rule one_line_append [OF number_one_line]) (use assms(4) in simp_all)
  moreover have "read_header ?line c s = (Inr (), put_c c (with_length body r) s)"
    using assms(1,4) by (simp add: read_header_def bnd_run runs atoi_number_bytes to_i32_id with_length_def)
  ultimately show ?thesis
    using recv_header [OF assms(1,2), of ?line _ rest] assms(5) False by simp
qed

lemma blank_run: "recv_lines (length (crlf @ body) + 1) c (crlf @ body) = bnd (take_body c body) (\<lambda>data.
    bnd (finish_request c data) (\<lambda>again. if again then recv_lines (length (crlf @ body)) c data else ret (Rest data)))"
proof -
  have "pop_line (crlf @ body) = Some (crlf, body)" "rstrip crlf = []"
    using pop_line_line [of "[CHR 0x0D]" body] by (simp_all add: crlf_def rstrip_def strippable_def)
  then show ?thesis
    by (simp only: recv_lines.simps option.case prod.case Let_def if_True Suc_eq_plus1 [symmetric] simp_thms)
qed

lemma take_whole_body:
  assumes "s_conns s c = Some r" and "c_http_step r = Http_header" and "c_content_length r = int (length body)"
    and "body = [] \<Longrightarrow> c_body r = []"
  shows "take_body c body s = (Inr [], put_c c (r\<lparr>c_http_step := Http_request_completed, c_body := body\<rparr>) s)"
proof (cases "body = []")
  case True
  then have same: "r\<lparr>c_http_step := x, c_body := []\<rparr> = r\<lparr>c_http_step := x\<rparr>" for x using assms(4) by (cases r) simp
  from True assms show ?thesis by (simp add: take_body_def set_step_def bnd_run thn_run runs same)
next
  case False
  have "slice_pop (int (length body)) body = (Inr body, [])" by (simp add: slice_pop_def slice_get_def)
  with False assms show ?thesis by (simp add: take_body_def set_step_def bnd_run thn_run runs Let_def)
qed

lemma recv_body_part:
  assumes "s_conns s c = Some r" and "c_http_step r = Http_header" and "c_content_length r = int (length body)"
    and "body = [] \<Longrightarrow> c_body r = []"
  shows "bnd (recv_lines (length (crlf @ body) + 1) c (crlf @ body)) (\<lambda>rest. case rest of
      Closed \<Rightarrow> ret () | Rest data \<Rightarrow> recv_end c data | Endless \<Rightarrow> throw Deadlock) s =
    thn (complete c) (recv_end c [])
      (put_c c (r\<lparr>c_http_step := Http_request_completed, c_body := body, c_buffer := []\<rparr>) s)"
  unfolding blank_run
  by (simp add: bnd_run thn_run take_whole_body [OF assms] finish_request_def runs split: prod.splits sum.splits)

definition read_whole :: "field list \<Rightarrow> bytes \<Rightarrow> connect \<Rightarrow> connect" where
  "read_whole fs body r = (set_fields fs r)\<lparr>c_content_length := int (length body),
     c_http_step := Http_request_completed, c_body := body, c_buffer := []\<rparr>"

text \<open>Whatever the request line makes of the connection, the rest of the packet is read on top of it.\<close>

lemma packet_read:
  assumes "s_conns s c = Some r" and "conn_ready r" and "c_http_step r = Http_start" and "c_buffer r = []" and "c_ping r = 0"
    and line: "read_line c (request_line verb path) s = (Inr True, put_c c r1 s)"
      "c_http_step r1 = Http_header" "c_content_length r1 = 0" "c_body r1 = []"
    and "word verb" and "word path" and "\<forall>f \<in> set fs. good_field f" and "length body < 2147483648"
  shows "on_recv c (request_text verb path fs body) s =
    thn (complete c) (recv_end c []) (put_c c (read_whole fs body r1) s)"
proof -
  let ?line = "request_line verb path"
  let ?body = "crlf @ body"
  let ?len = "(if body = [] then [] else ''Content-Length: '' @ number_bytes (int (length body)) @ crlf) @ ?body"
  let ?fields = "concat (map (\<lambda>f. field_line f @ crlf) fs) @ ?len"
  let ?r2 = "set_fields fs r1"
  have whole: "request_text verb path fs body = ?line @ crlf @ ?fields" by (simp add: request_text_def)
  have one: "one_line ?line" by (rule request_line_one [OF assms(10,11)])
  from on_recv_head [OF assms(1,2)] assms
  have start: "on_recv c x s = recv_requests c x s" for x
    by (simp add: refilled_def buffer_same put_c_same)
  have turn: "recv_lines (length (?line @ crlf @ ?fields) + 1) c (?line @ crlf @ ?fields) =
      bnd (read_line c ?line) (\<lambda>go. if go then recv_lines (length ?fields + 1) c ?fields else ret Closed)"
    using recv_lines_turn(2) [OF pop_one_line(1) [OF one, of ?fields], of "length (?line @ crlf @ ?fields) + 1" c]
      pop_one_line(2) [OF one] one by (simp only: one_line_def) simp
  have "recv_lines (length (?line @ crlf @ ?fields) + 1) c (?line @ crlf @ ?fields) s =
      recv_lines (length ?fields + 1) c ?fields (put_c c r1 s)"
    unfolding turn by (simp add: bnd_run line(1))
  also have "\<dots> = recv_lines (length ?len + 1) c ?len (put_c c ?r2 s)"
    using recv_fields [OF _ line(2) assms(12) refl, of "put_c c r1 s" c ?len] by simp
  also have "\<dots> = recv_lines (length ?body + 1) c ?body (put_c c (with_length body ?r2) s)"
    using recv_length [of "put_c c ?r2 s" c ?r2 body _ ?body] line(2-4) assms(13) by (simp add: set_fields_kept)
  finally have "on_recv c (request_text verb path fs body) s =
      bnd (recv_lines (length ?body + 1) c ?body) (\<lambda>rest. case rest of Closed \<Rightarrow> ret () | Rest data \<Rightarrow> recv_end c data | Endless \<Rightarrow> throw Deadlock)
        (put_c c (with_length body ?r2) s)"
    unfolding start whole recv_requests_def by (simp only: bnd_run)
  also have "\<dots> = thn (complete c) (recv_end c []) (put_c c (read_whole fs body r1) s)"
    using recv_body_part [of "put_c c (with_length body ?r2) s" c "with_length body ?r2" body] line(2-4)
    by (simp add: set_fields_kept with_length_def read_whole_def)
  finally show ?thesis .
qed

text \<open>
  Claim C12. A whole request that comes in one packet is read as it was written: the path, the type, the
  name, the id, the option, the priority, the ids of the workers and the body are those of the text, later
  lines overriding earlier ones, everything else starts afresh, and the handler of complete requests runs
  on that connection.
\<close>

theorem request_read:
  assumes "s_conns s c = Some r" and "c_status r = Net" and "c_http_step r = Http_start" and "c_buffer r = []"
    and "\<not> c_worker_mode r" and "c_client r = None" and "c_ping r = 0"
    and "word verb" and "word path" and "\<forall>f \<in> set fs. good_field f" and "length body < 2147483648"
  shows "on_recv c (request_text verb path fs body) s =
    thn (complete c) (recv_end c []) (put_c c (has_read path fs body r) s)"
proof -
  have "conn_ready r" using assms(2) by (simp add: conn_ready_def)
  moreover have "read_whole fs body (started path r) = has_read path fs body r" by (simp add: read_whole_def has_read_def)
  ultimately show ?thesis
    using packet_read [OF assms(1) _ assms(3,4,7) read_request_line [OF assms(1,3,2,5,6,8,9)] _ _ _ assms(8-11)]
    by (simp add: started_def)
qed

theorem request_read_witness:
  "on_recv 1 (request_text ''POST'' ''cmd'' [F_type Rt_async, F_id ''15'', F_priority (- 3)] ''hi'') idle =
     thn (complete 1) (recv_end 1 []) (put_c 1 (has_read ''cmd'' [F_type Rt_async, F_id ''15'', F_priority (- 3)] ''hi'' (demo_conn 5)) idle) \<and>
   c_id (has_read ''cmd'' [F_type Rt_async, F_id ''15'', F_priority (- 3)] ''hi'' (demo_conn 5)) = ''15'' \<and>
   fst (on_recv 1 (request_text ''POST'' ''cmd'' [F_type Rt_async, F_id ''15'', F_priority (- 3)] ''hi'') idle) = Inr ()"
proof -
  let ?t = "request_text ''POST'' ''cmd'' [F_type Rt_async, F_id ''15'', F_priority (- 3)] ''hi''"
  have "on_recv 1 ?t idle = thn (complete 1) (recv_end 1 [])
      (put_c 1 (has_read ''cmd'' [F_type Rt_async, F_id ''15'', F_priority (- 3)] ''hi'' (demo_conn 5)) idle)"
    by (rule request_read)
      (simp_all add: idle_def demo_conn_def new_connect_def word_def one_line_def strippable_def)
  moreover have "fst (on_recv 1 ?t idle) = Inr ()" by code_simp
  moreover have "c_id (has_read ''cmd'' [F_type Rt_async, F_id ''15'', F_priority (- 3)] ''hi'' (demo_conn 5)) = ''15''"
    by (simp add: has_read_def set_fields_def)
  ultimately show ?thesis by blast
qed

end
