(* ===== verification/Http_Sending.thy ===== *)
theory Http_Sending imports Demo_State begin

text \<open>
  Sending: a connection with bytes to send is rid of them after finitely many writable events, whatever
  part of them the kernel takes each time, and then stops asking for such events or is closed.
\<close>

section \<open>A failing recv\<close>

text \<open>One descriptor on which \<^verbatim>\<open>recv\<close> fails ends the loop that waits for it: the events behind it are not handled, the
  rest of the turn is not run, and \<^verbatim>\<open>_loop_safe\<close> does not start the loop again.\<close>

lemma recv_error_ends_loop:
  assumes "s_connections s fd = Some c" "s_conns s c = Some r" "c_nloop r = n" "n < length (s_loops s)" "int fd \<noteq> s_fake_fd s"
  shows "loop_turn n ((fd, Ev_fail) # evs) s = (Inl (Thrown ''recv error''), s\<lparr>s_loops := (s_loops s)[n :=
    (s_loops s ! n)\<lparr>l_stat_ioevent := l_stat_ioevent (s_loops s ! n) + word_of_nat (length evs + 1)\<rparr>]\<rparr>)"
  using assms by (simp add: loop_turn_def handle_event_def bnd_run thn_run runs)

section \<open>One writable event\<close>

text \<open>What a connection has to send at its next writable event, and the direct messages it keeps after that: the send
  buffer, or the first direct message when there is none.\<close>

definition offered :: "server \<Rightarrow> connect \<Rightarrow> bytes \<times> nat list" where
  "offered s r = (if c_send_buffer r \<noteq> [] then (c_send_buffer r, c_direct_message r)
     else (case c_direct_message r of [] \<Rightarrow> ([], [])
       | d # ds \<Rightarrow> (case s_dms s d of None \<Rightarrow> ([], ds) | Some x \<Rightarrow> (dm_data x, ds))))"

text \<open>The kernel takes at most what it is given: \<open>n\<close> bytes, or all of them.\<close>

definition writable :: "nat \<Rightarrow> nat \<Rightarrow> (server, unit) prog" where
  "writable c n = (\<lambda>s. case s_conns s c of None \<Rightarrow> (Inl Fault, s)
     | Some r \<Rightarrow> on_send c (int (min n (length (fst (offered s r))))) s)"

text \<open>The count of the bytes its loop has sent, after \<open>n\<close> more.\<close>

definition count_sent :: "nat \<Rightarrow> nat \<Rightarrow> server \<Rightarrow> server" where
  "count_sent m n s = s\<lparr>s_loops := (s_loops s)[m := (s_loops s ! m)\<lparr>
     l_stat_send := l_stat_send (s_loops s ! m) + of_nat n\<rparr>]\<rparr>"

lemma count_sent_sel [simp]:
  "s_conns (count_sent m n s) = s_conns s" "length (s_loops (count_sent m n s)) = length (s_loops s)"
  by (simp_all add: count_sent_def)

text \<open>A direct message that was sent from has one user less.\<close>

definition released :: "connect \<Rightarrow> server \<Rightarrow> server" where
  "released r s = (if c_send_buffer r \<noteq> [] then s
     else (case c_direct_message r of [] \<Rightarrow> s | d # ds \<Rightarrow> snd (dm_unlink d s)))"

lemma released_sel [simp]: "s_conns (released r s) = s_conns s" "s_loops (released r s) = s_loops s"
  by (simp_all add: released_def dm_unlink_def Let_def split: list.splits option.splits)

text \<open>The connection and the state when \<open>n\<close> bytes have been taken.\<close>

definition taken :: "nat \<Rightarrow> server \<Rightarrow> connect \<Rightarrow> connect" where
  "taken n s r = r\<lparr>c_direct_message := snd (offered s r), c_wire := c_wire r @ take n (fst (offered s r)),
     c_send_buffer := drop n (fst (offered s r))\<rparr>"

lemma taken_sel [simp]:
  "c_wire (taken n s r) = c_wire r @ take n (fst (offered s r))" "c_send_buffer (taken n s r) = drop n (fst (offered s r))"
  "c_direct_message (taken n s r) = snd (offered s r)" "c_nloop (taken n s r) = c_nloop r"
  "c_socket_status (taken n s r) = c_socket_status r" "c_keep_alive (taken n s r) = c_keep_alive r"
  by (simp_all add: taken_def)

definition sent :: "nat \<Rightarrow> nat \<Rightarrow> connect \<Rightarrow> server \<Rightarrow> server" where
  "sent c n r s = put_c c (taken n s r) (count_sent (c_nloop r) n (released r s))"

lemma raw_send_run:
  assumes "s_conns s c = Some r" and "c_nloop r < length (s_loops s)" and "0 < n"
  shows "raw_send c b (int n) s = (Inr (), put_c c (r\<lparr>c_wire := c_wire r @ take n b\<rparr>) (count_sent (c_nloop r) n s))"
  using assms by (simp add: raw_send_def bnd_run thn_run runs count_sent_def put_c_def)

lemma send_direct_run:
  assumes r: "s_conns s c = Some r" "c_nloop r < length (s_loops s)" "c_send_buffer r = []" and x: "s_dms s d = Some x"
    and n: "0 < n" "n \<le> length (dm_data x)"
  shows "send_direct c (int n) d s = (Inr (), put_c c (r\<lparr>c_wire := c_wire r @ take n (dm_data x),
    c_send_buffer := drop n (dm_data x)\<rparr>) (count_sent (c_nloop r) n (snd (dm_unlink d s))))"
proof -
  let ?s = "s\<lparr>s_gc := [Gc_direct d]\<rparr>"
  let ?r = "r\<lparr>c_wire := c_wire r @ take n (dm_data x), c_send_buffer := drop n (dm_data x)\<rparr>"
  let ?s1 = "put_c c ?r (count_sent (c_nloop r) n ?s)"
  have same: "r\<lparr>c_wire := w, c_send_buffer := []\<rparr> = r\<lparr>c_wire := w\<rparr>" for w using r(3) by (cases r) simp
  have part: "whenp (int n \<noteq> int (length (dm_data x))) (add_send c (drop n (dm_data x)))
      (put_c c (r\<lparr>c_wire := c_wire r @ take n (dm_data x)\<rparr>) (count_sent (c_nloop r) n ?s)) = (Inr (), ?s1)"
    using r n by (cases "n = length (dm_data x)") (simp_all add: add_send_def runs same)
  have wire: "raw_send c (dm_data x) (int n) ?s = (Inr (),
      put_c c (r\<lparr>c_wire := c_wire r @ take n (dm_data x)\<rparr>) (count_sent (c_nloop r) n ?s))"
    using raw_send_run [of ?s c r n "dm_data x"] r n by simp
  have body: "thn (gc_add (Gc_direct d)) (bnd (gets (\<lambda>s. s_dms s d)) (\<lambda>x. case x of None \<Rightarrow> throw Fault
      | Some x \<Rightarrow> thn (raw_send c (dm_data x) (int n)) (if int n < 0 then throw (Thrown ''Not implemented: sent < 0'')
          else whenp (int n \<noteq> int (length (dm_data x))) (add_send c (drop (nat (int n)) (dm_data x)))))) (s\<lparr>s_gc := []\<rparr>) =
      (Inr (), ?s1)"
    using x wire part by (simp add: gc_add_def bnd_run thn_run)
  have "for_each (s_gc ?s1) gc_free (?s1\<lparr>s_gc := s_gc s\<rparr>) =
      (Inr (), put_c c ?r (count_sent (c_nloop r) n (snd (dm_unlink d s))))"
    using x by (simp add: thn_run dm_unlink_def Let_def count_sent_def put_c_def)
  then show ?thesis unfolding send_direct_def with_gc_def body by simp
qed

lemma on_send_run:
  assumes r: "s_conns s c = Some r" "c_nloop r < length (s_loops s)"
    and n: "0 < n" "n \<le> length (fst (offered s r))"
  shows "on_send c (int n) s = (if n < length (fst (offered s r)) then (Inr (), sent c n r s)
    else if c_keep_alive r then write_mode False c (sent c n r s) else conn_close c (sent c n r s))"
proof -
  have "(if c_send_buffer r \<noteq> [] then
      thn (raw_send c (c_send_buffer r) (int n)) (if int n < 0 then throw (Thrown ''Not implemented: sent < 0'')
        else upd_c c (\<lambda>r. r\<lparr>c_send_buffer := drop (nat (int n)) (c_send_buffer r)\<rparr>))
     else (case c_direct_message r of [] \<Rightarrow> ret ()
       | d # ds \<Rightarrow> thn (upd_c c (\<lambda>r. r\<lparr>c_direct_message := ds\<rparr>)) (send_direct c (int n) d))) s = (Inr (), sent c n r s)"
  proof (cases "c_send_buffer r = []")
    case False
    then have o1: "offered s r = (c_send_buffer r, c_direct_message r)" by (simp add: offered_def)
    have same: "r\<lparr>c_direct_message := c_direct_message r\<rparr> = r" by (cases r) simp
    with False show ?thesis
      using raw_send_run [OF r n(1), of "c_send_buffer r"]
      by (simp add: thn_run runs sent_def taken_def o1 released_def same)
  next
    case True
    with n obtain d ds x where d: "c_direct_message r = d # ds" "s_dms s d = Some x"
      by (auto simp: offered_def split: list.splits option.splits)
    with True have o1: "offered s r = (dm_data x, ds)" by (simp add: offered_def)
    let ?r = "r\<lparr>c_direct_message := ds\<rparr>"
    have "send_direct c (int n) d (put_c c ?r s) = (Inr (), put_c c (?r\<lparr>c_wire := c_wire ?r @ take n (dm_data x),
        c_send_buffer := drop n (dm_data x)\<rparr>) (count_sent (c_nloop ?r) n (snd (dm_unlink d (put_c c ?r s)))))"
      by (rule send_direct_run) (use True r n d o1 in \<open>simp_all add: put_c_def\<close>)
    also have "\<dots> = (Inr (), sent c n r s)"
      using True d o1 by (simp add: sent_def taken_def released_def dm_unlink_def count_sent_def put_c_def Let_def)
    finally show ?thesis using True r d by (simp add: thn_run runs)
  qed
  with r show ?thesis
    by (simp only: on_send_def bnd_run get_c_run thn_run prod.case sum.case)
      (simp add: bnd_run runs sent_def whenp_def)
qed

text \<open>The mode at the end: the write bit is taken out and the loop told, or the connection is closed.\<close>

lemma and_0xfd: "0 \<le> st \<Longrightarrow> st < 4 \<Longrightarrow> and st 0xfd = and st (1 :: int)"
proof -
  assume "0 \<le> st" "st < 4"
  then have "st = 0 \<or> st = 1 \<or> st = 2 \<or> st = 3" by presburger
  then show ?thesis by auto
qed

section \<open>All of them\<close>

text \<open>The events \<open>i\<close>, \<open>i + 1\<close>, ..., each taking the bytes that \<open>f\<close> says.\<close>

definition events :: "nat \<Rightarrow> (nat \<Rightarrow> nat) \<Rightarrow> nat \<Rightarrow> (server, unit) prog" where
  "events c f k = for_each (map f [0..<k]) (writable c)"

lemma events_Suc: "events c f (Suc k) = thn (writable c (f 0)) (events c (\<lambda>i. f (Suc i)) k)"
  by (simp add: events_def upt_conv_Cons map_Suc_upt [symmetric] comp_def del: upt_Suc)

text \<open>The connection has stopped asking for writable events, and its loop is told, or it is closed.\<close>

definition stopped :: "nat \<Rightarrow> connect \<Rightarrow> server \<Rightarrow> connect \<Rightarrow> bool" where
  "stopped c r s' r' = (if c_keep_alive r then c_socket_status r' = and (c_socket_status r) 1 \<and> c \<in> set (l_to_send (s_loops s' ! c_nloop r))
     else is_closed r')"

lemma stopped_taken [simp]: "stopped c (taken n s r) = stopped c r"
  by (intro ext) (simp add: stopped_def)

lemma events_drain:
  assumes "s_conns s c = Some r" and "c_nloop r < length (s_loops s)" and "fst (offered s r) \<noteq> []"
    and "\<forall>i. 0 < f i" and "0 \<le> c_socket_status r" "c_socket_status r < 4"
    and "and (c_socket_status r) 2 \<noteq> 0"
  shows "\<exists>k \<le> length (fst (offered s r)). \<exists>s' r'. events c f k s = (Inr (), s') \<and> s_conns s' c = Some r' \<and>
    c_wire r' = c_wire r @ fst (offered s r) \<and> c_send_buffer r' = [] \<and> c_direct_message r' = snd (offered s r) \<and>
    l_stat_send (s_loops s' ! c_nloop r) = l_stat_send (s_loops s ! c_nloop r) + of_nat (length (fst (offered s r))) \<and>
    stopped c r s' r'"
  using assms
proof (induction "length (fst (offered s r))" arbitrary: s r f rule: less_induct)
  case less
  let ?b = "fst (offered s r)" and ?r = "\<lambda>n. taken n s r" and ?s = "\<lambda>n. sent c n r s"
  have pos: "0 < f 0" using less.prems(4) by blast
  show ?case
  proof (cases "f 0 < length ?b")
    case True
    have first: "writable c (f 0) s = (Inr (), ?s (f 0))"
      using less.prems(1) on_send_run [OF less.prems(1,2) pos] True by (simp add: writable_def)
    have left: "drop (f 0) ?b \<noteq> []" using True by simp
    then have o1: "offered (?s (f 0)) (?r (f 0)) = (drop (f 0) ?b, snd (offered s r))"
      by (simp add: offered_def [of "?s (f 0)" "?r (f 0)"])
    have at: "s_conns (?s (f 0)) c = Some (?r (f 0))" "c_nloop (?r (f 0)) < length (s_loops (?s (f 0)))"
      using less.prems(2) by (simp_all add: sent_def)
    have "length (fst (offered (?s (f 0)) (?r (f 0)))) < length ?b" using o1 True pos by simp
    from less.hyps [OF this at, of "\<lambda>i. f (Suc i)"] obtain k s' r' where
      k: "k \<le> length ?b - f 0" and run: "events c (\<lambda>i. f (Suc i)) k (?s (f 0)) = (Inr (), s')"
      and end_c: "s_conns s' c = Some r'" "c_wire r' = (c_wire r @ take (f 0) ?b) @ drop (f 0) ?b" "c_send_buffer r' = []"
        "c_direct_message r' = snd (offered s r)"
        "l_stat_send (s_loops s' ! c_nloop r) = l_stat_send (s_loops (?s (f 0)) ! c_nloop r) + of_nat (length ?b - f 0)"
        "stopped c r s' r'"
      using less.prems True left o1 by auto
    have "l_stat_send (s_loops s' ! c_nloop r) = l_stat_send (s_loops s ! c_nloop r) + of_nat (length ?b)"
      using end_c(5) less.prems(2) True by (simp add: sent_def count_sent_def of_nat_diff)
    moreover have "c_wire r' = c_wire r @ ?b" using end_c(2) by simp
    moreover have "Suc k \<le> length ?b" using k pos True by linarith
    moreover have "events c f (Suc k) s = (Inr (), s')"
      by (simp add: events_Suc thn_Inr [where m = "writable c (f 0)", OF first] run)
    ultimately show ?thesis using end_c by blast
  next
    case False
    let ?n = "length ?b"
    have run: "writable c (f 0) s = (if c_keep_alive r then write_mode False c (?s ?n) else conn_close c (?s ?n))"
      using less.prems(1,3) on_send_run [OF less.prems(1,2), of ?n] False by (simp add: writable_def min_def)
    have one: "events c f 1 s = writable c (f 0) s"
      by (cases "writable c (f 0) s") (auto simp: events_def thn_run split: sum.splits)
    have "1 \<le> ?n" using less.prems(3) by (cases ?b) auto
    moreover have "\<exists>s' r'. writable c (f 0) s = (Inr (), s') \<and> s_conns s' c = Some r' \<and>
        c_wire r' = c_wire r @ ?b \<and> c_send_buffer r' = [] \<and> c_direct_message r' = snd (offered s r) \<and>
        l_stat_send (s_loops s' ! c_nloop r) = l_stat_send (s_loops s ! c_nloop r) + of_nat ?n \<and>
        stopped c r s' r'"
      unfolding run using less.prems
      by (auto simp: stopped_def write_mode_def Let_def bnd_run thn_run runs sent_def conn_close_def is_closed_def
          count_sent_def and_0xfd)
    ultimately show ?thesis unfolding one [symmetric] by blast
  qed
qed

text \<open>
  Claim C14. Whatever part of the waiting bytes the kernel takes at each writable event, as long as it takes
  some, after at most as many events as there are bytes exactly these bytes have gone out, in their order, behind
  what had gone out before: the send buffer, or the first direct message when the buffer was empty. The
  buffer is empty then, the bytes are counted, and the direct messages behind are still queued; a connection
  that is kept alive has taken the write bit out of its mode and is on the list of its loop that makes
  the change, another one is closed.
\<close>

theorem everything_sent:
  assumes "s_conns s c = Some r" and "c_nloop r < length (s_loops s)" and "fst (offered s r) \<noteq> []"
    and "0 \<le> c_socket_status r" and "c_socket_status r < 4" and "and (c_socket_status r) 2 \<noteq> 0"
    and "\<forall>i. 0 < f i"
  shows "\<exists>k s' r'. k \<le> length (fst (offered s r)) \<and> for_each (map f [0..<k]) (writable c) s = (Inr (), s') \<and>
    s_conns s' c = Some r' \<and> c_wire r' = c_wire r @ fst (offered s r) \<and>
    c_send_buffer r' = [] \<and> c_direct_message r' = snd (offered s r) \<and>
    l_stat_send (s_loops s' ! c_nloop r) = l_stat_send (s_loops s ! c_nloop r) + of_nat (length (fst (offered s r))) \<and>
    (if c_keep_alive r then c_socket_status r' = and (c_socket_status r) 1 \<and> c \<in> set (l_to_send (s_loops s' ! c_nloop r))
     else is_closed r')"
  using events_drain [OF assms(1-3,7,4-6)] unfolding events_def stopped_def by metis

theorem everything_sent_witness:
  "\<exists>k s' r'. k \<le> length ''hello'' \<and> for_each (map (\<lambda>i. Suc i) [0..<k]) (writable 2)
      (demo new_mapper (demo_line [] []) [2 \<mapsto> demo_conn 5\<lparr>c_direct_message := [7, 8], c_socket_status := 3\<rparr>]
        \<lparr>s_dms := [7 \<mapsto> \<lparr>dm_data = ''hello'', dm_counter = 2\<rparr>]\<rparr>) = (Inr (), s') \<and>
    s_conns s' 2 = Some r' \<and> c_wire r' = ''hello'' \<and> c_direct_message r' = [8] \<and> c_socket_status r' = 1"
proof -
  let ?r = "demo_conn 5\<lparr>c_direct_message := [7, 8], c_socket_status := 3\<rparr>"
  let ?s = "demo new_mapper (demo_line [] []) [2 \<mapsto> ?r]\<lparr>s_dms := [7 \<mapsto> \<lparr>dm_data = ''hello'', dm_counter = 2\<rparr>]\<rparr>"
  have "offered ?s ?r = (''hello'', [8])" "c_wire ?r = []"
    by (simp_all add: offered_def demo_conn_def new_connect_def)
  then show ?thesis
    using everything_sent [of ?s 2 ?r "\<lambda>i. Suc i"] by auto
qed

end
