(* ===== verification/Http_Calls.thy ===== *)
theory Http_Calls imports Broker_Calls Http_Messages begin

text \<open>
  A call over HTTP, from the bytes the client sends to the bytes it gets: what the connection reads from a packet
  (\<open>Http_Messages\<close>) put together with what the handlers do with it (\<open>Broker_Calls\<close>).
\<close>

section \<open>Complete requests\<close>

text \<open>The paths that do not name a queue.\<close>

definition reserved :: "bytes list" where
  "reserved = [''echo'', ''rpc/call'', ''rpc/worker'', ''rpc/add'', ''rpc/result'', ''rpc/details'', ''rpc/help'', ''/'']"

definition plain_call :: "connect \<Rightarrow> bool" where
  "plain_call r = (\<not> c_worker_mode r \<and> \<not> c_noid r \<and> c_type r = Rt_none \<and> c_http_version r = 11 \<and>
     c_header_option r \<noteq> ''async'' \<and> c_path r \<notin> set reserved)"

lemma call_completed:
  assumes "s_conns s c = Some r" and "c_nloop r < length (s_loops s)" and "plain_call r"
  shows "\<exists>ls. length ls = length (s_loops s) \<and> complete c s =
    catch_invalid (thn (client_request (c_nloop r) (c_path r) c) (ret ())) (invalid_reply c)
      (put_c c (r\<lparr>c_keep_alive := True, c_json := json_load (c_body r) 0, c_no_response := False\<rparr>) (s\<lparr>s_loops := ls\<rparr>))"
proof -
  let ?ls = "(s_loops s)[c_nloop r := (s_loops s ! c_nloop r)\<lparr>l_stat_request := l_stat_request (s_loops s ! c_nloop r) + 1\<rparr>]"
  have "header_completed c s = thn (client_request (c_nloop r) (c_path r) c) (ret ())
      (put_c c (r\<lparr>c_keep_alive := True, c_json := json_load (c_body r) 0, c_no_response := False\<rparr>) (s\<lparr>s_loops := ?ls\<rparr>))"
    using assms by (simp add: header_completed_def call_method_def plain_call_def reserved_def bnd_run thn_run runs put_c_def)
  then show ?thesis by (intro exI [of _ ?ls]) (simp add: complete_def catch_invalid_def)
qed

lemma result_completed:
  assumes "s_conns s w = Some r" and "c_nloop r < length (s_loops s)" and "\<not> c_worker_mode r" "\<not> c_noid r"
    "c_type r = Rt_result" "c_http_version r = 11" "c_path r \<noteq> ''echo''" "c_id r \<noteq> []"
  shows "\<exists>ls. length ls = length (s_loops s) \<and> complete w s = catch_invalid (rpc_result (c_id r) w) (invalid_reply w)
      (put_c w (r\<lparr>c_keep_alive := True, c_json := json_load (c_body r) 0, c_name := c_path r\<rparr>) (s\<lparr>s_loops := ls\<rparr>))"
proof -
  let ?ls = "(s_loops s)[c_nloop r := (s_loops s ! c_nloop r)\<lparr>l_stat_request := l_stat_request (s_loops s ! c_nloop r) + 1\<rparr>]"
  have "header_completed w s = rpc_result (c_id r) w
      (put_c w (r\<lparr>c_keep_alive := True, c_json := json_load (c_body r) 0, c_name := c_path r\<rparr>) (s\<lparr>s_loops := ?ls\<rparr>))"
    using assms by (simp add: header_completed_def typed_request_def bnd_run thn_run runs put_c_def)
  then show ?thesis by (intro exI [of _ ?ls]) (simp add: complete_def catch_invalid_def)
qed

text \<open>A worker asks for work with an empty body: its name is the path.\<close>

definition plain_get :: "connect \<Rightarrow> bool" where
  "plain_get r = (\<not> c_worker_mode r \<and> \<not> c_noid r \<and> c_type r = Rt_get \<and> c_http_version r = 11 \<and> c_body r = [] \<and>
     c_path r \<noteq> [] \<and> c_path r \<noteq> ''echo'' \<and> CHR '','' \<notin> set (c_path r) \<and> CHR '' '' \<notin> set (c_path r))"

lemma add_worker_one:
  "CHR '','' \<notin> set name \<Longrightarrow> CHR '' '' \<notin> set name \<Longrightarrow> part @ name \<noteq> [] \<Longrightarrow>
   add_worker_loop n w part name = thn (add_one_worker n (part @ name) w) (ret ())"
  by (induction name arbitrary: part) auto

lemma scan_empty: "json_scan (json_load [] 0) = (Inr False, json_load [] 0)"
  by code_simp

lemma get_completed:
  assumes "s_conns s w = Some r" and "c_nloop r < length (s_loops s)" and "plain_get r"
  shows "\<exists>ls. length ls = length (s_loops s) \<and> complete w s =
    catch_invalid (thn (add_one_worker (c_nloop r) (c_path r) w) (ret ())) (invalid_reply w)
      (put_c w (r\<lparr>c_keep_alive := True, c_json := json_load [] 0, c_name := c_path r\<rparr>) (s\<lparr>s_loops := ls\<rparr>))"
proof -
  let ?ls = "(s_loops s)[c_nloop r := (s_loops s ! c_nloop r)\<lparr>l_stat_request := l_stat_request (s_loops s ! c_nloop r) + 1\<rparr>]"
  let ?r = "r\<lparr>c_keep_alive := True, c_json := json_load [] 0, c_name := c_path r\<rparr>"
  have each: "json_each add_member v (json_load [] 0) = (Inr (), v, json_load [] 0)" for v
    by (subst json_each.simps) (simp add: scan_empty)
  have same: "?r\<lparr>c_noid := False\<rparr> = ?r" using assms(3) by (cases r) (simp add: plain_get_def)
  have path: "add_worker (c_nloop r) (c_path r) w = thn (add_one_worker (c_nloop r) (c_path r) w) (ret ())"
    using assms(3) by (simp add: add_worker_def plain_get_def add_worker_one)
  have "header_completed w s = thn (add_one_worker (c_nloop r) (c_path r) w) (ret ()) (put_c w ?r (s\<lparr>s_loops := ?ls\<rparr>))"
    using assms by (simp add: header_completed_def typed_request_def rpc_add_def plain_get_def bnd_run thn_run runs each
        lift_res_def path [unfolded fun_eq_iff] put_c_def) (simp only: same)
  then show ?thesis by (intro exI [of _ ?ls]) (simp add: complete_def catch_invalid_def)
qed

lemma rpc_result_run:
  assumes "i \<noteq> []" "s_wait_response s i = Some c" "s_conns s c = Some rc" "1 < c_link rc" "\<not> is_closed rc"
    and "c_nloop rc < length (s_loops s)" "s_conns s w = Some rw" "c \<noteq> w" "c_nloop rw = c_need_loop rw"
    and "\<not> is_closed rw" "c_nloop rw < length (s_loops s)"
  shows "\<exists>s'. rpc_result i w s = (Inr (), s') \<and>
    s_conns s' = (s_conns s)(c \<mapsto> emitted (response (c_keep_alive rc) ''200 OK'' [(''Id'', i)] (c_body rw))
        (rc\<lparr>c_link := c_link rc - 1\<rparr>)\<lparr>c_status := Net\<rparr>,
      w \<mapsto> emitted (response (c_keep_alive rw) ''200 OK'' [] (code_body (s_jsonrpc2 s) 1)) rw\<lparr>c_status := Net\<rparr>) \<and>
    s_wait_response s' = (s_wait_response s)(i := None) \<and> length (s_loops s') = length (s_loops s)"
proof -
  let ?s0 = "s\<lparr>s_loops := (s_loops s)[c_nloop rw := (s_loops s ! c_nloop rw)\<lparr>l_stat_result := l_stat_result (s_loops s ! c_nloop rw) + 1\<rparr>]\<rparr>"
  have *: "s_wait_response ?s0 i = Some c" "s_conns ?s0 c = Some rc" "c_nloop rc < length (s_loops ?s0)" "s_conns ?s0 w = Some rw"
    using assms by simp_all
  note run = worker_result_run [OF *(1,2) assms(4,5) *(3,4) assms(8,9)]
  show ?thesis
    using assms(1-8,10,11) by (simp add: rpc_result_def bnd_run thn_run runs run fun_upd_twist)
qed

section \<open>Packets\<close>

text \<open>A connection that can read a new request.\<close>

definition reads_new :: "connect \<Rightarrow> bool" where
  "reads_new r = (c_status r = Net \<and> c_http_step r = Http_start \<and> c_buffer r = [] \<and> \<not> c_worker_mode r \<and>
     c_client r = None \<and> c_ping r = 0)"

text \<open>The connection of a client that has sent a request for a queue, and of a worker that has sent a result.\<close>

definition called :: "bytes \<Rightarrow> bytes \<Rightarrow> bytes \<Rightarrow> connect \<Rightarrow> connect" where
  "called path i body r = (has_read path [F_id i] body r)\<lparr>c_keep_alive := True, c_json := json_load body 0,
     c_no_response := False\<rparr>"

definition answered :: "bytes \<Rightarrow> bytes \<Rightarrow> bytes \<Rightarrow> connect \<Rightarrow> connect" where
  "answered path i body r = (has_read path [F_type Rt_result, F_id i] body r)\<lparr>c_keep_alive := True,
     c_json := json_load body 0, c_name := path\<rparr>"

lemma called_sel:
  "c_id (called path i body r) = i" "c_body (called path i body r) = body" "c_path (called path i body r) = path"
  "c_keep_alive (called path i body r)" "c_link (called path i body r) = c_link r"
  "c_nloop (called path i body r) = c_nloop r" "c_socket_status (called path i body r) = c_socket_status r"
  "c_required_worker (called path i body r) = []" "\<not> c_no_response (called path i body r)"
  "c_http_step (called path i body r) = Http_request_completed" "c_send_buffer (called path i body r) = c_send_buffer r"
  by (simp_all add: called_def has_read_def set_fields_def started_def)

lemma called_option: "c_header_option (called path i body r) = []"
  by (simp add: called_def has_read_def set_fields_def started_def)

lemma answered_sel:
  "c_body (answered path i body r) = body" "c_link (answered path i body r) = c_link r" "c_keep_alive (answered path i body r)"
  "c_nloop (answered path i body r) = c_nloop r" "c_need_loop (answered path i body r) = c_need_loop r"
  "c_socket_status (answered path i body r) = c_socket_status r"
  "c_http_step (answered path i body r) = Http_request_completed" "c_send_buffer (answered path i body r) = c_send_buffer r"
  by (simp_all add: answered_def has_read_def set_fields_def started_def)

lemma request_packet:
  assumes "s_conns s c = Some r" and "reads_new r" and "c_nloop r < length (s_loops s)"
    and "word verb" "word path" "path \<notin> set reserved" "one_line i" "length body < 2147483648"
  shows "\<exists>ls. length ls = length (s_loops s) \<and> on_recv c (request_text verb path [F_id i] body) s =
    thn (catch_invalid (thn (client_request (c_nloop r) path c) (ret ())) (invalid_reply c)) (recv_end c [])
      (put_c c (called path i body r) (s\<lparr>s_loops := ls\<rparr>))"
proof -
  let ?r = "has_read path [F_id i] body r" and ?s = "put_c c (has_read path [F_id i] body r) s"
  have read: "on_recv c (request_text verb path [F_id i] body) s = thn (complete c) (recv_end c []) ?s"
    by (rule request_read) (use assms in \<open>simp_all add: reads_new_def\<close>)
  have "plain_call ?r" "c_path ?r = path" "c_body ?r = body" "c_nloop ?r = c_nloop r"
    using assms(2,6) by (simp_all add: plain_call_def reads_new_def has_read_def set_fields_def started_def)
  with call_completed [of ?s c ?r] assms(3) obtain ls where "length ls = length (s_loops s)"
    "complete c ?s = catch_invalid (thn (client_request (c_nloop r) path c) (ret ())) (invalid_reply c)
      (put_c c (called path i body r) (s\<lparr>s_loops := ls\<rparr>))"
    by (auto simp: called_def put_c_def)
  with read show ?thesis by (auto simp: thn_run)
qed

lemma result_packet:
  assumes "s_conns s w = Some r" and "reads_new r" and "c_nloop r < length (s_loops s)"
    and "word verb" "word path" "path \<noteq> ''echo''" "one_line i" "length body < 2147483648"
  shows "\<exists>ls. length ls = length (s_loops s) \<and> on_recv w (request_text verb path [F_type Rt_result, F_id i] body) s =
    thn (catch_invalid (rpc_result i w) (invalid_reply w)) (recv_end w [])
      (put_c w (answered path i body r) (s\<lparr>s_loops := ls\<rparr>))"
proof -
  let ?r = "has_read path [F_type Rt_result, F_id i] body r" and ?s = "put_c w (has_read path [F_type Rt_result, F_id i] body r) s"
  have read: "on_recv w (request_text verb path [F_type Rt_result, F_id i] body) s = thn (complete w) (recv_end w []) ?s"
    by (rule request_read) (use assms in \<open>simp_all add: reads_new_def\<close>)
  have "\<not> c_worker_mode ?r" "\<not> c_noid ?r" "c_type ?r = Rt_result" "c_http_version ?r = 11" "c_path ?r = path" "c_id ?r = i"
    "c_body ?r = body" "c_nloop ?r = c_nloop r" "i \<noteq> []"
    using assms(2,7) by (simp_all add: reads_new_def has_read_def set_fields_def started_def one_line_def)
  with result_completed [of ?s w ?r] assms(3,6) obtain ls where "length ls = length (s_loops s)"
    "complete w ?s = catch_invalid (rpc_result i w) (invalid_reply w) (put_c w (answered path i body r) (s\<lparr>s_loops := ls\<rparr>))"
    by (auto simp: answered_def put_c_def)
  with read show ?thesis by (auto simp: thn_run)
qed

lemma packet_ends:
  assumes "s_conns s c = Some r" and "c_http_step r = Http_request_completed"
  shows "recv_end c [] s = (Inr (), put_c c (r\<lparr>c_http_step := Http_start\<rparr>) s)"
  using assms by (simp add: recv_end_def set_step_def bnd_run runs)

lemma call_ran:
  assumes line: "line_of s path q ql" "\<not> ql_locked ql" "c_nloop rc < length (ql_queue ql)"
    and head: "q_workers (ql_queue ql ! c_nloop rc) = w # ws"
    and client: "s_conns s c = Some rc" "reads_new rc" "c_nloop rc < length (s_loops s)"
    and worker: "s_conns s w = Some rw" "c \<noteq> w" "c_status rw = Worker_wait_job" "\<not> is_closed rw" "1 < c_link rw"
      "c_nloop rw < length (s_loops s)" "\<not> c_noid rw" "\<not> c_fail_on_disconnect rw"
    and request: "word verb" "word path" "path \<notin> set reserved" "one_line i" "length body < 2147483648" "s_wait_response s i = None"
  defines "text \<equiv> response (c_keep_alive rw) ''200 OK'' [(''Id'', i), (''Name'', path)] body"
  shows "\<exists>s1. on_recv c (request_text verb path [F_id i] body) s = (Inr (), s1) \<and>
    s_conns s1 = (s_conns s)(c \<mapsto> (called path i body rc)\<lparr>c_link := c_link rc + 1, c_status := Client_wait_result,
      c_http_step := Http_start\<rparr>, w \<mapsto> emitted text (rw\<lparr>c_link := c_link rw - 1, c_status := Busy\<rparr>)\<lparr>c_status := Net\<rparr>) \<and>
    s_wait_response s1 = (s_wait_response s)(i \<mapsto> c) \<and> length (s_loops s1) = length (s_loops s)"
proof -
  let ?rc = "called path i body rc"
  from request_packet [OF client request(1-5)] obtain ls where ls: "length ls = length (s_loops s)" and
    run: "on_recv c (request_text verb path [F_id i] body) s =
      thn (catch_invalid (thn (client_request (c_nloop rc) path c) (ret ())) (invalid_reply c)) (recv_end c [])
        (put_c c ?rc (s\<lparr>s_loops := ls\<rparr>))" by blast
  let ?s = "put_c c ?rc (s\<lparr>s_loops := ls\<rparr>)"
  have "line_of ?s path q ql" using line(1) by (simp add: line_of_def)
  note d = dispatch_run [OF this line(2,3) _ head, where c = c and rc = ?rc and rw = rw]
  obtain s1 where s1: "client_request (c_nloop rc) path c ?s = (Inr 0, s1)"
    "s_conns s1 = (s_conns ?s)(c \<mapsto> ?rc\<lparr>c_link := c_link rc + 1, c_status := Client_wait_result\<rparr>,
      w \<mapsto> emitted text (rw\<lparr>c_link := c_link rw - 1, c_status := Busy\<rparr>)\<lparr>c_status := Net\<rparr>)"
    "s_wait_response s1 = (s_wait_response s)(i \<mapsto> c)" "length (s_loops s1) = length (s_loops s)"
    using d client worker request(4,6) ls by (force simp: called_sel fit_def one_line_def text_def)
  have "s_conns s1 c = Some (?rc\<lparr>c_link := c_link rc + 1, c_status := Client_wait_result\<rparr>)" using s1(2) worker(2) by simp
  note e = packet_ends [OF this]
  show ?thesis
    unfolding run using s1 worker(2) e
    by (simp add: thn_run catch_invalid_def called_sel fun_upd_twist)
qed

lemma open_emitted:
  assumes "0 \<le> c_socket_status r"
  shows "0 \<le> c_socket_status (emitted x r)"
  using assms by (simp add: emitted_def)

lemma open_status: "0 \<le> c_socket_status r \<Longrightarrow> \<not> is_closed r"
  by (auto simp: is_closed_def)

text \<open>Both read their next request afterwards.\<close>

lemma called_reads:
  "reads_new rc \<Longrightarrow> reads_new (emitted x ((called path i body rc)\<lparr>c_status := st, c_http_step := Http_start, c_link := l\<rparr>)\<lparr>c_status := Net\<rparr>)"
  by (simp add: called_def has_read_def set_fields_def started_def reads_new_def emitted_def)

lemma answered_reads:
  "reads_new (rw\<lparr>c_status := Net\<rparr>) \<Longrightarrow>
   reads_new (emitted x (answered path i body (emitted y (rw\<lparr>c_link := l, c_status := st\<rparr>)\<lparr>c_status := Net\<rparr>))\<lparr>c_status := Net, c_http_step := Http_start\<rparr>)"
  by (simp add: answered_def has_read_def set_fields_def started_def reads_new_def emitted_def)

text \<open>The packet with a result.\<close>

lemma result_ran:
  assumes client: "s_conns s c = Some rc" "s_wait_response s i = Some c" "1 < c_link rc" "\<not> is_closed rc" "c_nloop rc < length (s_loops s)"
    and worker: "s_conns s w = Some rw" "reads_new rw" "c_nloop rw < length (s_loops s)" "c \<noteq> w" "c_nloop rw = c_need_loop rw"
      "0 \<le> c_socket_status rw"
    and result: "word verb" "word path" "path \<noteq> ''echo''" "one_line i" "length result < 2147483648"
  shows "\<exists>s'. on_recv w (request_text verb path [F_type Rt_result, F_id i] result) s = (Inr (), s') \<and>
    s_conns s' = (s_conns s)(c \<mapsto> emitted (response (c_keep_alive rc) ''200 OK'' [(''Id'', i)] result)
        (rc\<lparr>c_link := c_link rc - 1\<rparr>)\<lparr>c_status := Net\<rparr>,
      w \<mapsto> emitted (response True ''200 OK'' [] (code_body (s_jsonrpc2 s) 1)) (answered path i result rw)
        \<lparr>c_status := Net, c_http_step := Http_start\<rparr>) \<and>
    s_wait_response s' = (s_wait_response s)(i := None)"
proof -
  let ?a = "answered path i result rw"
  from result_packet [OF worker(1-3) result] obtain ls where ls: "length ls = length (s_loops s)" and
    run: "on_recv w (request_text verb path [F_type Rt_result, F_id i] result) s =
      thn (catch_invalid (rpc_result i w) (invalid_reply w)) (recv_end w []) (put_c w ?a (s\<lparr>s_loops := ls\<rparr>))" by auto
  let ?s = "put_c w ?a (s\<lparr>s_loops := ls\<rparr>)"
  let ?rw2 = "emitted (response True ''200 OK'' [] (code_body (s_jsonrpc2 s) 1)) ?a\<lparr>c_status := Net\<rparr>"
  have c2: "s_conns ?s c = Some rc" "s_wait_response ?s i = Some c" "s_conns ?s w = Some ?a" using client worker(4) by simp_all
  have "i \<noteq> []" using result(4) by (simp add: one_line_def)
  from rpc_result_run [OF this c2(2,1) client(3,4) _ c2(3) worker(4)] obtain s2 where
    s2: "rpc_result i w ?s = (Inr (), s2)" "s_conns s2 = (s_conns s)(c \<mapsto> emitted (response (c_keep_alive rc) ''200 OK''
        [(''Id'', i)] result) (rc\<lparr>c_link := c_link rc - 1\<rparr>)\<lparr>c_status := Net\<rparr>, w \<mapsto> ?rw2)"
      "s_wait_response s2 = (s_wait_response s)(i := None)"
    using client worker ls open_status [of ?a]
    by (auto simp: answered_sel fun_upd_twist)
  have "s_conns s2 w = Some ?rw2" using s2(2) by simp
  note e = packet_ends [OF this]
  show ?thesis
    unfolding run using s2 e by (simp add: thn_run catch_invalid_def answered_sel)
qed

section \<open>Property\<close>

text \<open>
  Claim C1. A call over HTTP. When a client sends a request for a queue, with an id, and a worker waits at the
  head of that queue, the worker is sent the body with the id and the name of the queue; when the worker
  sends a result under that id, the client is sent exactly this result under its id and the worker a
  confirmation. Afterwards nothing more was sent to either, both connections read their next request, the
  client is linked as before, the worker is no longer linked by the queue, and no id is registered that was
  not before.
\<close>

theorem http_call_roundtrip:
  assumes line: "line_of s path q ql" "\<not> ql_locked ql" "c_nloop rc < length (ql_queue ql)"
    and head: "q_workers (ql_queue ql ! c_nloop rc) = w # ws"
    and client: "s_conns s c = Some rc" "reads_new rc" "c_nloop rc < length (s_loops s)" "\<not> is_closed rc" "0 < c_link rc"
    and worker: "s_conns s w = Some rw" "c \<noteq> w" "c_status rw = Worker_wait_job" "0 \<le> c_socket_status rw" "1 < c_link rw"
      "c_nloop rw < length (s_loops s)" "\<not> c_noid rw" "\<not> c_fail_on_disconnect rw"
    and worker_reads: "reads_new (rw\<lparr>c_status := Net\<rparr>)" "c_nloop rw = c_need_loop rw"
    and request: "word verb" "word path" "path \<notin> set reserved" "one_line i" "length body < 2147483648" "s_wait_response s i = None"
    and result: "word verb'" "word path'" "path' \<noteq> ''echo''" "length result < 2147483648"
  shows "\<exists>s1 s2 rw1 rc2 rw2. on_recv c (request_text verb path [F_id i] body) s = (Inr (), s1) \<and>
    s_conns s1 w = Some rw1 \<and>
    c_send_buffer rw1 = c_send_buffer rw @ response (c_keep_alive rw) ''200 OK'' [(''Id'', i), (''Name'', path)] body \<and>
    on_recv w (request_text verb' path' [F_type Rt_result, F_id i] result) s1 = (Inr (), s2) \<and>
    s_conns s2 = (s_conns s)(c \<mapsto> rc2, w \<mapsto> rw2) \<and>
    c_send_buffer rc2 = c_send_buffer rc @ response True ''200 OK'' [(''Id'', i)] result \<and>
    c_send_buffer rw2 = c_send_buffer rw1 @ response True ''200 OK'' [] (code_body (s_jsonrpc2 s1) 1) \<and>
    reads_new rc2 \<and> reads_new rw2 \<and> c_link rc2 = c_link rc \<and> c_link rw2 = c_link rw - 1 \<and>
    s_wait_response s2 = s_wait_response s"
proof -
  let ?text = "response (c_keep_alive rw) ''200 OK'' [(''Id'', i), (''Name'', path)] body"
  let ?rw1 = "emitted ?text (rw\<lparr>c_link := c_link rw - 1, c_status := Busy\<rparr>)\<lparr>c_status := Net\<rparr>"
  let ?rc1 = "(called path i body rc)\<lparr>c_link := c_link rc + 1, c_status := Client_wait_result, c_http_step := Http_start\<rparr>"
  from call_ran [OF line head client(1-3) worker(1-3) open_status [OF worker(4)] worker(5-8) request] obtain s1 where
    s1: "on_recv c (request_text verb path [F_id i] body) s = (Inr (), s1)"
      "s_conns s1 = (s_conns s)(c \<mapsto> ?rc1, w \<mapsto> ?rw1)"
      "s_wait_response s1 = (s_wait_response s)(i \<mapsto> c)" "length (s_loops s1) = length (s_loops s)"
    by blast
  have 2: "s_conns s1 c = Some ?rc1" "s_conns s1 w = Some ?rw1" "s_wait_response s1 i = Some c" using s1 worker(2) by simp_all
  have "reads_new ?rw1" "0 \<le> c_socket_status ?rw1" using worker_reads(1) worker(4) by (simp_all add: reads_new_def emitted_def)
  from result_ran [OF 2(1,3) _ _ _ 2(2) this(1) _ worker(2) _ this(2) result(1-3) request(4) result(4)] obtain s2 where
    s2: "on_recv w (request_text verb' path' [F_type Rt_result, F_id i] result) s1 = (Inr (), s2)"
      "s_conns s2 = (s_conns s1)(c \<mapsto> emitted (response True ''200 OK'' [(''Id'', i)] result) (?rc1\<lparr>c_link := c_link rc\<rparr>)\<lparr>c_status := Net\<rparr>,
        w \<mapsto> emitted (response True ''200 OK'' [] (code_body (s_jsonrpc2 s1) 1)) (answered path' i result ?rw1)
          \<lparr>c_status := Net, c_http_step := Http_start\<rparr>)"
      "s_wait_response s2 = (s_wait_response s1)(i := None)"
    using client worker worker_reads(2) s1(4) by (auto simp: called_sel is_closed_def)
  let ?rc2 = "emitted (response True ''200 OK'' [(''Id'', i)] result) (?rc1\<lparr>c_link := c_link rc\<rparr>)\<lparr>c_status := Net\<rparr>"
  let ?rw2 = "emitted (response True ''200 OK'' [] (code_body (s_jsonrpc2 s1) 1)) (answered path' i result ?rw1)
          \<lparr>c_status := Net, c_http_step := Http_start\<rparr>"
  have "s_conns s2 = (s_conns s)(c \<mapsto> ?rc2, w \<mapsto> ?rw2)" unfolding s2(2) s1(2) using worker(2) by (auto simp: fun_upd_twist)
  moreover have "s_wait_response s2 = s_wait_response s" unfolding s2(3) s1(3) using request(6) by (simp add: fun_upd_idem)
  moreover have "reads_new ?rc2" "reads_new ?rw2" using client(2) worker_reads(1) by (simp_all add: called_reads answered_reads)
  ultimately show ?thesis
    using s1(1) 2(2) s2(1)
    by - (rule exI [of _ s1], rule exI [of _ s2], rule exI [of _ ?rw1], rule exI [of _ ?rc2], rule exI [of _ ?rw2],
      simp add: called_sel answered_sel)
qed

theorem http_call_roundtrip_witness:
  "\<exists>m s1 s2 rc2. on_recv 1 (request_text ''POST'' ''job'' [F_id ''15''] ''hi'') (demo m (demo_line [2] [])
       [1 \<mapsto> demo_conn 5, 2 \<mapsto> demo_conn 6\<lparr>c_status := Worker_wait_job\<rparr>]) = (Inr (), s1) \<and>
     on_recv 2 (request_text ''POST'' ''rpc/result'' [F_type Rt_result, F_id ''15''] ''pong'') s1 = (Inr (), s2) \<and>
     s_conns s2 1 = Some rc2 \<and> c_send_buffer rc2 = response True ''200 OK'' [(''Id'', ''15'')] ''pong''"
proof -
  obtain m where m: "mapper_find m ''job'' = Inr (Suc 0)" using demo_mapper by blast
  let ?cs = "[1 \<mapsto> demo_conn 5, 2 \<mapsto> demo_conn 6\<lparr>c_status := Worker_wait_job\<rparr>]"
  from http_call_roundtrip [OF demo_line_of [OF m, of "demo_line [2] []" ?cs], of "demo_conn 5" 2 "[]" 1
      "demo_conn 6\<lparr>c_status := Worker_wait_job\<rparr>" "''POST''" "''15''" "''hi''" "''POST''" "''rpc/result''" "''pong''"]
  obtain s1 s2 rw1 rc2 rw2 where
    "on_recv 1 (request_text ''POST'' ''job'' [F_id ''15''] ''hi'') (demo m (demo_line [2] []) ?cs) = (Inr (), s1)"
    "on_recv 2 (request_text ''POST'' ''rpc/result'' [F_type Rt_result, F_id ''15''] ''pong'') s1 = (Inr (), s2)"
    "s_conns s2 = ?cs(1 \<mapsto> rc2, 2 \<mapsto> rw2)" "c_send_buffer rc2 = response True ''200 OK'' [(''Id'', ''15'')] ''pong''"
    by (auto simp: reads_new_def is_closed_def demo_conn_def new_connect_def word_def one_line_def strippable_def reserved_def)
  then show ?thesis by (intro exI [of _ m] exI [of _ s1] exI [of _ s2] exI [of _ rc2]) simp
qed

section \<open>A worker that comes later\<close>

text \<open>The connection of a worker that asked for work, giving its own id.\<close>

definition asked :: "bytes \<Rightarrow> bytes \<Rightarrow> connect \<Rightarrow> connect" where
  "asked path j r = (has_read path [F_type Rt_get, F_set_id j] [] r)\<lparr>c_keep_alive := True, c_json := json_load [] 0,
     c_name := path\<rparr>"

lemma asked_sel:
  "c_connection_id (asked path j r) = j" "c_keep_alive (asked path j r)" "c_link (asked path j r) = c_link r"
  "c_nloop (asked path j r) = c_nloop r" "c_need_loop (asked path j r) = c_need_loop r" "c_info (asked path j r) = []"
  "c_socket_status (asked path j r) = c_socket_status r" "c_worker_item (asked path j r) = c_worker_item r"
  "c_direct_message (asked path j r) = c_direct_message r" "c_worker_mode (asked path j r) = c_worker_mode r"
  "\<not> c_noid (asked path j r)" "\<not> c_fail_on_disconnect (asked path j r)"
  "c_http_step (asked path j r) = Http_request_completed" "c_send_buffer (asked path j r) = c_send_buffer r"
  by (simp_all add: asked_def has_read_def set_fields_def started_def)

lemma asked_reads:
  "reads_new rw \<Longrightarrow> reads_new (emitted x (asked path j rw)\<lparr>c_status := Net, c_http_step := Http_start\<rparr>)"
  by (simp add: asked_def has_read_def set_fields_def started_def reads_new_def emitted_def)

lemma get_packet:
  assumes "s_conns s w = Some r" and "reads_new r" and "c_nloop r < length (s_loops s)"
    and "word verb" "word path" "path \<noteq> ''echo''" "CHR '','' \<notin> set path" "one_line j"
  shows "\<exists>ls. length ls = length (s_loops s) \<and> on_recv w (request_text verb path [F_type Rt_get, F_set_id j] []) s =
    thn (catch_invalid (thn (add_one_worker (c_nloop r) path w) (ret ())) (invalid_reply w)) (recv_end w [])
      (put_c w (asked path j r) (s\<lparr>s_loops := ls\<rparr>))"
proof -
  let ?r = "has_read path [F_type Rt_get, F_set_id j] [] r" and ?s = "put_c w (has_read path [F_type Rt_get, F_set_id j] [] r) s"
  have read: "on_recv w (request_text verb path [F_type Rt_get, F_set_id j] []) s = thn (complete w) (recv_end w []) ?s"
    by (rule request_read) (use assms in \<open>simp_all add: reads_new_def\<close>)
  have "plain_get ?r" "c_path ?r = path" "c_nloop ?r = c_nloop r"
    using assms(2,5-7) by (simp_all add: plain_get_def reads_new_def has_read_def set_fields_def started_def word_def)
  with get_completed [of ?s w ?r] assms(3) obtain ls where "length ls = length (s_loops s)"
    "complete w ?s = catch_invalid (thn (add_one_worker (c_nloop r) path w) (ret ())) (invalid_reply w)
      (put_c w (asked path j r) (s\<lparr>s_loops := ls\<rparr>))"
    by (auto simp: asked_def put_c_def)
  with read show ?thesis by (auto simp: thn_run)
qed

text \<open>The packet of the client, when no worker waits.\<close>

definition waiting_client :: "bytes \<Rightarrow> bytes \<Rightarrow> bytes \<Rightarrow> connect \<Rightarrow> connect" where
  "waiting_client path i body rc = (called path i body rc)\<lparr>c_required_worker := [], c_name := path,
     c_link := c_link rc + 1, c_status := Client_wait_result, c_http_step := Http_start\<rparr>"

lemma call_queued:
  assumes line: "line_of s path q ql" "\<not> ql_locked ql" "c_nloop rc < length (ql_queue ql)" "c_nloop rc < length (s_loops s)"
    and free: "length (ql_queue ql) = s_threads s" "\<forall>x \<in> set (ql_queue ql). q_workers x = []"
    and client: "s_conns s c = Some rc" "reads_new rc"
    and request: "word verb" "word path" "path \<notin> set reserved" "one_line i" "length body < 2147483648"
  shows "\<exists>s1 ql1. on_recv c (request_text verb path [F_id i] body) s = (Inr (), s1) \<and> line_of s1 path q ql1 \<and>
    ql1 = with_message (c_nloop rc) (client_message (called path i body rc) c) ql \<and>
    s_conns s1 = (s_conns s)(c \<mapsto> waiting_client path i body rc) \<and>
    s_wait_response s1 = s_wait_response s \<and> length (s_loops s1) = length (s_loops s)"
proof -
  let ?rc = "called path i body rc"
  from request_packet [OF client line(4) request] obtain ls where ls: "length ls = length (s_loops s)" and
    run: "on_recv c (request_text verb path [F_id i] body) s =
      thn (catch_invalid (thn (client_request (c_nloop rc) path c) (ret ())) (invalid_reply c)) (recv_end c [])
        (put_c c ?rc (s\<lparr>s_loops := ls\<rparr>))" by blast
  let ?s = "put_c c ?rc (s\<lparr>s_loops := ls\<rparr>)"
  have "line_of ?s path q ql" using line(1) by (simp add: line_of_def)
  from queued_run [OF this line(2,3), of c ?rc] obtain s1 where s1: "client_request (c_nloop rc) path c ?s = (Inr 0, s1)"
    "s_queue_list s1 = (s_queue_list s)[q := Some (with_message (c_nloop rc) (client_message ?rc c) ql)]"
    "s_conns s1 = (s_conns s)(c \<mapsto> ?rc\<lparr>c_required_worker := [], c_name := path, c_link := c_link rc + 1, c_status := Client_wait_result\<rparr>)"
    "s_wait_response s1 = s_wait_response s" "s_mapper s1 = s_mapper s" "length (s_loops s1) = length (s_loops s)"
    using line(4) free ls by (auto simp: called_sel called_option)
  have "s_conns s1 c = Some (?rc\<lparr>c_required_worker := [], c_name := path, c_link := c_link rc + 1, c_status := Client_wait_result\<rparr>)"
    using s1(3) by simp
  note e = packet_ends [OF this]
  show ?thesis
    unfolding run using s1 e line(1)
    by (simp add: thn_run catch_invalid_def called_sel waiting_client_def line_of_def has_ql_def)
qed

lemma get_ran:
  assumes line: "line_of s path q ql" "\<not> ql_locked ql" "c_nloop rw < length (ql_queue ql)"
    and head: "q_clients (ql_queue ql ! c_nloop rw) = msg # ms" "msg_conn msg = Some c" "msg_required msg = []"
    and client: "s_conns s c = Some rc" "c \<noteq> w" "\<not> is_closed rc" "c_status rc = Client_wait_result"
      "c_id rc \<noteq> []" "s_wait_response s (c_id rc) = None" "0 < c_link rc"
    and worker: "s_conns s w = Some rw" "reads_new rw" "c_nloop rw < length (s_loops s)" "0 \<le> c_socket_status rw"
      "c_worker_item rw = None" "c_direct_message rw = []"
    and request: "word verb" "word path" "path \<noteq> ''echo''" "CHR '','' \<notin> set path" "hd path \<noteq> CHR ''/''" "one_line j"
  defines "text \<equiv> response True ''200 OK'' [(''Id'', c_id rc), (''Name'', c_name rc)] (c_body rc)"
  shows "\<exists>s'. on_recv w (request_text verb path [F_type Rt_get, F_set_id j] []) s = (Inr (), s') \<and>
    s_conns s' = (s_conns s)(c \<mapsto> rc\<lparr>c_status := Busy\<rparr>,
      w \<mapsto> emitted text (asked path j rw)\<lparr>c_status := Net, c_http_step := Http_start\<rparr>) \<and>
    s_wait_response s' = (s_wait_response s)(c_id rc \<mapsto> c) \<and> length (s_loops s') = length (s_loops s) \<and>
    s_queue_list s' = (s_queue_list s)[q := Some (ql\<lparr>ql_last_worker := uint (s_now s),
      ql_queue := (ql_queue ql)[c_nloop rw := (ql_queue ql ! c_nloop rw)\<lparr>q_clients := ms\<rparr>]\<rparr>)]"
proof -
  let ?a = "asked path j rw"
  from get_packet [OF worker(1-3) request(1-4) request(6)] obtain ls where ls: "length ls = length (s_loops s)" and
    run: "on_recv w (request_text verb path [F_type Rt_get, F_set_id j] []) s =
      thn (catch_invalid (thn (add_one_worker (c_nloop rw) path w) (ret ())) (invalid_reply w)) (recv_end w [])
        (put_c w ?a (s\<lparr>s_loops := ls\<rparr>))" by blast
  let ?s = "put_c w ?a (s\<lparr>s_loops := ls\<rparr>)"
  have "line_of ?s path q ql" using line(1) by (simp add: line_of_def)
  note run2 = add_worker_run [OF this line(2,3), where w = w and rw = ?a and msg = msg and ms = ms and c = c and rc = rc]
  have "\<not> is_closed ?a" using open_status [of ?a] worker(4) by (simp add: asked_sel)
  then obtain s1 where s1: "add_one_worker (c_nloop rw) path w ?s = (Inr 1, s1)"
    "s_conns s1 = (s_conns s)(c \<mapsto> rc\<lparr>c_status := Busy\<rparr>, w \<mapsto> emitted text ?a\<lparr>c_status := Net\<rparr>)"
    "s_wait_response s1 = (s_wait_response s)(c_id rc \<mapsto> c)" "length (s_loops s1) = length (s_loops s)"
    "s_queue_list s1 = (s_queue_list s)[q := Some (ql\<lparr>ql_last_worker := uint (s_now s),
      ql_queue := (ql_queue ql)[c_nloop rw := (ql_queue ql ! c_nloop rw)\<lparr>q_clients := ms\<rparr>]\<rparr>)]"
    using run2 head client worker request ls
    by (auto simp: asked_sel text_def one_line_def reads_new_def put_c_def fun_upd_twist)
  have "s_conns s1 w = Some (emitted text ?a\<lparr>c_status := Net\<rparr>)" using s1(2) by simp
  note e = packet_ends [OF this]
  show ?thesis
    unfolding run using s1 e by (simp add: thn_run catch_invalid_def asked_sel)
qed

lemma waiting_sel:
  "c_id (waiting_client path i body r) = i" "c_body (waiting_client path i body r) = body"
  "c_name (waiting_client path i body r) = path" "c_keep_alive (waiting_client path i body r)"
  "c_link (waiting_client path i body r) = c_link r + 1" "c_nloop (waiting_client path i body r) = c_nloop r"
  "c_socket_status (waiting_client path i body r) = c_socket_status r"
  "c_status (waiting_client path i body r) = Client_wait_result"
  "c_send_buffer (waiting_client path i body r) = c_send_buffer r"
  by (simp_all add: waiting_client_def called_sel)

lemma waiting_reads:
  "reads_new rc \<Longrightarrow> reads_new (emitted x ((waiting_client path i body rc)\<lparr>c_status := st, c_link := l\<rparr>)\<lparr>c_status := Net\<rparr>)"
  by (simp add: waiting_client_def called_def has_read_def set_fields_def started_def reads_new_def emitted_def)

lemma answered_asked_reads:
  "reads_new rw \<Longrightarrow> reads_new (emitted x (answered path i body (emitted y (asked path' j rw)\<lparr>c_status := Net, c_http_step := Http_start\<rparr>))
     \<lparr>c_status := Net, c_http_step := Http_start\<rparr>)"
  by (simp add: asked_def answered_def has_read_def set_fields_def started_def reads_new_def emitted_def)

text \<open>
  Claim C2. A call over HTTP whose worker comes later, in three packets. A request for a queue without requests
  and workers is kept and its client is sent nothing; a worker of the same loop that asks this queue for work
  is sent the body with the id and the name of the queue, and the queue is empty again; when it sends a result
  under that id, the client is sent exactly this result. Afterwards both connections read their next request
  with as many links as before, and no id is registered that was not before.
\<close>

theorem http_late_worker:
  assumes line: "line_of s path q ql" "\<not> ql_locked ql" "c_nloop rc < length (ql_queue ql)" "c_nloop rc < length (s_loops s)"
    and free: "length (ql_queue ql) = s_threads s" "\<forall>x \<in> set (ql_queue ql). q_workers x = []"
      "q_clients (ql_queue ql ! c_nloop rc) = []"
    and client: "s_conns s c = Some rc" "reads_new rc" "0 \<le> c_socket_status rc" "0 < c_link rc"
    and worker: "s_conns s w = Some rw" "c \<noteq> w" "reads_new rw" "0 \<le> c_socket_status rw" "c_worker_item rw = None"
      "c_direct_message rw = []" "c_nloop rw = c_nloop rc" "c_need_loop rw = c_nloop rc"
    and request: "word verb" "word path" "path \<notin> set reserved" "one_line i" "length body < 2147483648" "s_wait_response s i = None"
    and get: "word verb1" "CHR '','' \<notin> set path" "hd path \<noteq> CHR ''/''" "one_line j"
    and result: "word verb2" "word path2" "path2 \<noteq> ''echo''" "length result < 2147483648"
  shows "\<exists>s1 s2 s3 ql2 rw2 rc3 rw3. on_recv c (request_text verb path [F_id i] body) s = (Inr (), s1) \<and>
    map_option c_send_buffer (s_conns s1 c) = Some (c_send_buffer rc) \<and>
    on_recv w (request_text verb1 path [F_type Rt_get, F_set_id j] []) s1 = (Inr (), s2) \<and> s_conns s2 w = Some rw2 \<and>
    c_send_buffer rw2 = c_send_buffer rw @ response True ''200 OK'' [(''Id'', i), (''Name'', path)] body \<and>
    has_ql q ql2 s2 \<and> q_clients (ql_queue ql2 ! c_nloop rc) = [] \<and>
    on_recv w (request_text verb2 path2 [F_type Rt_result, F_id i] result) s2 = (Inr (), s3) \<and>
    s_conns s3 = (s_conns s)(c \<mapsto> rc3, w \<mapsto> rw3) \<and>
    c_send_buffer rc3 = c_send_buffer rc @ response True ''200 OK'' [(''Id'', i)] result \<and>
    c_send_buffer rw3 = c_send_buffer rw2 @ response True ''200 OK'' [] (code_body (s_jsonrpc2 s2) 1) \<and>
    reads_new rc3 \<and> reads_new rw3 \<and> c_link rc3 = c_link rc \<and> c_link rw3 = c_link rw \<and>
    s_wait_response s3 = s_wait_response s"
proof -
  let ?n = "c_nloop rc" and ?rc1 = "waiting_client path i body rc"
  let ?text = "response True ''200 OK'' [(''Id'', i), (''Name'', path)] body"
  let ?rw2 = "emitted ?text (asked path j rw)\<lparr>c_status := Net, c_http_step := Http_start\<rparr>"
  let ?rc2 = "?rc1\<lparr>c_status := Busy\<rparr>" and ?msg = "client_message (called path i body rc) c"
  from call_queued [OF line free(1,2) client(1,2) request(1-5)] obtain s1 ql1 where
    s1: "on_recv c (request_text verb path [F_id i] body) s = (Inr (), s1)" "line_of s1 path q ql1"
      "ql1 = with_message ?n ?msg ql" "s_conns s1 = (s_conns s)(c \<mapsto> ?rc1)" "s_wait_response s1 = s_wait_response s"
      "length (s_loops s1) = length (s_loops s)" by blast
  have ql1: "\<not> ql_locked ql1" "c_nloop rw < length (ql_queue ql1)" "q_clients (ql_queue ql1 ! c_nloop rw) = [?msg]"
    using s1(3) line free(3) worker(7) by (simp_all add: with_message_def insert_message_def)
  have c1: "s_conns s1 c = Some ?rc1" "s_conns s1 w = Some rw" using s1(4) worker(1,2) by simp_all
  have msg: "msg_conn ?msg = Some c" "msg_required ?msg = []" by (simp_all add: client_message_def called_sel)
  have path: "path \<noteq> ''echo''" using request(3) by (auto simp: reserved_def)
  have len: "c_nloop rw < length (s_loops s1)" using line(4) worker(7) s1(6) by simp
  have open1: "\<not> is_closed ?rc1" "\<not> is_closed ?rc2" using client(3) open_status [of ?rc1] open_status [of ?rc2] by (simp_all add: waiting_sel)
  have idle: "c_id ?rc1 \<noteq> []" "s_wait_response s1 (c_id ?rc1) = None" "0 < c_link ?rc1"
    using request(4,6) s1(5) client(4) by (simp_all add: waiting_sel one_line_def)
  from get_ran [OF s1(2) ql1 msg c1(1) worker(2) open1(1) waiting_sel(8) idle c1(2) worker(3) len worker(4-6) get(1) request(2) path get(2-4)]
  obtain s2 where s2: "on_recv w (request_text verb1 path [F_type Rt_get, F_set_id j] []) s1 = (Inr (), s2)"
      "s_conns s2 = (s_conns s)(c \<mapsto> ?rc2, w \<mapsto> ?rw2)"
      "s_wait_response s2 = (s_wait_response s)(i \<mapsto> c)" "length (s_loops s2) = length (s_loops s)"
      "s_queue_list s2 = (s_queue_list s1)[q := Some (ql1\<lparr>ql_last_worker := uint (s_now s1),
        ql_queue := (ql_queue ql1)[c_nloop rw := (ql_queue ql1 ! c_nloop rw)\<lparr>q_clients := []\<rparr>]\<rparr>)]"
    using s1(4-6) by (auto simp: waiting_sel)
  let ?ql2 = "ql1\<lparr>ql_last_worker := uint (s_now s1),
        ql_queue := (ql_queue ql1)[c_nloop rw := (ql_queue ql1 ! c_nloop rw)\<lparr>q_clients := []\<rparr>]\<rparr>"
  have ql2: "has_ql q ?ql2 s2" "q_clients (ql_queue ?ql2 ! ?n) = []"
    using s1(2) s2(5) ql1(2) worker(7) by (simp_all add: line_of_def has_ql_def)
  have c2: "s_conns s2 c = Some ?rc2" "s_wait_response s2 i = Some c" "s_conns s2 w = Some ?rw2" using s2 worker(2) by simp_all
  have rw2: "reads_new ?rw2" "0 \<le> c_socket_status ?rw2" "c_nloop ?rw2 = ?n" "c_need_loop ?rw2 = ?n"
    using asked_reads [OF worker(3)] open_emitted [of "asked path j rw"] worker(4,7,8) by (simp_all add: asked_sel)
  from result_ran [OF c2(1,2) _ open1(2) _ c2(3) rw2(1) _ worker(2) _ rw2(2) result(1-3) request(4) result(4)] obtain s3 where
    s3: "on_recv w (request_text verb2 path2 [F_type Rt_result, F_id i] result) s2 = (Inr (), s3)"
      "s_conns s3 = (s_conns s2)(c \<mapsto> emitted (response True ''200 OK'' [(''Id'', i)] result) (?rc2\<lparr>c_link := c_link rc\<rparr>)\<lparr>c_status := Net\<rparr>,
        w \<mapsto> emitted (response True ''200 OK'' [] (code_body (s_jsonrpc2 s2) 1)) (answered path2 i result ?rw2)
          \<lparr>c_status := Net, c_http_step := Http_start\<rparr>)"
      "s_wait_response s3 = (s_wait_response s2)(i := None)"
    using client(4) line(4) s2(4) rw2(3,4) by (auto simp: waiting_sel)
  let ?rc3 = "emitted (response True ''200 OK'' [(''Id'', i)] result) (?rc2\<lparr>c_link := c_link rc\<rparr>)\<lparr>c_status := Net\<rparr>"
  let ?rw3 = "emitted (response True ''200 OK'' [] (code_body (s_jsonrpc2 s2) 1)) (answered path2 i result ?rw2)
          \<lparr>c_status := Net, c_http_step := Http_start\<rparr>"
  have conns: "s_conns s3 = (s_conns s)(c \<mapsto> ?rc3, w \<mapsto> ?rw3)" unfolding s3(2) s2(2) using worker(2) by (auto simp: fun_upd_twist)
  have wait: "s_wait_response s3 = s_wait_response s" unfolding s3(3) s2(3) using request(6) by (simp add: fun_upd_idem)
  have reads: "reads_new ?rc3" "reads_new ?rw3" by (rule waiting_reads [OF client(2)], rule answered_asked_reads [OF worker(3)])
  show ?thesis
    by (rule exI [of _ s1], rule exI [of _ s2], rule exI [of _ s3], rule exI [of _ ?ql2], rule exI [of _ ?rw2],
        rule exI [of _ ?rc3], rule exI [of _ ?rw3])
      (intro conjI s1(1) s2(1) s3(1) c2(3) ql2 conns wait reads,
        simp_all add: c1 waiting_sel answered_sel asked_sel)
qed

theorem http_late_worker_witness:
  "\<exists>m s1 s2 s3 rc3. on_recv 1 (request_text ''POST'' ''job'' [F_id ''15''] ''hi'') (demo m (demo_line [] [])
       [1 \<mapsto> demo_conn 5, 2 \<mapsto> demo_conn 6]) = (Inr (), s1) \<and>
     on_recv 2 (request_text ''GET'' ''job'' [F_type Rt_get, F_set_id ''w1''] []) s1 = (Inr (), s2) \<and>
     on_recv 2 (request_text ''POST'' ''rpc/result'' [F_type Rt_result, F_id ''15''] ''pong'') s2 = (Inr (), s3) \<and>
     s_conns s3 1 = Some rc3 \<and> c_send_buffer rc3 = response True ''200 OK'' [(''Id'', ''15'')] ''pong''"
proof -
  obtain m where m: "mapper_find m ''job'' = Inr (Suc 0)" using demo_mapper by blast
  let ?cs = "[1 \<mapsto> demo_conn 5, 2 \<mapsto> demo_conn 6]"
  from http_late_worker [OF demo_line_of [OF m, of "demo_line [] []" ?cs], of "demo_conn 5" 1 2 "demo_conn 6"
      "''POST''" "''15''" "''hi''" "''GET''" "''w1''" "''POST''" "''rpc/result''" "''pong''"]
  obtain s1 s2 s3 rw2 rc3 rw3 where
    "on_recv 1 (request_text ''POST'' ''job'' [F_id ''15''] ''hi'') (demo m (demo_line [] []) ?cs) = (Inr (), s1)"
    "on_recv 2 (request_text ''GET'' ''job'' [F_type Rt_get, F_set_id ''w1''] []) s1 = (Inr (), s2)"
    "on_recv 2 (request_text ''POST'' ''rpc/result'' [F_type Rt_result, F_id ''15''] ''pong'') s2 = (Inr (), s3)"
    "s_conns s3 = ?cs(1 \<mapsto> rc3, 2 \<mapsto> rw3)" "c_send_buffer rc3 = response True ''200 OK'' [(''Id'', ''15'')] ''pong''"
    by (auto simp: reads_new_def demo_conn_def new_connect_def word_def one_line_def strippable_def reserved_def)
  then show ?thesis
    by - (rule exI [of _ m], rule exI [of _ s1], rule exI [of _ s2], rule exI [of _ s3], rule exI [of _ rc3], simp)
qed

end
