(* ===== verification/Http_Worker_Mode.thy ===== *)
theory Http_Worker_Mode imports Http_Calls begin

text \<open>
  A worker that keeps its connection for requests and results: \<^verbatim>\<open>worker_mode\<close>, without ids. It is sent a request as
  a response, its next request is the result, and it waits for work again, in the queue it named when it started.
\<close>

section \<open>A worker in this mode\<close>

definition keeps_mode :: "bytes \<Rightarrow> connect \<Rightarrow> bool" where
  "keeps_mode name r = (c_worker_mode r \<and> c_noid r \<and> c_fail_on_disconnect r \<and> c_worker_item r \<noteq> None \<and>
     c_connection_id r \<noteq> [] \<and> c_direct_message r = [] \<and> c_name r = name \<and> c_ping r = 0 \<and>
     c_nloop r = c_need_loop r \<and> 0 \<le> c_socket_status r)"

definition mode_worker :: "bytes \<Rightarrow> connect \<Rightarrow> bool" where
  "mode_worker name r = (keeps_mode name r \<and> c_client r = None \<and> c_http_step r = Http_start \<and> c_buffer r = [])"

lemma keeps_modeD:
  "keeps_mode name r \<Longrightarrow> c_worker_mode r \<and> c_noid r \<and> c_fail_on_disconnect r \<and> c_worker_item r \<noteq> None \<and>
     c_connection_id r \<noteq> [] \<and> c_direct_message r = [] \<and> c_name r = name \<and> c_ping r = 0 \<and>
     c_nloop r = c_need_loop r \<and> 0 \<le> c_socket_status r \<and> \<not> is_closed r"
  by (auto simp: keeps_mode_def is_closed_def)

text \<open>A name \<open>add_worker\<close> takes as one.\<close>

definition single_name :: "bytes \<Rightarrow> bool" where
  "single_name name = (name \<noteq> [] \<and> hd name \<noteq> CHR ''/'' \<and> CHR '','' \<notin> set name \<and> CHR '' '' \<notin> set name)"

section \<open>The request on its way to the worker\<close>

lemma noid_dispatch_run:
  assumes line: "line_of s name q ql" "\<not> ql_locked ql" "n < length (ql_queue ql)" "n < length (s_loops s)"
    and head: "q_workers (ql_queue ql ! n) = w # ws"
    and conns: "s_conns s c = Some rc" "s_conns s w = Some rw" "c \<noteq> w" "fit rc rw" "1 < c_link rw"
      "c_nloop rw < length (s_loops s)"
    and kind: "\<not> c_no_response rc" "c_noid rw"
  defines "text \<equiv> response (c_keep_alive rw) ''200 OK'' [(''Name'', name)] (c_body rc)"
  shows "\<exists>s'. client_request n name c s = (Inr 0, s') \<and>
    s_conns s' = (s_conns s)(c \<mapsto> rc\<lparr>c_link := c_link rc + 1, c_status := Client_wait_result\<rparr>,
      w \<mapsto> emitted text (rw\<lparr>c_link := c_link rw - 1, c_client := Some c, c_status := Worker_wait_result\<rparr>)) \<and>
    s_wait_response s' = s_wait_response s \<and> steady s s' \<and>
    s_queue_list s' = (s_queue_list s)[q := Some (took n ws ql)]"
proof -
  let ?s2 = "head_taken n q ws ql w rw s" and ?rw = "rw\<lparr>c_link := c_link rw - 1, c_status := Busy\<rparr>"
  have c2: "s_conns ?s2 c = Some rc" "s_conns ?s2 w = Some ?rw" "\<not> is_closed ?rw" "c_nloop ?rw < length (s_loops ?s2)" "c_noid ?rw"
    using conns kind by (auto simp: fit_def is_closed_def)
  from hand_over_noid_run [OF c2(1,2) conns(3) c2(3,4) kind(1) c2(5), of q name] obtain s3 where
    s3: "hand_over q name c w ?s2 = (Inr 0, s3)" "s_queue_list s3 = s_queue_list ?s2"
    "s_conns s3 = (s_conns s)(c \<mapsto> rc\<lparr>c_link := c_link rc + 1, c_status := Client_wait_result\<rparr>,
      w \<mapsto> emitted text (rw\<lparr>c_link := c_link rw - 1, c_client := Some c, c_status := Worker_wait_result\<rparr>))"
    "s_wait_response s3 = s_wait_response s" "steady ?s2 s3"
    using conns(3) by (auto simp: text_def fun_upd_twist)
  from head_run [OF line head conns(1-5) s3(1,2)] show ?thesis using s3(2-5) by (simp add: steady_def)
qed

section \<open>The result on its way back\<close>

lemma buffered_other: "d \<noteq> c \<Longrightarrow> s_conns (buffered c x s) d = s_conns s d"
  by (simp add: buffered_def split: option.splits)

lemma result_noid_run:
  assumes "n < length (s_loops s)" "s_conns s w = Some rw" "c_client rw = Some c" "c_worker_mode rw" "c \<noteq> w"
    and "s_conns s c = Some rc" "1 < c_link rc" "\<not> is_closed rc" "c_nloop rc < length (s_loops s)" "c_nloop rw = c_need_loop rw"
  defines "text \<equiv> response (c_keep_alive rc) ''200 OK'' [] (c_body rw)"
  shows "\<exists>s'. worker_result_noid n w s = (Inr 0, s') \<and> s_queue_list s' = s_queue_list s \<and>
    s_conns s' = (s_conns s)(c \<mapsto> emitted text (rc\<lparr>c_link := c_link rc - 1, c_status := Net\<rparr>), w \<mapsto> rw\<lparr>c_client := None\<rparr>) \<and>
    s_wait_response s' = s_wait_response s \<and> steady s s'"
  using assms(1-10)
  by (simp add: worker_result_noid_def buffered_other bnd_run thn_run runs response_def buffered_conns is_closed_def fun_upd_twist text_def steady_def)

section \<open>Waiting again\<close>

text \<open>Nobody else in the queue of the worker has gone or is the worker itself, so nobody is dropped.\<close>

definition nobody_stale :: "nat \<Rightarrow> nat list \<Rightarrow> server \<Rightarrow> bool" where
  "nobody_stale w ws s = (\<forall>v \<in> set ws. v \<noteq> w \<and> (\<exists>r. s_conns s v = Some r \<and> \<not> is_closed r))"

lemma drop_stale_none: "nobody_stale w ws s \<Longrightarrow> drop_stale w q r kept ws s = (Inr (), s)"
proof (induction ws arbitrary: kept)
  case (Cons v ws)
  then have "nobody_stale w ws s" by (simp add: nobody_stale_def)
  with Cons show ?case by (auto simp: nobody_stale_def bnd_run runs)
qed simp

lemma no_message_run:
  "has_ql q ql s \<Longrightarrow> \<forall>r \<in> set rs. r < length (ql_queue ql) \<and> q_clients (ql_queue ql ! r) = [] \<Longrightarrow>
   find_message w q rs s = (Inr None, s)"
  by (induction rs) (auto simp: bnd_run runs)

definition joined :: "nat \<Rightarrow> nat \<Rightarrow> queue_line \<Rightarrow> queue_line" where
  "joined n w ql = ql\<lparr>ql_queue := (ql_queue ql)[n := (ql_queue ql ! n)\<lparr>q_workers := q_workers (ql_queue ql ! n) @ [w]\<rparr>]\<rparr>"

lemma wait_job_run:
  assumes "has_ql q ql s" "n < length (ql_queue ql)" "nobody_stale w (q_workers (ql_queue ql ! n)) s" "s_conns s w = Some rw"
  shows "wait_job n q w s = (Inr 0, put_c w (rw\<lparr>c_link := c_link rw + 1, c_status := Worker_wait_job\<rparr>)
    (put_ql q (joined n w ql) (put_c w (rw\<lparr>c_link := c_link rw + 1\<rparr>) s)))"
  using assms by (simp add: wait_job_def bnd_run thn_run runs drop_stale_none joined_def put_c_def put_ql_def has_ql_def)

text \<open>
  What \<open>add_worker\<close> does around the search, for such a worker: whatever the search and what follows it end in
  (\<open>s2\<close>), the queue line is unlocked and the local list of messages to free is emptied.
\<close>

definition searched :: "nat \<Rightarrow> nat \<Rightarrow> queue_line \<Rightarrow> server \<Rightarrow> server" where
  "searched n q ql s = put_ql q (ql\<lparr>ql_last_worker := uint (s_now s), ql_locked := True\<rparr>) (s\<lparr>s_gc := []\<rparr>)"

lemma searched_sel [simp]:
  "s_conns (searched n q ql s) = s_conns s" "s_loops (searched n q ql s) = s_loops s"
  "s_queue_list (searched n q ql s) = (s_queue_list s)[q := Some (ql\<lparr>ql_last_worker := uint (s_now s), ql_locked := True\<rparr>)]"
  "s_wait_response (searched n q ql s) = s_wait_response s" "s_gc (searched n q ql s) = []"
  "s_mapper (searched n q ql s) = s_mapper s" "s_threads (searched n q ql s) = s_threads s"
  "s_now (searched n q ql s) = s_now s" "s_jsonrpc2 (searched n q ql s) = s_jsonrpc2 s"
  by (simp_all add: searched_def)

lemma mode_added:
  assumes line: "line_of s name q ql" "\<not> ql_locked ql"
    and worker: "s_conns s w = Some rw" "keeps_mode name rw" "c_info rw = []" and "single_name name"
    and search: "find_message w q (loop_order n (s_threads s)) (searched n q ql s) = (Inr m, s1)"
      "(case m of Some (msg, sid) \<Rightarrow> give_message w msg sid | None \<Rightarrow> wait_job n q w) s1 = (Inr x, s2)"
    and after: "s_conns s2 w = Some rw2" "c_worker_item rw2 \<noteq> None" "has_ql q ql2 s2"
      "for_each (s_gc s2) gc_free ((put_ql q (ql2\<lparr>ql_locked := False\<rparr>) s2)\<lparr>s_gc := s_gc s\<rparr>) = (Inr (), s3)"
  shows "add_worker n name w s = (Inr (), s3)"
proof -
  let ?body = "bnd (gets s_now) (\<lambda>now. thn (upd_ql q (\<lambda>ql. ql\<lparr>ql_last_worker := uint now\<rparr>))
        (thn (lock_ql q)
        (bnd (gets s_threads) (\<lambda>threads.
         bnd (find_message w q (loop_order n threads)) (\<lambda>m.
         bnd (case m of Some (msg, sid) \<Rightarrow> give_message w msg sid | None \<Rightarrow> wait_job n q w) (\<lambda>result.
         thn (register_worker q name w) (thn (unlock_ql q) (ret result))))))))"
  have ql: "has_ql q ql s" using line(1) by (simp add: line_of_def)
  then have len: "q < length (s_queue_list s)" and ql': "has_ql q ql (s\<lparr>s_gc := []\<rparr>)" by (simp_all add: has_ql_def)
  have gq: "get_queue name True s = (Inr (Some q), s)" using line(1) by (rule get_queue_run)
  have nm: "(if name \<noteq> [] \<and> hd name = CHR ''/'' then slice_remove 1 name else name) = name"
    using assms(6) by (auto simp: single_name_def)
  have "lock_ql q (put_ql q (ql\<lparr>ql_last_worker := uint (s_now s)\<rparr>) (s\<lparr>s_gc := []\<rparr>)) = (Inr (), searched n q ql s)"
    using line(2) len by (simp add: lock_ql_def bnd_run runs searched_def)
  moreover have "register_worker q name w s2 = (Inr (), s2)"
    using after(1,2) by (auto simp: register_worker_def bnd_run runs)
  moreover have "unlock_ql q s2 = (Inr (), put_ql q (ql2\<lparr>ql_locked := False\<rparr>) s2)" using after(3) by (rule unlock_ql_run)
  ultimately have "?body (s\<lparr>s_gc := []\<rparr>) = (Inr x, put_ql q (ql2\<lparr>ql_locked := False\<rparr>) s2)"
    using search by (simp add: bnd_run thn_run upd_ql_run [OF ql'])
  from with_gc_run [where m = ?body, OF this] after(4) have gc: "with_gc ?body s = (Inr x, s3)" by simp
  have "add_one_worker n name w s = (Inr x, s3)"
    unfolding add_one_worker_def Let_def nm bnd_Inr [where m = "get_queue name True", OF gq] option.case
      bnd_Inr [where m = "get_c w", OF get_c_run [OF worker(1)]]
    using worker gc keeps_modeD [OF worker(2)] by (simp add: bnd_run [where m = "get_c w"] get_c_run)
  moreover have "add_worker n name w = thn (add_one_worker n name w) (ret ())"
    using assms(6) by (simp add: add_worker_def add_worker_one single_name_def)
  ultimately show ?thesis by (simp add: thn_run)
qed

lemma rejoin_run:
  assumes line: "line_of s name q ql" "\<not> ql_locked ql" "n < length (ql_queue ql)" "length (ql_queue ql) = s_threads s"
    and free: "\<forall>x \<in> set (ql_queue ql). q_clients x = []" "nobody_stale w (q_workers (ql_queue ql ! n)) s"
    and worker: "s_conns s w = Some rw" "keeps_mode name rw" "c_info rw = []"
    and "single_name name"
  shows "\<exists>s'. add_worker n name w s = (Inr (), s') \<and>
    s_conns s' = (s_conns s)(w \<mapsto> rw\<lparr>c_link := c_link rw + 1, c_status := Worker_wait_job\<rparr>) \<and>
    s_queue_list s' = (s_queue_list s)[q := Some (joined n w (ql\<lparr>ql_last_worker := uint (s_now s)\<rparr>))] \<and>
    s_wait_response s' = s_wait_response s \<and> steady s s'"
proof -
  let ?ql0 = "ql\<lparr>ql_last_worker := uint (s_now s)\<rparr>" and ?s1 = "searched n q ql s"
  let ?ql1 = "?ql0\<lparr>ql_locked := True\<rparr>"
  let ?s2 = "put_c w (rw\<lparr>c_link := c_link rw + 1, c_status := Worker_wait_job\<rparr>)
    (put_ql q (joined n w ?ql1) (put_c w (rw\<lparr>c_link := c_link rw + 1\<rparr>) ?s1))"
  have len: "q < length (s_queue_list s)" using line(1) by (simp add: line_of_def has_ql_def)
  have find: "find_message w q (loop_order n (s_threads s)) ?s1 = (Inr None, ?s1)"
    by (rule no_message_run [where ql = ?ql1]) (use len line free in \<open>auto simp: loop_order_def has_ql_def\<close>)
  have stale: "nobody_stale w (q_workers (ql_queue ?ql1 ! n)) ?s1" using free(2) by (simp add: nobody_stale_def)
  have "wait_job n q w ?s1 = (Inr 0, ?s2)"
    by (rule wait_job_run) (use stale line len worker in \<open>simp_all add: has_ql_def\<close>)
  then have wait: "(case None of Some (msg, sid) \<Rightarrow> give_message w msg sid | None \<Rightarrow> wait_job n q w) ?s1 = (Inr 0, ?s2)" by simp
  have "joined n w ?ql1\<lparr>ql_locked := False\<rparr> = joined n w ?ql0" using line(2) by (cases ql) (simp add: joined_def)
  with mode_added [OF line(1,2) worker assms(10) find wait] len keeps_modeD [OF worker(2)]
  have "add_worker n name w s = (Inr (), (put_ql q (joined n w ?ql0) ?s2)\<lparr>s_gc := s_gc s\<rparr>)" by (simp add: has_ql_def)
  then show ?thesis by (intro exI conjI) (assumption, simp_all add: steady_def)
qed

section \<open>The result as a request\<close>

lemma scan_nothing: "json_scan (json_load [] l) = (Inr False, json_load [] l)"
  by (simp add: json_scan_def json_load_def)

lemma each_nothing: "json_each f v (json_load [] l) = (Inr (), v, json_load [] l)"
  by (subst json_each.simps) (simp add: scan_nothing)

text \<open>The connection of such a worker that has read a request with an empty header, whose body is the result.\<close>

definition brought :: "bytes \<Rightarrow> bytes \<Rightarrow> connect \<Rightarrow> connect" where
  "brought path result r = read_whole [] result
     ((reset_request r)\<lparr>c_path := path, c_http_version := 11, c_http_step := Http_header\<rparr>)"

lemma brought_sel:
  "c_body (brought path result r) = result" "c_client (brought path result r) = c_client r" "c_link (brought path result r) = c_link r"
  "c_worker_mode (brought path result r) = c_worker_mode r" "c_nloop (brought path result r) = c_nloop r"
  "c_need_loop (brought path result r) = c_need_loop r" "c_path (brought path result r) = path"
  "c_status (brought path result r) = c_status r" "c_http_version (brought path result r) = 11"
  "c_header_option (brought path result r) = []" "c_info (brought path result r) = []"
  "c_name (brought path result r) = (if c_worker_mode r then c_name r else [])"
  "c_noid (brought path result r) = c_noid r" "c_fail_on_disconnect (brought path result r) = c_fail_on_disconnect r"
  "c_json (brought path result r) = json_load [] (j_level (c_json r))" "c_keep_alive (brought path result r) = c_keep_alive r"
  "c_send_buffer (brought path result r) = c_send_buffer r" "c_socket_status (brought path result r) = c_socket_status r"
  "c_http_step (brought path result r) = Http_request_completed"
  by (simp_all add: brought_def read_whole_def set_fields_def reset_request_def)

lemma brought_mode: "keeps_mode name r \<Longrightarrow> keeps_mode name (brought path result r)"
  by (simp add: keeps_mode_def brought_def read_whole_def set_fields_def reset_request_def)

lemma brought_buffer: "c_buffer (brought path result r) = []"
  by (simp add: brought_def read_whole_def)

lemma mode_packet:
  assumes "s_conns s w = Some r" and "c_status r = Worker_wait_result" and "keeps_mode name r" "c_http_step r = Http_start"
    "c_buffer r = []" and "word verb" and "word path" and "length result < 2147483648"
  shows "on_recv w (request_text verb path [] result) s =
    thn (complete w) (recv_end w []) (put_c w (brought path result r) s)"
proof -
  let ?r1 = "(reset_request r)\<lparr>c_path := path, c_http_version := 11, c_http_step := Http_header\<rparr>"
  have m: "c_worker_mode r" "c_noid r" "c_ping r = 0" using keeps_modeD [OF assms(3)] by simp_all
  have "last (request_line verb path) = CHR ''1''" by (simp add: request_line_def)
  with assms m have line: "read_line w (request_line verb path) s = (Inr True, put_c w ?r1 s)"
    by (simp add: read_line_def start_request_def read_method_def set_step_def bnd_run thn_run runs Let_def
        method_loop_path reset_request_def) (simp add: word_def)
  have "conn_ready r" using assms(2) m by (simp add: conn_ready_def)
  then show ?thesis unfolding brought_def
    by (rule packet_read [OF assms(1) _ assms(4,5) m(3) line _ _ _ assms(6,7) _ assms(8)]) (simp_all add: reset_request_def)
qed

lemma rpc_add_mode:
  assumes "s_conns s w = Some r" and "c_worker_mode r" "c_noid r" "c_fail_on_disconnect r" "c_name r \<noteq> []"
    and "c_json r = json_load [] l"
  shows "rpc_add w s = add_worker (c_nloop r) (c_name r) w s"
proof -
  have same: "r\<lparr>c_json := json_load [] l, c_name := c_name r, c_info := c_info r, c_noid := True, c_fail_on_disconnect := True\<rparr> = r"
    "r\<lparr>c_noid := True, c_fail_on_disconnect := True\<rparr> = r" using assms(3,4,6) by (cases r; simp)+
  show ?thesis
    using assms by (simp add: rpc_add_def bnd_run thn_run runs each_nothing lift_res_def same put_c_same)
qed

text \<open>Such a worker sends a result: the client gets it, and the worker waits again.\<close>

definition bystanders :: "nat \<Rightarrow> nat \<Rightarrow> nat list \<Rightarrow> server \<Rightarrow> bool" where
  "bystanders c w ws s = (\<forall>v \<in> set ws. v \<noteq> w \<and> v \<noteq> c \<and> (\<exists>r. s_conns s v = Some r \<and> \<not> is_closed r))"

lemma bystanders_put [simp]:
  "bystanders c w ws (put_c w r s) = bystanders c w ws s" "bystanders c w ws (put_c c r s) = bystanders c w ws s"
  by (auto simp: bystanders_def)

text \<open>The state in which the worker, which has delivered its result, is added to its queue again.\<close>

lemma mode_completed:
  assumes worker: "s_conns s w = Some rw" "c_status rw \<noteq> Worker_mode_async" "keeps_mode name rw" "c_client rw = Some c" "c \<noteq> w"
      "c_nloop rw < length (s_loops s)" "c_path rw \<noteq> ''echo''" "c_http_version rw = 11" "c_header_option rw = []"
      "c_json rw = json_load [] l"
    and client: "s_conns s c = Some rc" "1 < c_link rc" "\<not> is_closed rc" "c_nloop rc < length (s_loops s)"
    and name: "single_name name"
  shows "\<exists>s1. s_conns s1 = (s_conns s)(c \<mapsto> emitted (response (c_keep_alive rc) ''200 OK'' [] (c_body rw))
        (rc\<lparr>c_link := c_link rc - 1, c_status := Net\<rparr>), w \<mapsto> rw\<lparr>c_keep_alive := True, c_client := None\<rparr>) \<and>
    s_queue_list s1 = s_queue_list s \<and> s_wait_response s1 = s_wait_response s \<and> steady s s1 \<and>
    (\<forall>s2. add_worker (c_nloop rw) name w s1 = (Inr (), s2) \<longrightarrow> complete w s = (Inr (), s2))"
proof -
  let ?n = "c_nloop rw" and ?r = "rw\<lparr>c_keep_alive := True\<rparr>" and ?text = "response (c_keep_alive rc) ''200 OK'' [] (c_body rw)"
  let ?ls = "(s_loops s)[?n := (s_loops s ! ?n)\<lparr>l_stat_request := l_stat_request (s_loops s ! ?n) + 1\<rparr>]"
  let ?s1 = "put_c w ?r (s\<lparr>s_loops := ?ls\<rparr>)" and ?r2 = "rw\<lparr>c_keep_alive := True, c_client := None\<rparr>"
  note m = keeps_modeD [OF worker(3)]
  have s1: "s_conns ?s1 w = Some ?r" "s_conns ?s1 c = Some rc" "?n < length (s_loops ?s1)" "c_nloop rc < length (s_loops ?s1)"
    "c_client ?r = Some c" "c_worker_mode ?r" "c_nloop ?r = c_need_loop ?r"
    using worker client m by simp_all
  from result_noid_run [OF s1(3,1,5,6) worker(5) s1(2) client(2,3) s1(4,7)] obtain s2 where
    s2: "worker_result_noid ?n w ?s1 = (Inr 0, s2)" "s_queue_list s2 = s_queue_list s"
      "s_conns s2 = (s_conns s)(c \<mapsto> emitted ?text (rc\<lparr>c_link := c_link rc - 1, c_status := Net\<rparr>), w \<mapsto> ?r2)"
      "s_wait_response s2 = s_wait_response s" "steady ?s1 s2"
    using worker(5) by (auto simp: fun_upd_twist)
  have w2: "s_conns s2 w = Some ?r2" using s2(3) by simp
  have "rpc_add w s2 = add_worker ?n name w s2"
    using rpc_add_mode [OF w2, of l] m worker(10) name by (auto simp: single_name_def)
  then have "complete w s = (Inr (), s3)" if "add_worker ?n name w s2 = (Inr (), s3)" for s3
    using that worker m s2(1) by (simp add: complete_def catch_invalid_def header_completed_def worker_mode_request_def bnd_run thn_run runs)
  with s2 show ?thesis by (intro exI [of _ s2]) (simp add: steady_def)
qed

section \<open>The two packets\<close>

definition wanted :: "bytes \<Rightarrow> bytes \<Rightarrow> connect \<Rightarrow> connect" where
  "wanted path body r = (has_read path [] body r)\<lparr>c_keep_alive := True, c_json := json_load body 0, c_no_response := False\<rparr>"

lemma wanted_sel:
  "c_body (wanted path body r) = body" "c_keep_alive (wanted path body r)" "c_link (wanted path body r) = c_link r"
  "c_nloop (wanted path body r) = c_nloop r" "c_socket_status (wanted path body r) = c_socket_status r"
  "c_required_worker (wanted path body r) = []" "\<not> c_no_response (wanted path body r)"
  "c_http_step (wanted path body r) = Http_request_completed" "c_send_buffer (wanted path body r) = c_send_buffer r"
  by (simp_all add: wanted_def has_read_def set_fields_def started_def)

lemma wanted_reads:
  "reads_new rc \<Longrightarrow> reads_new (emitted x ((wanted path body rc)\<lparr>c_http_step := Http_start, c_link := l, c_status := Net\<rparr>))"
  by (simp add: wanted_def has_read_def set_fields_def started_def reads_new_def emitted_def)

lemma wanted_packet:
  assumes "s_conns s c = Some r" and "reads_new r" and "c_nloop r < length (s_loops s)"
    and "word verb" "word path" "path \<notin> set reserved" "length body < 2147483648"
  shows "\<exists>ls. length ls = length (s_loops s) \<and> on_recv c (request_text verb path [] body) s =
    thn (catch_invalid (thn (client_request (c_nloop r) path c) (ret ())) (invalid_reply c)) (recv_end c [])
      (put_c c (wanted path body r) (s\<lparr>s_loops := ls\<rparr>))"
proof -
  let ?r = "has_read path [] body r" and ?s = "put_c c (has_read path [] body r) s"
  have read: "on_recv c (request_text verb path [] body) s = thn (complete c) (recv_end c []) ?s"
    using packet_read [OF assms(1) _ _ _ _ read_request_line [OF assms(1) _ _ _ _ assms(4,5)] _ _ _ assms(4,5), of "[]" body] assms(2,7)
    by (simp add: reads_new_def conn_ready_def started_def read_whole_def has_read_def)
  have "plain_call ?r" "c_path ?r = path" "c_body ?r = body" "c_nloop ?r = c_nloop r"
    using assms(2,6) by (simp_all add: plain_call_def reads_new_def has_read_def set_fields_def started_def)
  with call_completed [of ?s c ?r] assms(3) obtain ls where "length ls = length (s_loops s)"
    "complete c ?s = catch_invalid (thn (client_request (c_nloop r) path c) (ret ())) (invalid_reply c)
      (put_c c (wanted path body r) (s\<lparr>s_loops := ls\<rparr>))"
    by (auto simp: wanted_def put_c_def)
  with read show ?thesis by (auto simp: thn_run)
qed

lemma mode_call_ran:
  assumes line: "line_of s path q ql" "\<not> ql_locked ql" "c_nloop rc < length (ql_queue ql)"
    and head: "q_workers (ql_queue ql ! c_nloop rc) = w # ws"
    and client: "s_conns s c = Some rc" "reads_new rc" "c_nloop rc < length (s_loops s)"
    and worker: "s_conns s w = Some rw" "c \<noteq> w" "c_status rw = Worker_wait_job" "\<not> is_closed rw" "1 < c_link rw"
      "c_nloop rw < length (s_loops s)" "c_noid rw"
    and request: "word verb" "word path" "path \<notin> set reserved" "length body < 2147483648"
  defines "text \<equiv> response (c_keep_alive rw) ''200 OK'' [(''Name'', path)] body"
  shows "\<exists>s1. on_recv c (request_text verb path [] body) s = (Inr (), s1) \<and>
    s_conns s1 = (s_conns s)(c \<mapsto> (wanted path body rc)\<lparr>c_link := c_link rc + 1, c_status := Client_wait_result,
      c_http_step := Http_start\<rparr>, w \<mapsto> emitted text (rw\<lparr>c_link := c_link rw - 1, c_client := Some c, c_status := Worker_wait_result\<rparr>)) \<and>
    s_queue_list s1 = (s_queue_list s)[q := Some (took (c_nloop rc) ws ql)] \<and>
    s_wait_response s1 = s_wait_response s \<and> steady s s1"
proof -
  let ?rc = "wanted path body rc"
  from wanted_packet [OF client request] obtain ls where ls: "length ls = length (s_loops s)" and
    run: "on_recv c (request_text verb path [] body) s =
      thn (catch_invalid (thn (client_request (c_nloop rc) path c) (ret ())) (invalid_reply c)) (recv_end c [])
        (put_c c ?rc (s\<lparr>s_loops := ls\<rparr>))" by blast
  let ?s = "put_c c ?rc (s\<lparr>s_loops := ls\<rparr>)"
  have "line_of ?s path q ql" using line(1) by (simp add: line_of_def)
  note d = noid_dispatch_run [OF this line(2,3) _ head, where c = c and rc = ?rc and rw = rw]
  obtain s1 where s1: "client_request (c_nloop rc) path c ?s = (Inr 0, s1)"
    "s_conns s1 = (s_conns ?s)(c \<mapsto> ?rc\<lparr>c_link := c_link rc + 1, c_status := Client_wait_result\<rparr>,
      w \<mapsto> emitted text (rw\<lparr>c_link := c_link rw - 1, c_client := Some c, c_status := Worker_wait_result\<rparr>))"
    "s_wait_response s1 = s_wait_response s" "steady ?s s1" "s_queue_list s1 = (s_queue_list s)[q := Some (took (c_nloop rc) ws ql)]"
    using d client worker ls by (force simp: wanted_sel fit_def text_def)
  have "s_conns s1 c = Some (?rc\<lparr>c_link := c_link rc + 1, c_status := Client_wait_result\<rparr>)" using s1(2) worker(2) by simp
  note e = packet_ends [OF this]
  show ?thesis
    unfolding run using s1 worker(2) e ls
    by (simp add: thn_run catch_invalid_def wanted_sel fun_upd_twist steady_def put_c_def)
qed

text \<open>
  The packet with the result: the client is sent it (\<open>s1\<close>); what the search for more work ends in is what the packet
  ends in, and the connection of the worker reads its next request.
\<close>

definition rid :: "bytes \<Rightarrow> bytes \<Rightarrow> connect \<Rightarrow> connect" where
  "rid path result rw = (brought path result rw)\<lparr>c_keep_alive := True, c_client := None\<rparr>"

lemma rid_sel:
  "c_link (rid path result r) = c_link r" "c_nloop (rid path result r) = c_nloop r" "c_info (rid path result r) = []"
  "c_http_step (rid path result r) = Http_request_completed" "c_send_buffer (rid path result r) = c_send_buffer r"
  "c_keep_alive (rid path result r)" "c_buffer (rid path result r) = []" "c_client (rid path result r) = None"
  by (simp_all add: rid_def brought_sel brought_buffer)

lemma rid_mode: "keeps_mode name r \<Longrightarrow> keeps_mode name (rid path result r)"
  using brought_mode [of name r path result] by (simp add: rid_def keeps_mode_def)

lemma mode_result_ran:
  assumes worker: "s_conns s w = Some rw" "c_status rw = Worker_wait_result" "keeps_mode name rw" "c_client rw = Some c" "c \<noteq> w"
      "c_nloop rw < length (s_loops s)" "c_http_step rw = Http_start" "c_buffer rw = []"
    and client: "s_conns s c = Some rc" "1 < c_link rc" "\<not> is_closed rc" "c_nloop rc < length (s_loops s)"
    and request: "single_name name" "word verb" "word path" "path \<noteq> ''echo''" "length result < 2147483648"
  shows "\<exists>s1. s_conns s1 = (s_conns s)(c \<mapsto> emitted (response (c_keep_alive rc) ''200 OK'' [] result)
        (rc\<lparr>c_link := c_link rc - 1, c_status := Net\<rparr>), w \<mapsto> rid path result rw) \<and>
    s_queue_list s1 = s_queue_list s \<and> s_wait_response s1 = s_wait_response s \<and> steady s s1 \<and>
    (\<forall>s2 r. add_worker (c_nloop rw) name w s1 = (Inr (), s2) \<and> s_conns s2 w = Some r \<and> c_http_step r = Http_request_completed \<longrightarrow>
      on_recv w (request_text verb path [] result) s = (Inr (), put_c w (r\<lparr>c_http_step := Http_start\<rparr>) s2))"
proof -
  let ?r = "brought path result rw" and ?s = "put_c w (brought path result rw) s"
  note run = mode_packet [OF worker(1-3,7,8) request(2,3,5)]
  have "keeps_mode name ?r" using worker(3) by (rule brought_mode)
  then obtain s1 where s1:
    "s_conns s1 = (s_conns ?s)(c \<mapsto> emitted (response (c_keep_alive rc) ''200 OK'' [] result) (rc\<lparr>c_link := c_link rc - 1, c_status := Net\<rparr>),
      w \<mapsto> rid path result rw)"
    "s_queue_list s1 = s_queue_list s" "s_wait_response s1 = s_wait_response s" "steady s s1"
    "\<And>s2. add_worker (c_nloop rw) name w s1 = (Inr (), s2) \<Longrightarrow> complete w ?s = (Inr (), s2)"
    using mode_completed [of ?s w ?r name c "j_level (c_json rw)" rc] worker client request
    by (auto simp: brought_sel steady_def rid_def)
  then show ?thesis
    unfolding run using worker(5) packet_ends by (intro exI [of _ s1]) (auto simp: thn_run fun_upd_twist)
qed

lemma mode_rejoined:
  assumes worker: "s_conns s w = Some rw" "c_status rw = Worker_wait_result" "keeps_mode name rw" "c_client rw = Some c" "c \<noteq> w"
      "c_nloop rw < length (s_loops s)" "c_http_step rw = Http_start" "c_buffer rw = []"
    and client: "s_conns s c = Some rc" "1 < c_link rc" "\<not> is_closed rc" "c_nloop rc < length (s_loops s)"
    and request: "single_name name" "word verb" "word path" "path \<noteq> ''echo''" "length result < 2147483648"
    and line: "line_of s name q ql" "\<not> ql_locked ql" "c_nloop rw < length (ql_queue ql)" "length (ql_queue ql) = s_threads s"
    and free: "\<forall>x \<in> set (ql_queue ql). q_clients x = []"
      "bystanders c w (q_workers (ql_queue ql ! c_nloop rw)) s"
  shows "\<exists>s'. on_recv w (request_text verb path [] result) s = (Inr (), s') \<and>
    s_conns s' = (s_conns s)(c \<mapsto> emitted (response (c_keep_alive rc) ''200 OK'' [] result) (rc\<lparr>c_link := c_link rc - 1, c_status := Net\<rparr>),
      w \<mapsto> (rid path result rw)\<lparr>c_link := c_link rw + 1, c_status := Worker_wait_job, c_http_step := Http_start\<rparr>) \<and>
    s_queue_list s' = (s_queue_list s)[q := Some (joined (c_nloop rw) w (ql\<lparr>ql_last_worker := uint (s_now s)\<rparr>))] \<and>
    s_wait_response s' = s_wait_response s \<and> steady s s'"
proof -
  from mode_result_ran [OF worker client request] obtain s1 where s1:
    "s_conns s1 = (s_conns s)(c \<mapsto> emitted (response (c_keep_alive rc) ''200 OK'' [] result)
        (rc\<lparr>c_link := c_link rc - 1, c_status := Net\<rparr>), w \<mapsto> rid path result rw)"
    "s_queue_list s1 = s_queue_list s" "s_wait_response s1 = s_wait_response s" "steady s s1"
    and ends: "\<And>s2 r. add_worker (c_nloop rw) name w s1 = (Inr (), s2) \<Longrightarrow> s_conns s2 w = Some r \<Longrightarrow>
      c_http_step r = Http_request_completed \<Longrightarrow>
      on_recv w (request_text verb path [] result) s = (Inr (), put_c w (r\<lparr>c_http_step := Http_start\<rparr>) s2)"
    by blast
  have w1: "s_conns s1 w = Some (rid path result rw)" using s1(1) by simp
  have "line_of s1 name q ql" using line(1) s1(2,4) by (simp add: line_of_def has_ql_def steady_def)
  moreover have "nobody_stale w (q_workers (ql_queue ql ! c_nloop rw)) s1" using free(2) s1(1) by (auto simp: nobody_stale_def bystanders_def)
  moreover have "length (ql_queue ql) = s_threads s1" using s1(4) line(4) by (simp add: steady_def)
  ultimately obtain s2 where s2: "add_worker (c_nloop rw) name w s1 = (Inr (), s2)"
      "s_conns s2 = (s_conns s1)(w \<mapsto> (rid path result rw)\<lparr>c_link := c_link (rid path result rw) + 1, c_status := Worker_wait_job\<rparr>)"
      "s_queue_list s2 = (s_queue_list s1)[q := Some (joined (c_nloop rw) w (ql\<lparr>ql_last_worker := uint (s_now s1)\<rparr>))]"
      "s_wait_response s2 = s_wait_response s1" "steady s1 s2"
    using rejoin_run [OF _ line(2,3) _ free(1) _ w1 rid_mode [OF worker(3)] rid_sel(3) request(1)] by blast
  from ends [OF s2(1)] s2(2) have "on_recv w (request_text verb path [] result) s =
      (Inr (), put_c w ((rid path result rw)\<lparr>c_link := c_link rw + 1, c_status := Worker_wait_job, c_http_step := Http_start\<rparr>) s2)"
    by (simp add: rid_sel)
  with s1 s2 show ?thesis by (simp add: rid_sel steady_def fun_upd_twist)
qed

section \<open>Property\<close>

lemma took_joined:
  "n < length (ql_queue ql) \<Longrightarrow> joined n w ((took n ws ql)\<lparr>ql_last_worker := t\<rparr>) = took n (ws @ [w]) (ql\<lparr>ql_last_worker := t\<rparr>)"
  by (simp add: joined_def took_def)

lemma took_clients:
  assumes "\<forall>x \<in> set (ql_queue ql). q_clients x = []" and "n < length (ql_queue ql)"
  shows "\<forall>x \<in> set (ql_queue (took n ws ql)). q_clients x = []"
proof -
  have "q_clients ((ql_queue ql ! n)\<lparr>q_workers := ws\<rparr>) = []" using assms by simp
  with assms(1) show ?thesis by (auto simp: took_def dest!: set_update_subset_insert [THEN subsetD])
qed

text \<open>The turn, with what the next one needs.\<close>

lemma mode_turn:
  assumes line: "line_of s path q ql" "\<not> ql_locked ql" "c_nloop rc < length (ql_queue ql)" "length (ql_queue ql) = s_threads s"
    and head: "q_workers (ql_queue ql ! c_nloop rc) = w # ws"
    and free: "\<forall>x \<in> set (ql_queue ql). q_clients x = []" "bystanders c w ws s"
    and client: "s_conns s c = Some rc" "reads_new rc" "c_nloop rc < length (s_loops s)" "0 \<le> c_socket_status rc" "0 < c_link rc"
    and worker: "s_conns s w = Some rw" "c \<noteq> w" "c_status rw = Worker_wait_job" "mode_worker path rw" "1 < c_link rw"
      "c_nloop rw = c_nloop rc"
    and request: "word verb" "word path" "path \<notin> set reserved" "single_name path" "length body < 2147483648"
    and result: "word verb'" "word path'" "path' \<noteq> ''echo''" "length result < 2147483648"
  shows "\<exists>s1 s2 rw1 rc2 rw2. on_recv c (request_text verb path [] body) s = (Inr (), s1) \<and> s_conns s1 w = Some rw1 \<and>
    c_send_buffer rw1 = c_send_buffer rw @ response (c_keep_alive rw) ''200 OK'' [(''Name'', path)] body \<and>
    on_recv w (request_text verb' path' [] result) s1 = (Inr (), s2) \<and>
    s_conns s2 = (s_conns s)(c \<mapsto> rc2, w \<mapsto> rw2) \<and>
    c_send_buffer rc2 = c_send_buffer rc @ response True ''200 OK'' [] result \<and> c_send_buffer rw2 = c_send_buffer rw1 \<and>
    reads_new rc2 \<and> mode_worker path rw2 \<and> c_status rw2 = Worker_wait_job \<and>
    c_link rc2 = c_link rc \<and> c_link rw2 = c_link rw \<and> s_wait_response s2 = s_wait_response s \<and>
    s_queue_list s2 = (s_queue_list s)[q := Some (took (c_nloop rc) (ws @ [w]) (ql\<lparr>ql_last_worker := uint (s_now s)\<rparr>))] \<and>
    steady s s2 \<and> c_nloop rc2 = c_nloop rc \<and> c_nloop rw2 = c_nloop rw \<and> 0 \<le> c_socket_status rc2 \<and> c_keep_alive rw2"
proof -
  let ?text = "response (c_keep_alive rw) ''200 OK'' [(''Name'', path)] body"
  let ?rc1 = "(wanted path body rc)\<lparr>c_link := c_link rc + 1, c_status := Client_wait_result, c_http_step := Http_start\<rparr>"
  let ?rw1 = "emitted ?text (rw\<lparr>c_link := c_link rw - 1, c_client := Some c, c_status := Worker_wait_result\<rparr>)"
  let ?n = "c_nloop rc" and ?ql = "took (c_nloop rc) ws ql"
  have kept: "keeps_mode path rw" "c_http_step rw = Http_start" "c_buffer rw = []" using worker(4) by (simp_all add: mode_worker_def)
  note m = keeps_modeD [OF this(1)]
  obtain s1 where s1: "on_recv c (request_text verb path [] body) s = (Inr (), s1)"
      "s_conns s1 = (s_conns s)(c \<mapsto> ?rc1, w \<mapsto> ?rw1)" "s_queue_list s1 = (s_queue_list s)[q := Some ?ql]"
      "s_wait_response s1 = s_wait_response s" "steady s s1"
    using mode_call_ran [OF line(1-3) head client(1-3) worker(1-3) _ worker(5) _ _ request(1-3,5)] m client(3) worker(6) by auto
  have 2: "s_conns s1 w = Some ?rw1" "s_conns s1 c = Some ?rc1" using s1(2) worker(2) by simp_all
  have len: "q < length (s_queue_list s)" using line(1) by (simp add: line_of_def has_ql_def)
  have line1: "line_of s1 path q ?ql" "\<not> ql_locked ?ql" "?n < length (ql_queue ?ql)" "length (ql_queue ?ql) = s_threads s1"
    using line s1(3,5) len by (simp_all add: line_of_def has_ql_def steady_def took_def)
  have "keeps_mode path ?rw1" using kept(1) open_emitted [of "rw\<lparr>c_link := c_link rw - 1, c_client := Some c, c_status := Worker_wait_result\<rparr>" ?text]
    by (simp add: keeps_mode_def)
  moreover have "bystanders c w (q_workers (ql_queue ?ql ! ?n)) s1"
    using free(2) s1(2) line(3) by (auto simp: bystanders_def took_def)
  moreover have "c_buffer ?rw1 = []" using kept(3) by (simp add: emitted_def)
  ultimately obtain s2 where s2: "on_recv w (request_text verb' path' [] result) s1 = (Inr (), s2)"
      "s_conns s2 = (s_conns s1)(c \<mapsto> emitted (response True ''200 OK'' [] result) (?rc1\<lparr>c_link := c_link rc, c_status := Net\<rparr>),
        w \<mapsto> (rid path' result ?rw1)\<lparr>c_link := c_link rw, c_status := Worker_wait_job, c_http_step := Http_start\<rparr>)"
      "s_queue_list s2 = (s_queue_list s1)[q := Some (joined ?n w (?ql\<lparr>ql_last_worker := uint (s_now s1)\<rparr>))]"
      "s_wait_response s2 = s_wait_response s1" "steady s1 s2"
    using mode_rejoined [OF 2(1) _ _ _ worker(2) _ _ _ 2(2) _ _ _ request(4) result line1(1,2) _ line1(4) took_clients [OF free(1) line(3)]]
      s1(5) client worker(6) kept line1(3) by (auto simp: wanted_sel is_closed_def steady_def)
  let ?rc2 = "emitted (response True ''200 OK'' [] result) (?rc1\<lparr>c_link := c_link rc, c_status := Net\<rparr>)"
  let ?rw2 = "(rid path' result ?rw1)\<lparr>c_link := c_link rw, c_status := Worker_wait_job, c_http_step := Http_start\<rparr>"
  have sock: "0 \<le> c_socket_status ?rc2" by (rule open_emitted) (use client(4) in \<open>simp add: wanted_sel\<close>)
  have "s_conns s2 = (s_conns s)(c \<mapsto> ?rc2, w \<mapsto> ?rw2)" unfolding s2(2) s1(2) using worker(2) by (auto simp: fun_upd_twist)
  moreover have "reads_new ?rc2"
    using wanted_reads [OF client(2), where path = path and body = body and l = "c_link rc"] by (simp add: reads_new_def wanted_def has_read_def emitted_def)
  moreover have "mode_worker path ?rw2"
    using rid_mode [OF \<open>keeps_mode path ?rw1\<close>, of path' result] by (simp add: mode_worker_def keeps_mode_def rid_sel)
  moreover have "s_queue_list s2 = (s_queue_list s)[q := Some (took ?n (ws @ [w]) (ql\<lparr>ql_last_worker := uint (s_now s)\<rparr>))]"
    unfolding s2(3) s1(3) using s1(5) line(3) by (simp add: took_joined steady_def)
  ultimately show ?thesis
    using s1(1,4,5) 2(1) s2(1,4,5) sock
    by - (rule exI [of _ s1], rule exI [of _ s2], rule exI [of _ ?rw1], rule exI [of _ ?rc2], rule exI [of _ ?rw2],
      simp add: wanted_sel rid_sel steady_def)
qed

text \<open>
  A turn of a worker in worker mode, over HTTP. When a client sends a request for a queue and such a worker
  waits at the head of that queue, the worker is sent the body and the name of the queue; the next request the worker
  sends, to whatever path, is the result: the client is sent exactly its body. The worker is sent nothing for it and
  waits again, at the end of the queue, in the same mode, linked as before; the client reads its next request. Nothing
  was registered under an id.
\<close>

theorem http_worker_mode:
  assumes line: "line_of s path q ql" "\<not> ql_locked ql" "c_nloop rc < length (ql_queue ql)" "length (ql_queue ql) = s_threads s"
    and head: "q_workers (ql_queue ql ! c_nloop rc) = w # ws"
    and free: "\<forall>x \<in> set (ql_queue ql). q_clients x = []" "bystanders c w ws s"
    and client: "s_conns s c = Some rc" "reads_new rc" "c_nloop rc < length (s_loops s)" "0 \<le> c_socket_status rc" "0 < c_link rc"
    and worker: "s_conns s w = Some rw" "c \<noteq> w" "c_status rw = Worker_wait_job" "mode_worker path rw" "1 < c_link rw"
      "c_nloop rw = c_nloop rc"
    and request: "word verb" "word path" "path \<notin> set reserved" "single_name path" "length body < 2147483648"
    and result: "word verb'" "word path'" "path' \<noteq> ''echo''" "length result < 2147483648"
  shows "\<exists>s1 s2 rw1 rc2 rw2. on_recv c (request_text verb path [] body) s = (Inr (), s1) \<and> s_conns s1 w = Some rw1 \<and>
    c_send_buffer rw1 = c_send_buffer rw @ response (c_keep_alive rw) ''200 OK'' [(''Name'', path)] body \<and>
    on_recv w (request_text verb' path' [] result) s1 = (Inr (), s2) \<and>
    s_conns s2 = (s_conns s)(c \<mapsto> rc2, w \<mapsto> rw2) \<and>
    c_send_buffer rc2 = c_send_buffer rc @ response True ''200 OK'' [] result \<and> c_send_buffer rw2 = c_send_buffer rw1 \<and>
    reads_new rc2 \<and> mode_worker path rw2 \<and> c_status rw2 = Worker_wait_job \<and>
    c_link rc2 = c_link rc \<and> c_link rw2 = c_link rw \<and> s_wait_response s2 = s_wait_response s \<and>
    s_queue_list s2 = (s_queue_list s)[q := Some (took (c_nloop rc) (ws @ [w]) (ql\<lparr>ql_last_worker := uint (s_now s)\<rparr>))]"
proof -
  from mode_turn [OF line head free client worker request result] show ?thesis
    by (elim exE conjE) (intro exI conjI, assumption+)
qed

text \<open>A worker in this mode for the queue \<open>job\<close>.\<close>

definition demo_mode :: "nat \<Rightarrow> connect" where
  "demo_mode fd = (demo_conn fd)\<lparr>c_worker_mode := True, c_noid := True, c_fail_on_disconnect := True, c_worker_item := Some 0,
     c_connection_id := ''w'', c_name := ''job'', c_status := Worker_wait_job\<rparr>"

lemma demo_mode_ok: "mode_worker ''job'' (demo_mode fd)" "c_status (demo_mode fd) = Worker_wait_job" "c_link (demo_mode fd) = 2"
  "c_nloop (demo_mode fd) = 0" "c_send_buffer (demo_mode fd) = []" "c_keep_alive (demo_mode fd)"
  by (simp_all add: demo_mode_def mode_worker_def keeps_mode_def demo_conn_def new_connect_def)

lemma demo_reads: "reads_new (demo_conn fd)"
  by (simp add: reads_new_def demo_conn_def new_connect_def)

theorem http_worker_mode_witness:
  "\<exists>m s1 s2 rc2 rw2. on_recv 2 (request_text ''POST'' ''job'' [] ''hi'') (demo m (demo_line [3] [])
       [2 \<mapsto> demo_conn 5, 3 \<mapsto> demo_mode 6]) = (Inr (), s1) \<and>
     on_recv 3 (request_text ''POST'' ''-'' [] ''pong'') s1 = (Inr (), s2) \<and> s_conns s2 = [2 \<mapsto> rc2, 3 \<mapsto> rw2] \<and>
     c_send_buffer rc2 = response True ''200 OK'' [] ''pong'' \<and>
     c_send_buffer rw2 = response True ''200 OK'' [(''Name'', ''job'')] ''hi'' \<and> c_status rw2 = Worker_wait_job"
proof -
  obtain m where m: "mapper_find m ''job'' = Inr (Suc 0)" using demo_mapper by blast
  let ?cs = "[2 \<mapsto> demo_conn 5, 3 \<mapsto> demo_mode 6]"
  from http_worker_mode [OF demo_line_of [OF m, of "demo_line [3] []" ?cs], of "demo_conn 5" 3 "[]" 2 "demo_mode 6"
      "''POST''" "''hi''" "''POST''" "''-''" "''pong''"]
  obtain s1 s2 rc2 rw2 where
    "on_recv 2 (request_text ''POST'' ''job'' [] ''hi'') (demo m (demo_line [3] []) ?cs) = (Inr (), s1)"
    "on_recv 3 (request_text ''POST'' ''-'' [] ''pong'') s1 = (Inr (), s2)" "s_conns s2 = ?cs(2 \<mapsto> rc2, 3 \<mapsto> rw2)"
    "c_send_buffer rc2 = response True ''200 OK'' [] ''pong''"
    "c_send_buffer rw2 = response True ''200 OK'' [(''Name'', ''job'')] ''hi''"
    "c_status rw2 = Worker_wait_job"
    by (auto simp: demo_mode_ok demo_reads bystanders_def reserved_def word_def single_name_def is_closed_def)
  then show ?thesis
    by - (rule exI [of _ m], rule exI [of _ s1], rule exI [of _ s2], rule exI [of _ rc2], rule exI [of _ rw2], simp)
qed

section \<open>Many turns\<close>

text \<open>Calls one after the other: a client, what it asks and what the worker of its turn brings.\<close>

fun turns :: "bytes \<Rightarrow> nat list \<Rightarrow> (nat \<times> bytes \<times> bytes) list \<Rightarrow> (server, unit) prog" where
  "turns path (w # ws) ((c, body, result) # calls) =
     thn (on_recv c (request_text ''POST'' path [] body))
    (thn (on_recv w (request_text ''POST'' ''-'' [] result))
         (turns path (ws @ [w]) calls))"
| "turns path _ _ = ret ()"

text \<open>A queue only workers in this mode wait for, in the order of \<open>ws\<close>, and the clients \<open>cs\<close> that call it.\<close>

definition waits :: "bytes \<Rightarrow> nat \<Rightarrow> nat \<Rightarrow> server \<Rightarrow> bool" where
  "waits path n w s = (\<exists>r. s_conns s w = Some r \<and> mode_worker path r \<and> c_status r = Worker_wait_job \<and> 1 < c_link r \<and>
     c_nloop r = n \<and> c_keep_alive r)"

definition calls_from :: "nat \<Rightarrow> nat \<Rightarrow> server \<Rightarrow> bool" where
  "calls_from n c s = (\<exists>r. s_conns s c = Some r \<and> reads_new r \<and> c_nloop r = n \<and> 0 \<le> c_socket_status r \<and> 0 < c_link r)"

definition serving :: "bytes \<Rightarrow> nat \<Rightarrow> nat \<Rightarrow> nat list \<Rightarrow> nat set \<Rightarrow> server \<Rightarrow> bool" where
  "serving path q n ws cs s = (n < length (s_loops s) \<and> distinct ws \<and> set ws \<inter> cs = {} \<and>
     (\<exists>ql. line_of s path q ql \<and> \<not> ql_locked ql \<and> n < length (ql_queue ql) \<and> length (ql_queue ql) = s_threads s \<and>
       q_workers (ql_queue ql ! n) = ws \<and> (\<forall>x \<in> set (ql_queue ql). q_clients x = [])) \<and>
     (\<forall>w \<in> set ws. waits path n w s) \<and> (\<forall>c \<in> cs. calls_from n c s))"

definition sent :: "server \<Rightarrow> nat \<Rightarrow> bytes" where
  "sent s c = (case s_conns s c of None \<Rightarrow> [] | Some r \<Rightarrow> c_send_buffer r)"

text \<open>What the calls of a client bring it, and what a worker is asked in its turns: every \<open>length ws\<close>-th call.\<close>

definition results_of :: "nat \<Rightarrow> (nat \<times> bytes \<times> bytes) list \<Rightarrow> bytes" where
  "results_of c calls = concat (map (\<lambda>(_, _, result). response True ''200 OK'' [] result) (filter (\<lambda>(d, _). d = c) calls))"

definition jobs_of :: "bytes \<Rightarrow> nat list \<Rightarrow> nat \<Rightarrow> (nat \<times> bytes \<times> bytes) list \<Rightarrow> bytes" where
  "jobs_of path ws w calls = concat (map (\<lambda>j. response True ''200 OK'' [(''Name'', path)] (fst (snd (calls ! j))))
     (filter (\<lambda>j. ws ! (j mod length ws) = w) [0..<length calls]))"

lemma jobs_of_step:
  assumes "v \<in> set (w # ws)"
  shows "jobs_of path (w # ws) v ((c, body, result) # calls) =
    (if v = w then response True ''200 OK'' [(''Name'', path)] body else []) @ jobs_of path (ws @ [w]) v calls"
proof -
  let ?k = "Suc (length ws)"
  have turn: "(w # ws) ! (Suc j mod ?k) = (ws @ [w]) ! (j mod ?k)" for j
  proof (cases "j mod ?k = length ws")
    case True
    then have "Suc j mod ?k = 0" by (simp add: mod_Suc)
    with True show ?thesis by simp
  next
    case False
    then have "Suc j mod ?k = Suc (j mod ?k)" "j mod ?k < length ws"
      using mod_less_divisor [of ?k j] by (auto simp: mod_Suc less_Suc_eq)
    then show ?thesis by (simp add: nth_append)
  qed
  have "[0..<length ((c, body, result) # calls)] = 0 # map Suc [0..<length calls]"
    by (simp add: upt_conv_Cons map_Suc_upt del: upt_Suc)
  then show ?thesis
    by (simp add: jobs_of_def filter_map o_def turn del: upt_Suc)
qed

lemma serving_step:
  assumes "serving path q n (w # ws) cs s" and "c \<in> cs"
    and path: "word path" "path \<notin> set reserved" "single_name path" and "length body < 2147483648" "length result < 2147483648"
  shows "\<exists>s1 s2. on_recv c (request_text ''POST'' path [] body) s = (Inr (), s1) \<and>
    on_recv w (request_text ''POST'' ''-'' [] result) s1 = (Inr (), s2) \<and> serving path q n (ws @ [w]) cs s2 \<and>
    sent s2 c = sent s c @ response True ''200 OK'' [] result \<and>
    sent s2 w = sent s w @ response True ''200 OK'' [(''Name'', path)] body \<and> (\<forall>d. d \<noteq> c \<and> d \<noteq> w \<longrightarrow> sent s2 d = sent s d)"
proof -
  from assms(1) obtain ql where ql: "line_of s path q ql" "\<not> ql_locked ql" "n < length (ql_queue ql)" "length (ql_queue ql) = s_threads s"
    "q_workers (ql_queue ql ! n) = w # ws" "\<forall>x \<in> set (ql_queue ql). q_clients x = []"
    and loops: "n < length (s_loops s)" and apart: "distinct (w # ws)" "set (w # ws) \<inter> cs = {}"
    and ready: "\<And>v. v \<in> set (w # ws) \<Longrightarrow> waits path n v s" "\<And>d. d \<in> cs \<Longrightarrow> calls_from n d s"
    unfolding serving_def by blast
  from ready(1) [of w] obtain rw where rw: "s_conns s w = Some rw" "mode_worker path rw" "c_status rw = Worker_wait_job"
    "1 < c_link rw" "c_nloop rw = n" "c_keep_alive rw" by (auto simp: waits_def)
  from ready(2) [OF assms(2)] obtain rc where rc: "s_conns s c = Some rc" "reads_new rc" "c_nloop rc = n" "0 \<le> c_socket_status rc"
    "0 < c_link rc" by (auto simp: calls_from_def)
  have ne: "c \<noteq> w" using apart(2) assms(2) by auto
  have near: "bystanders c w ws s" unfolding bystanders_def
  proof
    fix v assume v: "v \<in> set ws"
    with ready(1) [of v] obtain r where "s_conns s v = Some r" "keeps_mode path r" by (auto simp: waits_def mode_worker_def)
    with v apart assms(2) keeps_modeD show "v \<noteq> w \<and> v \<noteq> c \<and> (\<exists>r. s_conns s v = Some r \<and> \<not> is_closed r)" by fastforce
  qed
  have post: "word ''POST''" "word ''-''" by (simp_all add: word_def)
  obtain s1 s2 rw1 rc2 rw2 where t:
    "on_recv c (request_text ''POST'' path [] body) s = (Inr (), s1)" "s_conns s1 w = Some rw1"
    "c_send_buffer rw1 = c_send_buffer rw @ response True ''200 OK'' [(''Name'', path)] body"
    "on_recv w (request_text ''POST'' ''-'' [] result) s1 = (Inr (), s2)" "s_conns s2 = (s_conns s)(c \<mapsto> rc2, w \<mapsto> rw2)"
    "c_send_buffer rc2 = c_send_buffer rc @ response True ''200 OK'' [] result" "c_send_buffer rw2 = c_send_buffer rw1"
    "reads_new rc2" "mode_worker path rw2" "c_status rw2 = Worker_wait_job" "c_link rc2 = c_link rc" "c_link rw2 = c_link rw"
    "s_queue_list s2 = (s_queue_list s)[q := Some (took n (ws @ [w]) (ql\<lparr>ql_last_worker := uint (s_now s)\<rparr>))]"
    "steady s s2" "c_nloop rc2 = n" "c_nloop rw2 = n" "0 \<le> c_socket_status rc2" "c_keep_alive rw2"
    using mode_turn [OF ql(1,2) _ ql(4) _ ql(6) near rc(1,2) _ rc(4,5) rw(1) ne rw(3,2,4) _ post(1) path assms(6) post(1,2) _ assms(7)]
      rc(3) rw(5,6) ql(3,5) loops by auto
  let ?ql = "took n (ws @ [w]) (ql\<lparr>ql_last_worker := uint (s_now s)\<rparr>)"
  have "line_of s2 path q ?ql" "\<not> ql_locked ?ql" "n < length (ql_queue ?ql)" "length (ql_queue ?ql) = s_threads s2"
    "q_workers (ql_queue ?ql ! n) = ws @ [w]" "\<forall>x \<in> set (ql_queue ?ql). q_clients x = []"
    using ql t(13,14) took_clients [of "ql\<lparr>ql_last_worker := uint (s_now s)\<rparr>" n]
    by (simp_all add: line_of_def has_ql_def steady_def took_def)
  moreover have "waits path n v s2" if "v \<in> set (ws @ [w])" for v
    using that ready(1) [of v] t(5,9,10,12,16,18) rw(4) ne apart assms(2) by (auto simp: waits_def)
  moreover have "calls_from n d s2" if "d \<in> cs" for d
    using that ready(2) [OF that] t(5,8,11,15,17) rc(5) ne apart by (auto simp: calls_from_def)
  moreover have "n < length (s_loops s2)" using loops t(14) by (simp add: steady_def)
  moreover have "distinct (ws @ [w])" "set (ws @ [w]) \<inter> cs = {}" using apart by auto
  ultimately have "serving path q n (ws @ [w]) cs s2" unfolding serving_def by blast
  then show ?thesis
    using t(1,3-7) rc(1) rw(1) ne by - (rule exI [of _ s1], rule exI [of _ s2], simp add: sent_def)
qed

text \<open>
  Claim C4. Workers in worker mode take turns. However many calls clients make for their queue, one after the other, every call
  is answered with its own result, in order, each by the worker that has waited longest: the \<open>j\<close>-th call goes to
  the worker at place \<open>j mod length ws\<close>. Neither clients nor workers are sent anything else, and all of them are
  ready for the next call.
\<close>

theorem turns_served:
  assumes "serving path q n ws cs s" and "ws \<noteq> []"
    and "word path" "path \<notin> set reserved" "single_name path"
    and "\<forall>(c, body, result) \<in> set calls. c \<in> cs \<and> length body < 2147483648 \<and> length result < 2147483648"
  shows "\<exists>s'. turns path ws calls s = (Inr (), s') \<and> serving path q n (rotate (length calls) ws) cs s' \<and>
    (\<forall>c \<in> cs. sent s' c = sent s c @ results_of c calls) \<and> (\<forall>w \<in> set ws. sent s' w = sent s w @ jobs_of path ws w calls)"
  using assms(1,2,6)
proof (induction calls arbitrary: ws s)
  case Nil
  then show ?case by (simp add: results_of_def jobs_of_def)
next
  case (Cons call calls)
  obtain w vs where ws: "ws = w # vs" using Cons.prems(2) by (cases ws) auto
  obtain c body result where call: "call = (c, body, result)" by (cases call)
  from serving_step [OF Cons.prems(1) [unfolded ws] _ assms(3-5), of c body result] Cons.prems(3) call obtain s1 s2 where
    1: "on_recv c (request_text ''POST'' path [] body) s = (Inr (), s1)" "on_recv w (request_text ''POST'' ''-'' [] result) s1 = (Inr (), s2)"
      "serving path q n (vs @ [w]) cs s2" "sent s2 c = sent s c @ response True ''200 OK'' [] result"
      "sent s2 w = sent s w @ response True ''200 OK'' [(''Name'', path)] body" "\<And>d. d \<noteq> c \<Longrightarrow> d \<noteq> w \<Longrightarrow> sent s2 d = sent s d"
    by auto
  from Cons.IH [OF 1(3)] Cons.prems(3) obtain s' where
    s': "turns path (vs @ [w]) calls s2 = (Inr (), s')" "serving path q n (rotate (length calls) (vs @ [w])) cs s'"
      "\<forall>c \<in> cs. sent s' c = sent s2 c @ results_of c calls"
      "\<forall>v \<in> set ws. sent s' v = sent s2 v @ jobs_of path (vs @ [w]) v calls"
    by (auto simp: ws)
  have apart: "c \<noteq> v" if "v \<in> set ws" for v
    using that Cons.prems(1,3) call by (auto simp: serving_def)
  have "turns path ws (call # calls) s = (Inr (), s')" using 1(1,2) s'(1) by (simp add: ws call thn_run)
  moreover have "serving path q n (rotate (length (call # calls)) ws) cs s'"
    using s'(2) by (simp add: ws rotate_Suc rotate1_rotate_swap)
  moreover have "sent s' d = sent s d @ results_of d (call # calls)" if "d \<in> cs" for d
  proof -
    have "d \<noteq> w" using that Cons.prems(1) by (auto simp: serving_def ws)
    then show ?thesis using that s'(3) 1(4) 1(6) [of d] by (cases "d = c") (simp_all add: results_of_def call)
  qed
  moreover have "sent s' v = sent s v @ jobs_of path ws v (call # calls)" if v: "v \<in> set ws" for v
    using s'(4) v apart [OF v] 1(5,6) jobs_of_step [of v w vs path c body result calls] by (auto simp: ws call)
  ultimately show ?case by blast
qed

theorem turns_served_witness:
  "\<exists>m s'. turns ''job'' [3] [(2, ''a'', ''x''), (2, ''b'', ''y'')] (demo m (demo_line [3] []) [2 \<mapsto> demo_conn 5, 3 \<mapsto> demo_mode 6]) =
       (Inr (), s') \<and>
     sent s' 2 = response True ''200 OK'' [] ''x'' @ response True ''200 OK'' [] ''y''"
proof -
  obtain m where m: "mapper_find m ''job'' = Inr (Suc 0)" using demo_mapper by blast
  let ?s = "demo m (demo_line [3] []) [2 \<mapsto> demo_conn 5, 3 \<mapsto> demo_mode 6]"
  have "serving ''job'' 0 0 [3] {2} ?s"
    using demo_line_of [OF m, of "demo_line [3] []" "[2 \<mapsto> demo_conn 5, 3 \<mapsto> demo_mode 6]"]
    by (auto simp: serving_def waits_def calls_from_def demo_mode_ok demo_reads)
  from turns_served [OF this, of "[(2, ''a'', ''x''), (2, ''b'', ''y'')]"] obtain s' where
    "turns ''job'' [3] [(2, ''a'', ''x''), (2, ''b'', ''y'')] ?s = (Inr (), s')"
    "sent s' 2 = sent ?s 2 @ results_of 2 [(2, ''a'', ''x''), (2, ''b'', ''y'')]"
    by (auto simp: reserved_def word_def single_name_def)
  then show ?thesis by (intro exI [of _ m] exI [of _ s']) (simp add: sent_def results_of_def)
qed

end
