(* ===== verification/Http_Dispatcher.thy ===== *)
theory Http_Dispatcher imports Http_Worker_Mode begin

text \<open>
  A queue as a dispatcher. Clients call a queue and workers in worker mode serve it, in whatever order their packets
  come; what everybody is sent is what a dispatcher with two lists in order of arrival computes: the free workers and the
  calls nobody has taken.
\<close>

section \<open>A request waits\<close>

lemma insert_last:
  assumes "\<forall>m \<in> set ms. msg_priority m = msg_priority msg"
  shows "insert_message msg ms = ms @ [msg]"
proof -
  have "\<forall>m \<in> set (rev ms). \<not> msg_priority m < msg_priority msg" using assms by simp
  then have "dropWhile (\<lambda>x. msg_priority x < msg_priority msg) (rev ms) = rev ms"
    "takeWhile (\<lambda>x. msg_priority x < msg_priority msg) (rev ms) = []"
    by (cases "rev ms"; simp)+
  then show ?thesis by (simp add: insert_message_def insert_loop_eq)
qed

text \<open>The connection of a client whose request waits in the queue.\<close>

definition stored :: "bytes \<Rightarrow> bytes \<Rightarrow> connect \<Rightarrow> connect" where
  "stored path body r = (wanted path body r)\<lparr>c_required_worker := [], c_name := path, c_link := c_link r + 1,
     c_status := Client_wait_result, c_http_step := Http_start\<rparr>"

lemma wanted_option: "c_header_option (wanted path body r) = []" "c_priority (wanted path body r) = 0"
  by (simp_all add: wanted_def has_read_def set_fields_def started_def)

lemma mode_call_stored:
  assumes line: "line_of s path q ql" "\<not> ql_locked ql" "c_nloop rc < length (ql_queue ql)" "c_nloop rc < length (s_loops s)"
    and free: "length (ql_queue ql) = s_threads s" "\<forall>x \<in> set (ql_queue ql). q_workers x = []"
    and client: "s_conns s c = Some rc" "reads_new rc"
    and request: "word verb" "word path" "path \<notin> set reserved" "length body < 2147483648"
  shows "\<exists>s1. on_recv c (request_text verb path [] body) s = (Inr (), s1) \<and>
    s_conns s1 = (s_conns s)(c \<mapsto> stored path body rc) \<and>
    s_queue_list s1 = (s_queue_list s)[q := Some (with_message (c_nloop rc) (client_message (wanted path body rc) c) ql)] \<and>
    s_wait_response s1 = s_wait_response s \<and> steady s s1"
proof -
  let ?rc = "wanted path body rc"
  from wanted_packet [OF client line(4) request] obtain ls where ls: "length ls = length (s_loops s)" and
    run: "on_recv c (request_text verb path [] body) s =
      thn (catch_invalid (thn (client_request (c_nloop rc) path c) (ret ())) (invalid_reply c)) (recv_end c [])
        (put_c c ?rc (s\<lparr>s_loops := ls\<rparr>))" by blast
  let ?s = "put_c c ?rc (s\<lparr>s_loops := ls\<rparr>)"
  have "line_of ?s path q ql" using line(1) by (simp add: line_of_def)
  from queued_run [OF this line(2,3), of c ?rc] obtain s1 where s1: "client_request (c_nloop rc) path c ?s = (Inr 0, s1)"
    "s_queue_list s1 = (s_queue_list s)[q := Some (with_message (c_nloop rc) (client_message ?rc c) ql)]"
    "s_conns s1 = (s_conns s)(c \<mapsto> ?rc\<lparr>c_required_worker := [], c_name := path, c_link := c_link rc + 1, c_status := Client_wait_result\<rparr>)"
    "s_wait_response s1 = s_wait_response s" "steady ?s s1"
    using line(4) free ls by (auto simp: wanted_sel wanted_option)
  have "s_conns s1 c = Some (?rc\<lparr>c_required_worker := [], c_name := path, c_link := c_link rc + 1, c_status := Client_wait_result\<rparr>)"
    using s1(3) by simp
  note e = packet_ends [OF this]
  show ?thesis
    unfolding run using s1 e ls by (simp add: thn_run catch_invalid_def wanted_sel stored_def steady_def)
qed

section \<open>A worker takes a request that waits\<close>

lemma find_waiting_run:
  assumes "has_ql q ql s" and "n < length (ql_queue ql)" and "q_clients (ql_queue ql ! n) = msg # ms"
    and "msg_conn msg = Some c" "msg_required msg = []" "s_conns s c = Some rc" "s_conns s w = Some rw" "c \<noteq> w" "c_noid rw"
    and "\<not> is_closed rc" "c_status rc = Client_wait_result"
  shows "find_message w q (loop_order n k) s = (Inr (Some (msg, [])),
    put_c c (rc\<lparr>c_status := Busy\<rparr>)
      ((put_ql q (ql\<lparr>ql_queue := (ql_queue ql)[n := (ql_queue ql ! n)\<lparr>q_clients := ms\<rparr>]\<rparr>) s)
        \<lparr>s_gc := s_gc s @ [Gc_message msg]\<rparr>))"
proof -
  let ?s1 = "(put_ql q (ql\<lparr>ql_queue := (ql_queue ql)[n := (ql_queue ql ! n)\<lparr>q_clients := ms\<rparr>]\<rparr>) s)
        \<lparr>s_gc := s_gc s @ [Gc_message msg]\<rparr>"
  have tr: "try_message w msg ?s1 = (Inr (Some []), put_c c (rc\<lparr>c_status := Busy\<rparr>) ?s1)"
    using assms(4,6-11) by (simp add: try_message_def bnd_run thn_run runs is_closed_def)
  have "pick_message w q n [] (msg # ms) s = (Inr (Some (msg, [])), put_c c (rc\<lparr>c_status := Busy\<rparr>) ?s1)"
    using assms(1,2,5) tr by (simp add: bnd_run [where m = "get_c w"] get_c_run [OF assms(7)] set_clients_def thn_run bnd_run runs gc_add_def)
  then show ?thesis using assms(1-3) by (simp add: loop_order_def bnd_run runs)
qed

lemma give_waiting_run:
  assumes "msg_conn msg = Some c" "s_conns s c = Some rc" "s_conns s w = Some rw" "c \<noteq> w"
    and "c_noid rw" "c_fail_on_disconnect rw" "\<not> is_closed rw" "c_nloop rw < length (s_loops s)"
  defines "text \<equiv> response (c_keep_alive rw) ''200 OK'' [(''Name'', c_name rc)] (c_body rc)"
  shows "\<exists>s'. give_message w msg sid s = (Inr 1, s') \<and> s_queue_list s' = s_queue_list s \<and>
    s_conns s' = (s_conns s)(c \<mapsto> rc\<lparr>c_link := c_link rc + 1\<rparr>,
      w \<mapsto> emitted text (rw\<lparr>c_client := Some c, c_status := Worker_wait_result\<rparr>)) \<and>
    s_wait_response s' = s_wait_response s \<and> steady s s'"
  unfolding text_def using assms(1-8)
  by (simp add: give_message_def attach_def bnd_run thn_run runs response_def buffered_conns is_closed_def fun_upd_twist steady_def)

definition unqueued :: "nat \<Rightarrow> message list \<Rightarrow> queue_line \<Rightarrow> queue_line" where
  "unqueued n ms ql = ql\<lparr>ql_queue := (ql_queue ql)[n := (ql_queue ql ! n)\<lparr>q_clients := ms\<rparr>]\<rparr>"

lemma serve_run:
  assumes line: "line_of s name q ql" "\<not> ql_locked ql" "n < length (ql_queue ql)"
    and head: "q_clients (ql_queue ql ! n) = msg # ms" "msg_conn msg = Some c" "msg_required msg = []"
    and client: "s_conns s c = Some rc" "c \<noteq> w" "\<not> is_closed rc" "c_status rc = Client_wait_result" "0 < c_link rc"
    and worker: "s_conns s w = Some rw" "keeps_mode name rw" "c_info rw = []" "c_nloop rw < length (s_loops s)"
    and "single_name name"
  defines "text \<equiv> response (c_keep_alive rw) ''200 OK'' [(''Name'', c_name rc)] (c_body rc)"
  shows "\<exists>s'. add_worker n name w s = (Inr (), s') \<and>
    s_conns s' = (s_conns s)(c \<mapsto> rc\<lparr>c_status := Busy\<rparr>, w \<mapsto> emitted text (rw\<lparr>c_client := Some c, c_status := Worker_wait_result\<rparr>)) \<and>
    s_queue_list s' = (s_queue_list s)[q := Some (unqueued n ms (ql\<lparr>ql_last_worker := uint (s_now s)\<rparr>))] \<and>
    s_wait_response s' = s_wait_response s \<and> steady s s'"
proof -
  let ?ql0 = "ql\<lparr>ql_last_worker := uint (s_now s)\<rparr>" and ?s1 = "searched n q ql s"
  let ?ql2 = "unqueued n ms (?ql0\<lparr>ql_locked := True\<rparr>)"
  let ?s2 = "put_c c (rc\<lparr>c_status := Busy\<rparr>) ((put_ql q ?ql2 ?s1)\<lparr>s_gc := [Gc_message msg]\<rparr>)"
  let ?rw = "emitted text (rw\<lparr>c_client := Some c, c_status := Worker_wait_result\<rparr>)"
  note m = keeps_modeD [OF worker(2)]
  have len: "q < length (s_queue_list s)" using line(1) by (simp add: line_of_def has_ql_def)
  have find: "find_message w q (loop_order n (s_threads s)) ?s1 = (Inr (Some (msg, [])), ?s2)"
    by (rule trans [OF find_waiting_run [where ql = "?ql0\<lparr>ql_locked := True\<rparr>" and rc = rc and rw = rw and msg = msg and ms = ms]])
      (use len line head client worker m in \<open>auto simp: has_ql_def unqueued_def\<close>)
  have "s_conns ?s2 c = Some (rc\<lparr>c_status := Busy\<rparr>)" "s_conns ?s2 w = Some rw" "c_nloop rw < length (s_loops ?s2)"
    using client(2) worker by simp_all
  from give_waiting_run [OF head(2) this(1,2) client(2) _ _ _ this(3), of "[]"] m obtain s3 where
    s3: "give_message w msg [] ?s2 = (Inr 1, s3)" "s_queue_list s3 = s_queue_list ?s2"
      "s_conns s3 = (s_conns s)(c \<mapsto> rc\<lparr>c_status := Busy, c_link := c_link rc + 1\<rparr>, w \<mapsto> ?rw)"
      "s_wait_response s3 = s_wait_response s" "steady ?s2 s3"
    by (auto simp: text_def fun_upd_twist)
  let ?s4 = "put_c c (rc\<lparr>c_status := Busy\<rparr>) ((put_ql q (?ql2\<lparr>ql_locked := False\<rparr>) s3)\<lparr>s_gc := s_gc s\<rparr>)"
  have give: "(case Some (msg, []) of Some (msg, sid) \<Rightarrow> give_message w msg sid | None \<Rightarrow> wait_job n q w) ?s2 = (Inr 1, s3)"
    using s3(1) by simp
  have "s_gc s3 = [Gc_message msg]" using s3(5) by (simp add: steady_def)
  then have "for_each (s_gc s3) gc_free ((put_ql q (?ql2\<lparr>ql_locked := False\<rparr>) s3)\<lparr>s_gc := s_gc s\<rparr>) = (Inr (), ?s4)"
    using head(2) client s3(3) by (simp add: thn_run delete_message_def runs)
  with mode_added [OF line(1,2) worker(1-3) assms(16) find give] s3(2,3) len m
  have "add_worker n name w s = (Inr (), ?s4)" by (simp add: has_ql_def)
  moreover have "?ql2\<lparr>ql_locked := False\<rparr> = unqueued n ms ?ql0" using line(2) by (cases ql) (simp add: unqueued_def)
  ultimately show ?thesis
    using s3 client(2) by (intro exI [of _ ?s4]) (simp add: steady_def fun_upd_twist)
qed

lemma mode_served:
  assumes worker: "s_conns s w = Some rw" "c_status rw = Worker_wait_result" "keeps_mode name rw" "c_client rw = Some c" "c \<noteq> w"
      "c_nloop rw < length (s_loops s)" "c_http_step rw = Http_start" "c_buffer rw = []"
    and client: "s_conns s c = Some rc" "1 < c_link rc" "\<not> is_closed rc" "c_nloop rc < length (s_loops s)"
    and request: "single_name name" "word verb" "word path" "path \<noteq> ''echo''" "length result < 2147483648"
    and line: "line_of s name q ql" "\<not> ql_locked ql" "c_nloop rw < length (ql_queue ql)"
    and head: "q_clients (ql_queue ql ! c_nloop rw) = msg # ms" "msg_conn msg = Some e" "msg_required msg = []"
    and next_client: "s_conns s e = Some re" "e \<noteq> w" "e \<noteq> c" "\<not> is_closed re" "c_status re = Client_wait_result" "0 < c_link re"
  shows "\<exists>s'. on_recv w (request_text verb path [] result) s = (Inr (), s') \<and>
    s_conns s' = (s_conns s)(c \<mapsto> emitted (response (c_keep_alive rc) ''200 OK'' [] result) (rc\<lparr>c_link := c_link rc - 1, c_status := Net\<rparr>),
      e \<mapsto> re\<lparr>c_status := Busy\<rparr>,
      w \<mapsto> (emitted (response True ''200 OK'' [(''Name'', c_name re)] (c_body re))
        ((rid path result rw)\<lparr>c_client := Some e, c_status := Worker_wait_result\<rparr>))\<lparr>c_http_step := Http_start\<rparr>) \<and>
    s_queue_list s' = (s_queue_list s)[q := Some (unqueued (c_nloop rw) ms (ql\<lparr>ql_last_worker := uint (s_now s)\<rparr>))] \<and>
    s_wait_response s' = s_wait_response s \<and> steady s s'"
proof -
  let ?r = "rid path result rw"
  from mode_result_ran [OF worker client request] obtain s1 where s1:
    "s_conns s1 = (s_conns s)(c \<mapsto> emitted (response (c_keep_alive rc) ''200 OK'' [] result)
        (rc\<lparr>c_link := c_link rc - 1, c_status := Net\<rparr>), w \<mapsto> ?r)"
    "s_queue_list s1 = s_queue_list s" "s_wait_response s1 = s_wait_response s" "steady s s1"
    and ends: "\<And>s2 r. add_worker (c_nloop rw) name w s1 = (Inr (), s2) \<Longrightarrow> s_conns s2 w = Some r \<Longrightarrow>
      c_http_step r = Http_request_completed \<Longrightarrow>
      on_recv w (request_text verb path [] result) s = (Inr (), put_c w (r\<lparr>c_http_step := Http_start\<rparr>) s2)"
    by blast
  have 1: "s_conns s1 w = Some ?r" "s_conns s1 e = Some re" using s1(1) next_client by simp_all
  have keep: "c_keep_alive ?r = True" by (simp add: rid_sel)
  have 2: "line_of s1 name q ql" "c_nloop ?r < length (s_loops s1)"
    using line(1) s1(2,4) worker(6) by (simp_all add: line_of_def has_ql_def steady_def rid_sel)
  from serve_run [OF 2(1) line(2,3) head 1(2) next_client(2,4-6) 1(1) rid_mode [OF worker(3)] rid_sel(3) 2(2) request(1), unfolded keep]
  obtain s2 where s2: "add_worker (c_nloop rw) name w s1 = (Inr (), s2)"
      "s_conns s2 = (s_conns s1)(e \<mapsto> re\<lparr>c_status := Busy\<rparr>,
        w \<mapsto> emitted (response True ''200 OK'' [(''Name'', c_name re)] (c_body re)) (?r\<lparr>c_client := Some e, c_status := Worker_wait_result\<rparr>))"
      "s_queue_list s2 = (s_queue_list s1)[q := Some (unqueued (c_nloop rw) ms (ql\<lparr>ql_last_worker := uint (s_now s1)\<rparr>))]"
      "s_wait_response s2 = s_wait_response s1" "steady s1 s2"
    by blast
  from ends [OF s2(1)] s2(2) s1 s2(3-5) next_client(3) show ?thesis
    by (simp add: rid_sel steady_def fun_upd_twist)
qed

section \<open>The dispatcher\<close>

text \<open>
  The free workers and the calls nobody has taken, both in the order in which they came, who serves whom, and what
  everybody has been sent.
\<close>

record dispatcher =
  d_idle :: "nat list"
  d_waiting :: "(nat \<times> bytes) list"
  d_served :: "(nat \<times> nat) list"
  d_sent :: "nat \<Rightarrow> bytes"

datatype packet = Asks nat bytes | Brings nat bytes

definition says :: "nat \<Rightarrow> bytes \<Rightarrow> dispatcher \<Rightarrow> dispatcher" where
  "says x text d = d\<lparr>d_sent := (d_sent d)(x := d_sent d x @ text)\<rparr>"

definition hands :: "bytes \<Rightarrow> nat \<Rightarrow> nat \<Rightarrow> bytes \<Rightarrow> dispatcher \<Rightarrow> dispatcher" where
  "hands path w c body d = says w (response True ''200 OK'' [(''Name'', path)] body) (d\<lparr>d_served := (w, c) # d_served d\<rparr>)"

definition answers :: "nat \<Rightarrow> nat \<Rightarrow> bytes \<Rightarrow> dispatcher \<Rightarrow> dispatcher" where
  "answers w c result d = says c (response True ''200 OK'' [] result) (d\<lparr>d_served := filter (\<lambda>(v, _). v \<noteq> w) (d_served d)\<rparr>)"

fun dispatch :: "bytes \<Rightarrow> packet \<Rightarrow> dispatcher \<Rightarrow> dispatcher" where
  "dispatch path (Asks c body) d = (case d_idle d of
     w # ws \<Rightarrow> hands path w c body (d\<lparr>d_idle := ws\<rparr>)
   | [] \<Rightarrow> d\<lparr>d_waiting := d_waiting d @ [(c, body)]\<rparr>)"
| "dispatch path (Brings w result) d = (case map_of (d_served d) w of
     None \<Rightarrow> d
   | Some c \<Rightarrow> (case d_waiting d of
       [] \<Rightarrow> answers w c result (d\<lparr>d_idle := d_idle d @ [w]\<rparr>)
     | (e, body) # rest \<Rightarrow> hands path w e body (answers w c result (d\<lparr>d_waiting := rest\<rparr>))))"

definition workers :: "dispatcher \<Rightarrow> nat list" where
  "workers d = d_idle d @ map fst (d_served d)"

definition callers :: "dispatcher \<Rightarrow> nat list" where
  "callers d = map fst (d_waiting d) @ map snd (d_served d)"

text \<open>A client has one call at a time, and a worker brings a result when it has been handed a call.\<close>

fun allowed :: "nat set \<Rightarrow> packet \<Rightarrow> dispatcher \<Rightarrow> bool" where
  "allowed cs (Asks c body) d = (c \<in> cs \<and> c \<notin> set (callers d) \<and> length body < 2147483648)"
| "allowed cs (Brings w result) d = (w \<in> set (map fst (d_served d)) \<and> length result < 2147483648)"

text \<open>The packets themselves.\<close>

fun deliver :: "bytes \<Rightarrow> packet \<Rightarrow> (server, unit) prog" where
  "deliver path (Asks c body) = on_recv c (request_text ''POST'' path [] body)"
| "deliver path (Brings w result) = on_recv w (request_text ''POST'' ''-'' [] result)"

section \<open>What a state of the server stands for\<close>

definition sound_dispatcher :: "nat set \<Rightarrow> dispatcher \<Rightarrow> bool" where
  "sound_dispatcher cs d = (distinct (workers d) \<and> distinct (callers d) \<and> set (workers d) \<inter> cs = {} \<and> set (callers d) \<subseteq> cs \<and>
     (d_idle d = [] \<or> d_waiting d = []))"

definition works_for :: "bytes \<Rightarrow> nat \<Rightarrow> nat \<Rightarrow> nat \<Rightarrow> server \<Rightarrow> bool" where
  "works_for path n w c s = (\<exists>r. s_conns s w = Some r \<and> keeps_mode path r \<and> c_client r = Some c \<and>
     c_status r = Worker_wait_result \<and> c_http_step r = Http_start \<and> c_buffer r = [] \<and> 0 < c_link r \<and> c_nloop r = n \<and> c_keep_alive r)"

definition owed :: "nat \<Rightarrow> nat \<Rightarrow> server \<Rightarrow> bool" where
  "owed n c s = (\<exists>r. s_conns s c = Some r \<and> reads_new (r\<lparr>c_status := Net\<rparr>) \<and> c_nloop r = n \<and> 0 \<le> c_socket_status r \<and>
     1 < c_link r \<and> c_keep_alive r)"

definition stands :: "bytes \<Rightarrow> nat \<Rightarrow> nat \<Rightarrow> bytes \<Rightarrow> server \<Rightarrow> bool" where
  "stands path n c body s = (owed n c s \<and>
     (\<exists>r. s_conns s c = Some r \<and> c_status r = Client_wait_result \<and> c_body r = body \<and> c_name r = path))"

definition asks_for :: "message \<Rightarrow> nat \<times> bytes \<Rightarrow> bool" where
  "asks_for msg call = (msg_conn msg = Some (fst call) \<and> msg_required msg = [] \<and> msg_priority msg = 0)"

definition only_queue :: "nat \<Rightarrow> queue_line \<Rightarrow> dispatcher \<Rightarrow> bool" where
  "only_queue n ql d = (\<not> ql_locked ql \<and> n < length (ql_queue ql) \<and> q_workers (ql_queue ql ! n) = d_idle d \<and>
     list_all2 asks_for (q_clients (ql_queue ql ! n)) (d_waiting d) \<and>
     (\<forall>r < length (ql_queue ql). r \<noteq> n \<longrightarrow> q_workers (ql_queue ql ! r) = [] \<and> q_clients (ql_queue ql ! r) = []))"

definition roles :: "bytes \<Rightarrow> nat \<Rightarrow> nat set \<Rightarrow> dispatcher \<Rightarrow> server \<Rightarrow> bool" where
  "roles path n cs d s = ((\<forall>w \<in> set (d_idle d). waits path n w s) \<and>
     (\<forall>(w, c) \<in> set (d_served d). works_for path n w c s \<and> owed n c s) \<and>
     (\<forall>(c, body) \<in> set (d_waiting d). stands path n c body s) \<and> (\<forall>c \<in> cs - set (callers d). calls_from n c s))"

definition stands_for :: "bytes \<Rightarrow> nat \<Rightarrow> nat \<Rightarrow> nat set \<Rightarrow> dispatcher \<Rightarrow> server \<Rightarrow> bool" where
  "stands_for path q n cs d s = (word path \<and> path \<notin> set reserved \<and> single_name path \<and> n < length (s_loops s) \<and>
     sound_dispatcher cs d \<and> (\<exists>ql. line_of s path q ql \<and> length (ql_queue ql) = s_threads s \<and> only_queue n ql d) \<and>
     roles path n cs d s \<and> sent s = d_sent d)"

lemma same_role:
  assumes "s_conns s' x = s_conns s x"
  shows "waits path n x s' = waits path n x s" "works_for path n x c s' = works_for path n x c s" "owed n x s' = owed n x s"
    "stands path n x body s' = stands path n x body s" "calls_from n x s' = calls_from n x s"
  using assms by (simp_all add: waits_def works_for_def owed_def stands_def calls_from_def)

text \<open>The queue after each of the three changes.\<close>

lemma only_took: "only_queue n ql d \<Longrightarrow> only_queue n (took n ws ql) (d\<lparr>d_idle := ws\<rparr>)"
  by (auto simp: only_queue_def took_def)

lemma only_stored:
  assumes "only_queue n ql d" "asks_for msg call"
  shows "only_queue n (with_message n msg ql) (d\<lparr>d_waiting := d_waiting d @ [call]\<rparr>)"
proof -
  have "\<forall>m \<in> set (q_clients (ql_queue ql ! n)). msg_priority m = msg_priority msg"
    using assms by (fastforce simp: only_queue_def asks_for_def list_all2_conv_all_nth in_set_conv_nth)
  with assms show ?thesis by (auto simp: only_queue_def with_message_def insert_last list_all2_appendI)
qed

lemma only_joined: "only_queue n ql d \<Longrightarrow> only_queue n (joined n w (ql\<lparr>ql_last_worker := t\<rparr>)) (d\<lparr>d_idle := d_idle d @ [w]\<rparr>)"
  by (auto simp: only_queue_def joined_def)

lemma only_unqueued:
  "only_queue n ql d \<Longrightarrow> q_clients (ql_queue ql ! n) = msg # ms \<Longrightarrow> d_waiting d = call # rest \<Longrightarrow>
   only_queue n (unqueued n ms (ql\<lparr>ql_last_worker := t\<rparr>)) (d\<lparr>d_waiting := rest\<rparr>)"
  by (auto simp: only_queue_def unqueued_def)

lemma only_same: "d_idle d' = d_idle d \<Longrightarrow> d_waiting d' = d_waiting d \<Longrightarrow> only_queue n ql d' = only_queue n ql d"
  by (simp add: only_queue_def)

section \<open>One packet\<close>

lemma says_sel [simp]:
  "d_idle (says x text d) = d_idle d" "d_waiting (says x text d) = d_waiting d" "d_served (says x text d) = d_served d"
  "d_sent (says x text d) = (d_sent d)(x := d_sent d x @ text)"
  by (simp_all add: says_def)

lemma hands_sel [simp]:
  "d_idle (hands path w c body d) = d_idle d" "d_waiting (hands path w c body d) = d_waiting d"
  "d_served (hands path w c body d) = (w, c) # d_served d"
  "d_sent (hands path w c body d) = (d_sent d)(w := d_sent d w @ response True ''200 OK'' [(''Name'', path)] body)"
  by (simp_all add: hands_def)

lemma answers_sel [simp]:
  "d_idle (answers w c result d) = d_idle d" "d_waiting (answers w c result d) = d_waiting d"
  "d_served (answers w c result d) = filter (\<lambda>(v, _). v \<noteq> w) (d_served d)"
  "d_sent (answers w c result d) = (d_sent d)(c := d_sent d c @ response True ''200 OK'' [] result)"
  by (simp_all add: answers_def)

lemma sentI: "s_conns s x = Some r \<Longrightarrow> sent s x = c_send_buffer r"
  by (simp add: sent_def)

lemma emitted_sent: "c_send_buffer (emitted text r) = c_send_buffer r @ text"
  by (simp add: emitted_def)

lemma new_served:
  assumes "reads_new rc" "0 \<le> c_socket_status rc" "0 < c_link rc" "c_nloop rc = n"
    and "s_conns s c = Some ((wanted path body rc)\<lparr>c_link := c_link rc + 1, c_status := Client_wait_result, c_http_step := Http_start\<rparr>)"
  shows "owed n c s"
  using assms by (simp add: owed_def reads_new_def wanted_sel) (simp add: wanted_def has_read_def set_fields_def started_def)

lemma rolesD:
  assumes "roles path n cs d s"
  shows "w \<in> set (d_idle d) \<Longrightarrow> waits path n w s" "(w, c) \<in> set (d_served d) \<Longrightarrow> works_for path n w c s"
    "(w, c) \<in> set (d_served d) \<Longrightarrow> owed n c s" "(c, body) \<in> set (d_waiting d) \<Longrightarrow> stands path n c body s"
    "c \<in> cs \<Longrightarrow> c \<notin> set (callers d) \<Longrightarrow> calls_from n c s"
  using assms by (auto simp: roles_def)

lemma in_fst_snd: "(a, b) \<in> set xs \<Longrightarrow> a \<in> fst ` set xs \<and> b \<in> snd ` set xs"
  by force

lemmas sound_simps = sound_dispatcher_def workers_def callers_def

lemma soundD:
  assumes "sound_dispatcher cs d"
  shows "(w, c) \<in> set (d_served d) \<Longrightarrow> w \<notin> cs \<and> c \<in> cs \<and> w \<notin> set (d_idle d)" "v \<in> set (d_idle d) \<Longrightarrow> v \<notin> cs"
    "(e, body) \<in> set (d_waiting d) \<Longrightarrow> e \<in> cs"
  using assms in_fst_snd [of w c "d_served d"] in_fst_snd [of e body "d_waiting d"] by (auto simp: sound_simps)

lemma others:
  assumes sound: "sound_dispatcher cs d" and c: "(w, c) \<in> set (d_served d)"
  shows "(v, e) \<in> set (d_served d) \<Longrightarrow> v \<noteq> w \<Longrightarrow> v \<noteq> c \<and> e \<noteq> c \<and> e \<noteq> w" "v \<in> set (d_idle d) \<Longrightarrow> v \<noteq> w \<and> v \<noteq> c"
    "(e, body) \<in> set (d_waiting d) \<Longrightarrow> e \<noteq> c \<and> e \<noteq> w"
    "x \<notin> fst ` set (d_waiting d) \<Longrightarrow> x \<notin> snd ` {p \<in> set (d_served d). fst p \<noteq> w} \<Longrightarrow> x \<noteq> c \<Longrightarrow> x \<notin> set (callers d)"
proof -
  note in_c = soundD(1) [OF sound c] in_fst_snd [OF c]
  have once: "distinct (map fst (d_served d))" "distinct (map snd (d_served d))" using sound by (auto simp: sound_simps)
  show "v \<noteq> c \<and> e \<noteq> c \<and> e \<noteq> w" if v: "(v, e) \<in> set (d_served d)" "v \<noteq> w"
    using eq_snd_iff soundD(1) [OF sound v(1)] in_c inj_onD [OF distinct_map [THEN iffD1, OF once(2), THEN conjunct2], of "(v, e)" "(w, c)"] v c
    by auto
  show "v \<noteq> w \<and> v \<noteq> c" if "v \<in> set (d_idle d)" using soundD(2) [OF sound that] in_c that by auto
  show "e \<noteq> c \<and> e \<noteq> w" if "(e, body) \<in> set (d_waiting d)"
    using soundD(3) [OF sound that] in_c in_fst_snd [OF that] sound by (auto simp: sound_simps)
  show "x \<notin> set (callers d)" if x: "x \<notin> fst ` set (d_waiting d)" "x \<notin> snd ` {p \<in> set (d_served d). fst p \<noteq> w}" "x \<noteq> c"
  proof
    assume "x \<in> set (callers d)"
    with x(1) obtain v where v: "(v, x) \<in> set (d_served d)" by (auto simp: callers_def)
    with x(2) have "v = w" by force
    with v c once(1) x(3) show False using eq_key_imp_eq_value by metis
  qed
qed

text \<open>Roles after a packet that changes the connections in \<open>X\<close>.\<close>

lemma roles_next:
  assumes old: "roles path n cs d s" and same: "\<And>x. x \<notin> X \<Longrightarrow> s_conns s' x = s_conns s x"
    and "\<And>w. w \<in> set (d_idle d') \<Longrightarrow> waits path n w s' \<or> w \<in> set (d_idle d) - X"
    and "\<And>w c. (w, c) \<in> set (d_served d') \<Longrightarrow> works_for path n w c s' \<and> owed n c s' \<or> (w, c) \<in> set (d_served d) \<and> w \<notin> X \<and> c \<notin> X"
    and "\<And>c body. (c, body) \<in> set (d_waiting d') \<Longrightarrow> stands path n c body s' \<or> (c, body) \<in> set (d_waiting d) \<and> c \<notin> X"
    and "\<And>c. c \<in> cs \<Longrightarrow> c \<notin> set (callers d') \<Longrightarrow> calls_from n c s' \<or> c \<notin> set (callers d) \<and> c \<notin> X"
  shows "roles path n cs d' s'"
proof -
  note at = same_role [OF same]
  have "waits path n w s'" if "w \<in> set (d_idle d')" for w
    using assms(3) [OF that] rolesD(1) [OF old, of w] at(1) [of w] by auto
  moreover have "works_for path n w c s' \<and> owed n c s'" if "(w, c) \<in> set (d_served d')" for w c
    using assms(4) [OF that] rolesD(2,3) [OF old, of w c] at(2) [of w] at(3) [of c] by auto
  moreover have "stands path n c body s'" if "(c, body) \<in> set (d_waiting d')" for c body
    using assms(5) [OF that] rolesD(4) [OF old, of c body] at(4) [of c] by auto
  moreover have "calls_from n c s'" if "c \<in> cs" "c \<notin> set (callers d')" for c
    using assms(6) [OF that] rolesD(5) [OF old, of c] that at(5) [of c] by auto
  ultimately show ?thesis by (auto simp: roles_def)
qed

lemma stands_forE:
  assumes "stands_for path q n cs d s"
  obtains ql where "word path" "path \<notin> set reserved" "single_name path" "n < length (s_loops s)" "sound_dispatcher cs d"
    "line_of s path q ql" "length (ql_queue ql) = s_threads s" "only_queue n ql d" "roles path n cs d s" "sent s = d_sent d"
  using assms by (auto simp: stands_for_def)

lemma stands_for_next:
  assumes "stands_for path q n cs d s" and "steady s s'" and "s_queue_list s' = (s_queue_list s)[q := Some ql']"
    and "length (ql_queue ql') = s_threads s" and "only_queue n ql' d'"
    and "sound_dispatcher cs d'" and "roles path n cs d' s'" and "sent s' = d_sent d'"
  shows "stands_for path q n cs d' s'"
  using assms by (fastforce simp: stands_for_def steady_def line_of_def has_ql_def)

lemma asks_idle:
  assumes "stands_for path q n cs d s" and idle: "d_idle d = w # ws" and ok: "allowed cs (Asks c body) d"
  shows "\<exists>s'. deliver path (Asks c body) s = (Inr (), s') \<and> stands_for path q n cs (dispatch path (Asks c body) d) s'"
proof -
  let ?d = "hands path w c body (d\<lparr>d_idle := ws\<rparr>)"
  from assms(1) obtain ql where path: "word path" "path \<notin> set reserved" "single_name path" and n: "n < length (s_loops s)"
    and sound: "sound_dispatcher cs d" and line: "line_of s path q ql" "length (ql_queue ql) = s_threads s" and only: "only_queue n ql d"
    and roles: "roles path n cs d s" and sent: "sent s = d_sent d" by (rule stands_forE)
  have c: "c \<in> cs" "c \<notin> set (callers d)" "length body < 2147483648" using ok by simp_all
  have apart: "c \<noteq> w" using sound idle c by (auto simp: sound_dispatcher_def workers_def)
  have q: "\<not> ql_locked ql" "n < length (ql_queue ql)" "q_workers (ql_queue ql ! n) = w # ws" using only idle by (simp_all add: only_queue_def)
  from rolesD(5) [OF roles c(1,2)] obtain rc where rc: "s_conns s c = Some rc" "reads_new rc" "c_nloop rc = n" "0 \<le> c_socket_status rc"
    "0 < c_link rc" by (auto simp: calls_from_def)
  from rolesD(1) [OF roles, of w] idle obtain rw where rw: "s_conns s w = Some rw" "mode_worker path rw" "c_status rw = Worker_wait_job"
    "1 < c_link rw" "c_nloop rw = n" "c_keep_alive rw" by (auto simp: waits_def)
  have kept: "keeps_mode path rw" "c_http_step rw = Http_start" "c_buffer rw = []" using rw(2) by (simp_all add: mode_worker_def)
  let ?text = "response True ''200 OK'' [(''Name'', path)] body"
  let ?rc = "(wanted path body rc)\<lparr>c_link := c_link rc + 1, c_status := Client_wait_result, c_http_step := Http_start\<rparr>"
  let ?rw = "emitted ?text (rw\<lparr>c_link := c_link rw - 1, c_client := Some c, c_status := Worker_wait_result\<rparr>)"
  have post: "word ''POST''" by (simp add: word_def)
  obtain s1 where s1: "on_recv c (request_text ''POST'' path [] body) s = (Inr (), s1)"
      "s_conns s1 = (s_conns s)(c \<mapsto> ?rc, w \<mapsto> ?rw)" "s_queue_list s1 = (s_queue_list s)[q := Some (took n ws ql)]" "steady s s1"
    using mode_call_ran [OF line(1) q(1) _ _ rc(1,2) _ rw(1) apart rw(3) _ rw(4) _ _ post path(1,2) c(3)]
      q(2,3) rc(3) rw(5,6) n keeps_modeD [OF kept(1)] by auto
  have new: "works_for path n w c s1" "owed n c s1"
    using s1(2) kept rw open_emitted [of "rw\<lparr>c_link := c_link rw - 1, c_client := Some c, c_status := Worker_wait_result\<rparr>" ?text]
      new_served [OF rc(2,4,5,3)] apart
    by (simp_all add: works_for_def keeps_mode_def) (simp add: emitted_def)
  have "stands_for path q n cs ?d s1"
  proof (rule stands_for_next [OF assms(1) s1(4,3)])
    show "length (ql_queue (took n ws ql)) = s_threads s" using line(2) by (simp add: took_def)
    show "only_queue n (took n ws ql) ?d" using only_took [OF only, of ws] only_same [of ?d "d\<lparr>d_idle := ws\<rparr>"] by simp
    show "sound_dispatcher cs ?d" using sound idle c by (auto simp: sound_simps)
    show "roles path n cs ?d s1"
      by (rule roles_next [OF roles, where X = "{c, w}"])
        (use s1(2) new sound idle c in \<open>auto simp: sound_simps dest: in_fst_snd\<close>)
    show "sent s1 = d_sent ?d"
    proof
      fix x show "sent s1 x = d_sent ?d x"
        using s1(2) sent [symmetric] rc(1) rw(1) by (cases "x = w"; cases "x = c") (auto simp: sent_def wanted_sel emitted_sent)
    qed
  qed
  with s1(1) idle show ?thesis by simp
qed

lemma asks_waiting:
  assumes "stands_for path q n cs d s" and idle: "d_idle d = []" and ok: "allowed cs (Asks c body) d"
  shows "\<exists>s'. deliver path (Asks c body) s = (Inr (), s') \<and> stands_for path q n cs (dispatch path (Asks c body) d) s'"
proof -
  let ?d = "d\<lparr>d_waiting := d_waiting d @ [(c, body)]\<rparr>"
  from assms(1) obtain ql where path: "word path" "path \<notin> set reserved" "single_name path" and n: "n < length (s_loops s)"
    and sound: "sound_dispatcher cs d" and line: "line_of s path q ql" "length (ql_queue ql) = s_threads s" and only: "only_queue n ql d"
    and roles: "roles path n cs d s" and sent: "sent s = d_sent d" by (rule stands_forE)
  have c: "c \<in> cs" "c \<notin> set (callers d)" "length body < 2147483648" using ok by simp_all
  have q: "\<not> ql_locked ql" "n < length (ql_queue ql)" "\<forall>x \<in> set (ql_queue ql). q_workers x = []"
    using only idle by (auto simp: only_queue_def in_set_conv_nth)
  from rolesD(5) [OF roles c(1,2)] obtain rc where rc: "s_conns s c = Some rc" "reads_new rc" "c_nloop rc = n" "0 \<le> c_socket_status rc"
    "0 < c_link rc" by (auto simp: calls_from_def)
  let ?msg = "client_message (wanted path body rc) c"
  have post: "word ''POST''" by (simp add: word_def)
  obtain s1 where s1: "on_recv c (request_text ''POST'' path [] body) s = (Inr (), s1)"
      "s_conns s1 = (s_conns s)(c \<mapsto> stored path body rc)" "s_queue_list s1 = (s_queue_list s)[q := Some (with_message n ?msg ql)]" "steady s s1"
    using mode_call_stored [OF line(1) q(1) _ _ line(2) q(3) rc(1,2) post path(1,2) c(3)] q(2) rc(3) n by auto
  have new: "stands path n c body s1"
    using s1(2) rc by (simp add: stands_def owed_def reads_new_def stored_def wanted_sel)
      (simp add: wanted_def has_read_def set_fields_def started_def)
  have "stands_for path q n cs ?d s1"
  proof (rule stands_for_next [OF assms(1) s1(4,3)])
    show "length (ql_queue (with_message n ?msg ql)) = s_threads s" using line(2) by (simp add: with_message_def)
    show "only_queue n (with_message n ?msg ql) ?d"
      by (rule only_stored [OF only]) (simp add: asks_for_def client_message_def wanted_sel wanted_option)
    show "sound_dispatcher cs ?d" using sound idle c by (auto simp: sound_simps)
    show "roles path n cs ?d s1"
      by (rule roles_next [OF roles, where X = "{c}"]) (use s1(2) new sound idle c in \<open>auto simp: sound_simps dest: in_fst_snd\<close>)
    show "sent s1 = d_sent ?d"
    proof
      fix x show "sent s1 x = d_sent ?d x"
        using s1(2) sent [symmetric] rc(1) by (cases "x = c") (auto simp: sent_def wanted_sel stored_def)
    qed
  qed
  with s1(1) idle show ?thesis by simp
qed

text \<open>A worker that serves, its client, and what both have become when the result has come.\<close>

lemma served_pair:
  assumes "stands_for path q n cs d s" and "allowed cs (Brings w result) d"
  obtains c rw rc where "(w, c) \<in> set (d_served d)" "map_of (d_served d) w = Some c" "c \<noteq> w"
    "s_conns s w = Some rw" "c_status rw = Worker_wait_result" "keeps_mode path rw" "c_client rw = Some c" "c_http_step rw = Http_start"
    "c_buffer rw = []" "0 < c_link rw" "c_nloop rw = n" "c_keep_alive rw"
    "s_conns s c = Some rc" "reads_new (rc\<lparr>c_status := Net\<rparr>)" "1 < c_link rc" "\<not> is_closed rc" "c_nloop rc = n" "0 \<le> c_socket_status rc"
    "c_keep_alive rc" "length result < 2147483648" "n < length (s_loops s)"
proof -
  from assms obtain c where c: "(w, c) \<in> set (d_served d)" and len: "length result < 2147483648" by auto
  have sound: "sound_dispatcher cs d" "roles path n cs d s" "n < length (s_loops s)" using assms(1) by (auto simp: stands_for_def)
  have "map_of (d_served d) w = Some c" "c \<noteq> w" using sound(1) c soundD(1) [OF sound(1) c] by (auto simp: sound_simps)
  with c len sound(3) rolesD(2,3) [OF sound(2) c] open_status that show thesis by (auto simp: works_for_def owed_def)
qed

lemma free_client:
  assumes "reads_new (rc\<lparr>c_status := Net\<rparr>)" "1 < c_link rc" "c_nloop rc = n" "0 \<le> c_socket_status rc"
    and "s_conns s c = Some (emitted text (rc\<lparr>c_link := c_link rc - 1, c_status := Net\<rparr>))"
  shows "calls_from n c s"
  using assms open_emitted [of "rc\<lparr>c_link := c_link rc - 1, c_status := Net\<rparr>" "text"]
  by (simp add: calls_from_def) (simp add: reads_new_def emitted_def)

lemma brings_idle:
  assumes "stands_for path q n cs d s" and waiting: "d_waiting d = []" and ok: "allowed cs (Brings w result) d"
  shows "\<exists>s'. deliver path (Brings w result) s = (Inr (), s') \<and> stands_for path q n cs (dispatch path (Brings w result) d) s'"
proof -
  from assms(1) obtain ql where path: "word path" "path \<notin> set reserved" "single_name path" and n: "n < length (s_loops s)"
    and sound: "sound_dispatcher cs d" and line: "line_of s path q ql" "length (ql_queue ql) = s_threads s" and only: "only_queue n ql d"
    and roles: "roles path n cs d s" and sent: "sent s = d_sent d" by (rule stands_forE)
  from served_pair [OF assms(1) ok] obtain c rw rc where c: "(w, c) \<in> set (d_served d)" "map_of (d_served d) w = Some c" "c \<noteq> w"
    and rw: "s_conns s w = Some rw" "c_status rw = Worker_wait_result" "keeps_mode path rw" "c_client rw = Some c" "c_http_step rw = Http_start"
    "c_buffer rw = []" "0 < c_link rw" "c_nloop rw = n" "c_keep_alive rw"
    and rc: "s_conns s c = Some rc" "reads_new (rc\<lparr>c_status := Net\<rparr>)" "1 < c_link rc" "\<not> is_closed rc" "c_nloop rc = n"
      "0 \<le> c_socket_status rc" "c_keep_alive rc" and len: "length result < 2147483648" .
  let ?d = "answers w c result (d\<lparr>d_idle := d_idle d @ [w]\<rparr>)" and ?ql = "joined n w (ql\<lparr>ql_last_worker := uint (s_now s)\<rparr>)"
  have q: "\<not> ql_locked ql" "n < length (ql_queue ql)" "q_workers (ql_queue ql ! n) = d_idle d" "\<forall>x \<in> set (ql_queue ql). q_clients x = []"
    using only waiting by (auto simp: only_queue_def in_set_conv_nth)
  have near: "bystanders c w (d_idle d) s" unfolding bystanders_def
  proof
    fix v assume v: "v \<in> set (d_idle d)"
    with rolesD(1) [OF roles, of v] obtain r where "s_conns s v = Some r" "\<not> is_closed r"
      by (auto simp: waits_def mode_worker_def dest: keeps_modeD)
    with v soundD(1) [OF sound c(1)] soundD(2) [OF sound v] show "v \<noteq> w \<and> v \<noteq> c \<and> (\<exists>r. s_conns s v = Some r \<and> \<not> is_closed r)"
      by auto
  qed
  have post: "word ''POST''" "word ''-''" by (simp_all add: word_def)
  obtain s1 where s1: "on_recv w (request_text ''POST'' ''-'' [] result) s = (Inr (), s1)"
      "s_conns s1 = (s_conns s)(c \<mapsto> emitted (response True ''200 OK'' [] result) (rc\<lparr>c_link := c_link rc - 1, c_status := Net\<rparr>),
        w \<mapsto> (rid ''-'' result rw)\<lparr>c_link := c_link rw + 1, c_status := Worker_wait_job, c_http_step := Http_start\<rparr>)"
      "s_queue_list s1 = (s_queue_list s)[q := Some ?ql]" "steady s s1"
    using mode_rejoined [OF rw(1-4) c(3) _ rw(5,6) rc(1,3,4) _ path(3) post _ len line(1) q(1) _ line(2) q(4)] near q(2,3) rw(8) rc(5,7) n
    by auto
  have new: "waits path n w s1" "calls_from n c s1"
    using s1(2) rw rid_mode [OF rw(3), of "''-''" result] free_client [OF rc(2,3,5,6)] c(3)
    by (simp_all add: waits_def mode_worker_def rid_sel keeps_mode_def)
  have "stands_for path q n cs ?d s1"
  proof (rule stands_for_next [OF assms(1) s1(4,3)])
    show "length (ql_queue ?ql) = s_threads s" using line(2) by (simp add: joined_def)
    show "only_queue n ?ql ?d" using only_joined [OF only, of w] only_same [of ?d "d\<lparr>d_idle := d_idle d @ [w]\<rparr>"] by simp
    show "sound_dispatcher cs ?d" using sound c waiting by (auto simp: sound_simps distinct_map_filter dest: in_fst_snd)
    have free: "x = c \<or> x \<notin> set (callers d) \<and> x \<notin> {c, w}" if "x \<in> cs" "x \<notin> set (callers ?d)" for x
      using that soundD(1) [OF sound c(1)] others(4) [OF sound c(1), of x] by (auto simp: callers_def split_def)
    show "roles path n cs ?d s1"
      by (rule roles_next [OF roles, where X = "{c, w}"])
        (use s1(2) new free c(3) waiting others(1-3) [OF sound c(1)] in \<open>auto simp: split_def\<close>)
    show "sent s1 = d_sent ?d"
    proof
      fix x show "sent s1 x = d_sent ?d x"
        using s1(2) sent [symmetric] rc(1) rw(1) c(3) by (cases "x = w"; cases "x = c") (auto simp: sent_def rid_sel emitted_sent)
    qed
  qed
  with s1(1) c waiting show ?thesis by simp
qed

lemma brings_waiting:
  assumes "stands_for path q n cs d s" and waiting: "d_waiting d = (e, body) # rest" and ok: "allowed cs (Brings w result) d"
  shows "\<exists>s'. deliver path (Brings w result) s = (Inr (), s') \<and> stands_for path q n cs (dispatch path (Brings w result) d) s'"
proof -
  from assms(1) obtain ql where path: "word path" "path \<notin> set reserved" "single_name path" and n: "n < length (s_loops s)"
    and sound: "sound_dispatcher cs d" and line: "line_of s path q ql" "length (ql_queue ql) = s_threads s" and only: "only_queue n ql d"
    and roles: "roles path n cs d s" and sent: "sent s = d_sent d" by (rule stands_forE)
  from served_pair [OF assms(1) ok] obtain c rw rc where c: "(w, c) \<in> set (d_served d)" "map_of (d_served d) w = Some c" "c \<noteq> w"
    and rw: "s_conns s w = Some rw" "c_status rw = Worker_wait_result" "keeps_mode path rw" "c_client rw = Some c" "c_http_step rw = Http_start"
    "c_buffer rw = []" "0 < c_link rw" "c_nloop rw = n" "c_keep_alive rw"
    and rc: "s_conns s c = Some rc" "reads_new (rc\<lparr>c_status := Net\<rparr>)" "1 < c_link rc" "\<not> is_closed rc" "c_nloop rc = n"
      "0 \<le> c_socket_status rc" "c_keep_alive rc" and len: "length result < 2147483648" .
  have e: "e \<noteq> c" "e \<noteq> w" "e \<in> cs" using others(3) [OF sound c(1), of e body] soundD(3) [OF sound, of e body] waiting by auto
  from rolesD(4) [OF roles, of e body] waiting obtain re where re: "s_conns s e = Some re" "reads_new (re\<lparr>c_status := Net\<rparr>)"
    "1 < c_link re" "c_nloop re = n" "0 \<le> c_socket_status re" "c_keep_alive re" "c_status re = Client_wait_result" "c_body re = body"
    "c_name re = path" by (auto simp: stands_def owed_def)
  have q: "\<not> ql_locked ql" "n < length (ql_queue ql)" using only by (simp_all add: only_queue_def)
  from only waiting obtain msg ms where msg: "q_clients (ql_queue ql ! n) = msg # ms" "msg_conn msg = Some e" "msg_required msg = []"
    by (auto simp: only_queue_def asks_for_def list_all2_Cons2)
  let ?d = "hands path w e body (answers w c result (d\<lparr>d_waiting := rest\<rparr>))"
  let ?ql = "unqueued n ms (ql\<lparr>ql_last_worker := uint (s_now s)\<rparr>)"
  let ?text = "response True ''200 OK'' [(''Name'', path)] body"
  let ?rw = "(emitted ?text ((rid ''-'' result rw)\<lparr>c_client := Some e, c_status := Worker_wait_result\<rparr>))\<lparr>c_http_step := Http_start\<rparr>"
  have post: "word ''POST''" "word ''-''" by (simp_all add: word_def)
  obtain s1 where s1: "on_recv w (request_text ''POST'' ''-'' [] result) s = (Inr (), s1)"
      "s_conns s1 = (s_conns s)(c \<mapsto> emitted (response True ''200 OK'' [] result) (rc\<lparr>c_link := c_link rc - 1, c_status := Net\<rparr>),
        e \<mapsto> re\<lparr>c_status := Busy\<rparr>, w \<mapsto> ?rw)"
      "s_queue_list s1 = (s_queue_list s)[q := Some ?ql]" "steady s s1"
    using mode_served [OF rw(1-4) c(3) _ rw(5,6) rc(1,3,4) _ path(3) post _ len line(1) q(1) _ _ msg(2,3) re(1) e(2,1) open_status [OF re(5)] re(7)]
      msg(1) q(2) rw(8) rc(5,7) re(3,8,9) n by auto
  have new: "works_for path n w e s1" "owed n e s1" "calls_from n c s1"
  proof -
    show "works_for path n w e s1"
      using s1(2) rw rid_mode [OF rw(3), of "''-''" result]
        open_emitted [of "(rid ''-'' result rw)\<lparr>c_client := Some e, c_status := Worker_wait_result\<rparr>" ?text]
      by (simp add: works_for_def keeps_mode_def) (simp add: emitted_def rid_sel)
    show "owed n e s1" using s1(2) re e by (simp add: owed_def)
    show "calls_from n c s1" using s1(2) free_client [OF rc(2,3,5,6)] c(3) e(1) by simp
  qed
  have "stands_for path q n cs ?d s1"
  proof (rule stands_for_next [OF assms(1) s1(4,3)])
    show "length (ql_queue ?ql) = s_threads s" using line(2) by (simp add: unqueued_def)
    show "only_queue n ?ql ?d" using only_unqueued [OF only msg(1) waiting] only_same [of ?d "d\<lparr>d_waiting := rest\<rparr>"] by simp
    show "sound_dispatcher cs ?d" using sound c e waiting by (auto simp: sound_simps distinct_map_filter dest: in_fst_snd)
    have free: "x = c \<or> x \<notin> set (callers d) \<and> x \<notin> {c, e, w}" if "x \<in> cs" "x \<notin> set (callers ?d)" for x
      using that soundD(1) [OF sound c(1)] others(4) [OF sound c(1), of x] waiting by (auto simp: callers_def split_def)
    have apart: "v \<noteq> e" "f \<noteq> e" if "(v, f) \<in> set (d_served d)" for v f
      using soundD(1) [OF sound that] in_fst_snd [OF that] e(3) sound waiting by (auto simp: sound_simps)
    have rest: "f \<noteq> e" "(f, b) \<in> set (d_waiting d)" if "(f, b) \<in> set rest" for f b
      using in_fst_snd [OF that] that sound waiting by (auto simp: sound_simps)
    have idle: "v \<noteq> e" if "v \<in> set (d_idle d)" for v using soundD(2) [OF sound that] e(3) by auto
    show "roles path n cs ?d s1"
    proof (rule roles_next [OF roles, where X = "{c, e, w}"])
      show "s_conns s1 x = s_conns s x" if "x \<notin> {c, e, w}" for x using that s1(2) by simp
      show "waits path n v s1 \<or> v \<in> set (d_idle d) - {c, e, w}" if "v \<in> set (d_idle ?d)" for v
        using that idle [of v] others(2) [OF sound c(1), of v] by simp
      show "works_for path n v f s1 \<and> owed n f s1 \<or> (v, f) \<in> set (d_served d) \<and> v \<notin> {c, e, w} \<and> f \<notin> {c, e, w}"
        if "(v, f) \<in> set (d_served ?d)" for v f
        using that new apart [of v f] others(1) [OF sound c(1), of v f] by auto
      show "stands path n f b s1 \<or> (f, b) \<in> set (d_waiting d) \<and> f \<notin> {c, e, w}" if "(f, b) \<in> set (d_waiting ?d)" for f b
        using that rest [of f b] others(3) [OF sound c(1), of f b] by simp
      show "calls_from n x s1 \<or> x \<notin> set (callers d) \<and> x \<notin> {c, e, w}" if "x \<in> cs" "x \<notin> set (callers ?d)" for x
        using free [OF that] new(3) by auto
    qed
    show "sent s1 = d_sent ?d"
    proof
      fix x show "sent s1 x = d_sent ?d x"
        using s1(2) sent [symmetric] rc(1) rw(1) re(1) e c(3)
        by (cases "x = w"; cases "x = c"; cases "x = e") (auto simp: sent_def rid_sel emitted_sent)
    qed
  qed
  with s1(1) c waiting show ?thesis by simp
qed

section \<open>Any order of packets\<close>

text \<open>Programs that follow a specification packet by packet follow it through any list of allowed packets.\<close>

fun all_allowed :: "('p \<Rightarrow> 'd \<Rightarrow> bool) \<Rightarrow> ('p \<Rightarrow> 'd \<Rightarrow> 'd) \<Rightarrow> 'p list \<Rightarrow> 'd \<Rightarrow> bool" where
  "all_allowed ok spec [] d = True"
| "all_allowed ok spec (p # ps) d = (ok p d \<and> all_allowed ok spec ps (spec p d))"

locale packet_simulation =
  fixes rel :: "'d \<Rightarrow> 's \<Rightarrow> bool" and ok :: "'p \<Rightarrow> 'd \<Rightarrow> bool" and spec :: "'p \<Rightarrow> 'd \<Rightarrow> 'd" and run :: "'p \<Rightarrow> ('s, unit) prog"
  assumes one: "rel d s \<Longrightarrow> ok p d \<Longrightarrow> \<exists>s'. run p s = (Inr (), s') \<and> rel (spec p d) s'"
begin

lemma many: "rel d s \<Longrightarrow> all_allowed ok spec ps d \<Longrightarrow> \<exists>s'. for_each ps run s = (Inr (), s') \<and> rel (fold spec ps d) s'"
proof (induction ps arbitrary: d s)
  case (Cons p ps)
  from one [OF Cons.prems(1), of p] Cons.prems(2) obtain s1 where s1: "run p s = (Inr (), s1)" "rel (spec p d) s1" by auto
  from Cons.IH [OF s1(2)] Cons.prems(2) s1(1) show ?case by (auto simp: thn_run)
qed simp

end

lemma deliver_one:
  assumes "stands_for path q n cs d s" and "allowed cs p d"
  shows "\<exists>s'. deliver path p s = (Inr (), s') \<and> stands_for path q n cs (dispatch path p d) s'"
proof (cases p)
  case (Asks c body)
  with assms asks_idle [OF assms(1)] asks_waiting [OF assms(1)] show ?thesis by (cases "d_idle d") blast+
next
  case (Brings w result)
  with assms brings_idle [OF assms(1)] brings_waiting [OF assms(1)] show ?thesis by (cases "d_waiting d") (blast, metis surj_pair)
qed

interpretation queue_sim: packet_simulation "stands_for path q n cs" "allowed cs" "dispatch path" "deliver path" for path q n cs
  by unfold_locales (rule deliver_one)

text \<open>
  Claim C3. The server refines the dispatcher. From a state that stands for a dispatcher, any list of packets in which each
  client asks only when it has no open call and each worker brings a result only when it serves one is handled without an
  error, and the state stands for what the dispatcher computes: a call goes to the worker that has been free for longest
  or waits behind the earlier calls, a result goes to the client whose call the worker serves, and a worker that has brought
  one takes the call that has waited longest or becomes the last of the free ones. Every connection of the server, also those
  without a part in this, has been sent exactly what the dispatcher says.
\<close>

theorem dispatcher_refined:
  assumes "stands_for path q n cs d s" and "all_allowed (allowed cs) (dispatch path) packets d"
  shows "\<exists>s'. for_each packets (deliver path) s = (Inr (), s') \<and> stands_for path q n cs (fold (dispatch path) packets d) s' \<and>
    sent s' = d_sent (fold (dispatch path) packets d)"
  using queue_sim.many [OF assms] by (auto simp: stands_for_def)

text \<open>A worker, two clients: the second call waits until the worker has brought the result of the first.\<close>

definition demo_packets :: "packet list" where
  "demo_packets = [Asks 2 ''a'', Asks 4 ''b'', Brings 3 ''x'', Brings 3 ''y'']"

theorem dispatcher_refined_witness:
  "\<exists>m s'. for_each demo_packets (deliver ''job'') (demo m (demo_line [3] []) [2 \<mapsto> demo_conn 5, 3 \<mapsto> demo_mode 6, 4 \<mapsto> demo_conn 7]) =
       (Inr (), s') \<and>
     sent s' 2 = response True ''200 OK'' [] ''x'' \<and> sent s' 4 = response True ''200 OK'' [] ''y'' \<and>
     sent s' 3 = response True ''200 OK'' [(''Name'', ''job'')] ''a'' @ response True ''200 OK'' [(''Name'', ''job'')] ''b''"
proof -
  obtain m where m: "mapper_find m ''job'' = Inr (Suc 0)" using demo_mapper by blast
  let ?cs = "[2 \<mapsto> demo_conn 5, 3 \<mapsto> demo_mode 6, 4 \<mapsto> demo_conn 7]"
  let ?s = "demo m (demo_line [3] []) ?cs" and ?d = "\<lparr>d_idle = [3], d_waiting = [], d_served = [], d_sent = \<lambda>_. []\<rparr>"
  have "sent ?s = (\<lambda>_. [])" by (auto simp: sent_def demo_mode_ok)
  then have "stands_for ''job'' 0 0 {2, 4} ?d ?s"
    using demo_line_of [OF m, of "demo_line [3] []" ?cs]
    by (auto simp: stands_for_def sound_simps only_queue_def roles_def waits_def calls_from_def demo_mode_ok demo_reads
        reserved_def word_def single_name_def)
  from dispatcher_refined [OF this, of demo_packets] obtain s' where
    "for_each demo_packets (deliver ''job'') ?s = (Inr (), s')" "sent s' = d_sent (fold (dispatch ''job'') demo_packets ?d)"
    by (auto simp: demo_packets_def callers_def hands_def answers_def says_def)
  then show ?thesis by (intro exI [of _ m] exI [of _ s']) (simp add: demo_packets_def hands_def answers_def says_def)
qed

end
