(* ===== verification/Startup.thy ===== *)
theory Startup imports Event_Loop Numerals begin

text \<open>
  The start of the program: the command line of src/main.cpp, the number of loops of \<^verbatim>\<open>Server::start\<close>, and the
  locks over the loops, which are exact for every server started this way. What \<^verbatim>\<open>main\<close> prints before it exits is
  left out; \<open>inet\<close> is \<^verbatim>\<open>inet_addr\<close>, \<open>docker\<close> whether the build defines \<^verbatim>\<open>DOCKER\<close>.
\<close>

section \<open>The command line\<close>

record options =
  o_host :: bytes
  o_port :: int
  o_threads :: int
  o_log :: int
  o_jsonrpc2 :: bool
  o_filters :: "net_filter list"

text \<open>The value \<^verbatim>\<open>main\<close> returns or an exception it does not catch, or the server it starts.\<close>

datatype stop = Exit int | Abort exn

datatype outcome = Stop stop | Start options

text \<open>The options that take an argument; a missing one is an invalid view.\<close>

definition set_host :: "bytes \<Rightarrow> options \<Rightarrow> stop + options" where
  "set_host nxt opt = (case split_left CHR '':'' nxt of (h, p) \<Rightarrow>
     let opt = (if h \<noteq> [] then opt\<lparr>o_host := h\<rparr> else opt) in
     if p = [] then Inr opt
     else (case atoi p of Inl _ \<Rightarrow> Inl (Exit 1) | Inr n \<Rightarrow> Inr (opt\<lparr>o_port := to_i32 n\<rparr>)))"

definition add_filter :: "(bytes \<Rightarrow> 32 word) \<Rightarrow> bytes \<Rightarrow> options \<Rightarrow> stop + options" where
  "add_filter inet nxt opt = (case new_net_filter inet nxt of
     Inl e \<Rightarrow> Inl (Abort e)
   | Inr f \<Rightarrow> Inr (opt\<lparr>o_filters := o_filters opt @ [f],
       o_host := (if o_host opt = [] then ''0.0.0.0'' else o_host opt)\<rparr>))"

definition set_log :: "bytes \<Rightarrow> options \<Rightarrow> stop + options" where
  "set_log nxt opt = (case atoi nxt of Inl _ \<Rightarrow> Inl (Exit 1) | Inr n \<Rightarrow> Inr (opt\<lparr>o_log := to_i32 n\<rparr>))"

definition set_threads :: "bytes option \<Rightarrow> options \<Rightarrow> stop + options" where
  "set_threads nxt opt =
     (let n = (case nxt of None \<Rightarrow> - 1 | Some s \<Rightarrow> (case atoi s of Inl _ \<Rightarrow> - 1 | Inr n \<Rightarrow> to_i32 n)) in
      if n < 0 \<or> n > 32 then Inl (Exit 1) else Inr (opt\<lparr>o_threads := n\<rparr>))"

fun main_loop :: "(bytes \<Rightarrow> 32 word) \<Rightarrow> bytes list \<Rightarrow> options \<Rightarrow> stop + options" where
  "main_loop inet [] opt = Inr opt"
| "main_loop inet [s] opt =
     (if equal_lit s ''--host'' then Inl (Exit 1)
      else if equal_lit s ''--filter'' then Inl (Exit 1)
      else if equal_lit s ''--log'' then Inl (Exit 1)
      else if equal_lit s ''--help'' then Inl (Exit 0)
      else if equal_lit s ''--jsonrpc2'' then Inr (opt\<lparr>o_jsonrpc2 := True\<rparr>)
      else if equal_lit s ''--version'' then Inl (Exit 0)
      else if equal_lit s ''--threads'' then set_threads None opt
      else Inl (Exit 1))"
| "main_loop inet (s # nxt # args) opt =
     (let cont = (\<lambda>r. case r of Inl x \<Rightarrow> Inl x | Inr opt \<Rightarrow> main_loop inet args opt) in
      if equal_lit s ''--host'' then cont (set_host nxt opt)
      else if equal_lit s ''--filter'' then cont (add_filter inet nxt opt)
      else if equal_lit s ''--log'' then cont (set_log nxt opt)
      else if equal_lit s ''--help'' then Inl (Exit 0)
      else if equal_lit s ''--jsonrpc2'' then main_loop inet (nxt # args) (opt\<lparr>o_jsonrpc2 := True\<rparr>)
      else if equal_lit s ''--version'' then Inl (Exit 0)
      else if equal_lit s ''--threads'' then cont (set_threads (Some nxt) opt)
      else Inl (Exit 1))"

definition default_options :: options where
  "default_options = \<lparr>o_host = [], o_port = 8001, o_threads = 1, o_log = 15, o_jsonrpc2 = False, o_filters = []\<rparr>"

text \<open>\<^verbatim>\<open>main\<close> without the name of the program.\<close>

definition main_args :: "bool \<Rightarrow> (bytes \<Rightarrow> 32 word) \<Rightarrow> bytes list \<Rightarrow> outcome" where
  "main_args docker inet args = (case main_loop inet args default_options of
     Inl x \<Rightarrow> Stop x
   | Inr opt \<Rightarrow> Start (if o_host opt = [] then opt\<lparr>o_host := if docker then ''0.0.0.0'' else ''127.0.0.1''\<rparr> else opt))"

section \<open>The server started\<close>






section \<open>What the options can be\<close>




lemma main_loop_host: "main_loop inet args opt = Inr os \<Longrightarrow> o_host opt \<noteq> [] \<Longrightarrow> o_host os \<noteq> []"
proof (induction inet args opt rule: main_loop.induct)
  case (3 inet s nxt args opt)
  have "o_host x \<noteq> []" if "set_host nxt opt = Inr x \<or> add_filter inet nxt opt = Inr x \<or> set_log nxt opt = Inr x \<or>
      set_threads (Some nxt) opt = Inr x" for x
    using that "3.prems"(2) by (auto simp: set_host_def add_filter_def set_log_def set_threads_def Let_def
        split: prod.splits if_splits sum.splits)
  with 3 show ?case by (auto simp: Let_def split: if_splits sum.splits)
qed (auto simp: set_threads_def split: if_splits)




text \<open>The command line that asks for given options.\<close>

definition render_options :: "options \<Rightarrow> bytes list" where
  "render_options opt = [''--host'', o_host opt @ CHR '':'' # number_bytes (o_port opt),
     ''--threads'', number_bytes (o_threads opt), ''--log'', number_bytes (o_log opt)] @
     (if o_jsonrpc2 opt then [''--jsonrpc2''] else [])"

lemma set_host_render:
  assumes "h \<noteq> []" "CHR '':'' \<notin> set h" "0 < n" "n < 2 ^ 31"
  shows "set_host (h @ CHR '':'' # number_bytes n) opt = Inr (opt\<lparr>o_host := h, o_port := n\<rparr>)"
proof -
  have "atoi (number_bytes n) = Inr n" using assms by (intro atoi_number_bytes_pos) auto
  moreover from this have "number_bytes n \<noteq> []" by (auto simp: atoi_def)
  moreover have "to_i32 n = n" using assms by (intro to_i32_id) auto
  ultimately show ?thesis using assms(1,2) by (simp add: set_host_def split_left_eq)
qed

lemma set_number_render:
  assumes "0 < n" "n < 2 ^ 31"
  shows "set_log (number_bytes n) opt = Inr (opt\<lparr>o_log := n\<rparr>)"
    and "n \<le> 32 \<Longrightarrow> set_threads (Some (number_bytes n)) opt = Inr (opt\<lparr>o_threads := n\<rparr>)"
proof -
  have "atoi (number_bytes n) = Inr n" using assms by (intro atoi_number_bytes_pos) auto
  moreover have "to_i32 n = n" using assms by (intro to_i32_id) auto
  ultimately show "set_log (number_bytes n) opt = Inr (opt\<lparr>o_log := n\<rparr>)"
    and "n \<le> 32 \<Longrightarrow> set_threads (Some (number_bytes n)) opt = Inr (opt\<lparr>o_threads := n\<rparr>)"
    using assms by (simp_all add: set_log_def set_threads_def)
qed

section \<open>Properties\<close>



text \<open>
  The command line is read back: the options written as arguments, a host without a colon, a port,
  a number of threads and a log mask, start the server with exactly these options.
\<close>

theorem options_roundtrip:
  assumes "o_host opt \<noteq> []" "CHR '':'' \<notin> set (o_host opt)" "0 < o_port opt" "o_port opt < 2 ^ 31"
    and "1 \<le> o_threads opt" "o_threads opt \<le> 32" "0 < o_log opt" "o_log opt < 2 ^ 31" "o_filters opt = []"
  shows "main_args docker inet (render_options opt) = Start opt"
proof -
  let ?o = "default_options\<lparr>o_host := o_host opt, o_port := o_port opt, o_threads := o_threads opt, o_log := o_log opt\<rparr>"
  have "main_loop inet (render_options opt) default_options =
    main_loop inet (if o_jsonrpc2 opt then [''--jsonrpc2''] else []) ?o"
    using assms by (simp add: render_options_def set_host_render set_number_render)
  also have "\<dots> = Inr (?o\<lparr>o_jsonrpc2 := o_jsonrpc2 opt\<rparr>)"
    by (simp add: default_options_def)
  also have "?o\<lparr>o_jsonrpc2 := o_jsonrpc2 opt\<rparr> = opt"
    using assms(9) by (cases opt) (simp add: default_options_def)
  finally show ?thesis using assms(1) by (simp add: main_args_def)
qed

theorem options_roundtrip_witness:
  "main_args True (\<lambda>_. 0) (render_options \<lparr>o_host = ''10.0.0.1'', o_port = 80, o_threads = 4, o_log = 7,
     o_jsonrpc2 = True, o_filters = []\<rparr>) =
   Start \<lparr>o_host = ''10.0.0.1'', o_port = 80, o_threads = 4, o_log = 7, o_jsonrpc2 = True, o_filters = []\<rparr>"
  by (rule options_roundtrip) simp_all

text \<open>
  Claim C36. With at most 32 loops, none of whose locks is held, \<^verbatim>\<open>autolock(except)\<close> takes the lock of every loop
  but \<^verbatim>\<open>except\<close>, each once and without blocking, and the destructor of the object it returns frees exactly
  these: every loop is as before. In particular bit 31 of the mask, which the 32-bit shift extends to all
  higher bits, is counted once.
\<close>

theorem autolock_exact:
  assumes "s_threads s \<le> 32" "length (s_loops s) = s_threads s" "\<forall>l \<in> set (s_loops s). \<not> l_del_locked l"
  shows "\<exists>held s'. autolock except s = (Inr held, s') \<and> length (s_loops s') = s_threads s \<and>
    (\<forall>i < s_threads s. l_del_locked (s_loops s' ! i) = (except \<noteq> Some i)) \<and>
    unlock held s' = (Inr (), s)"
proof -
  let ?A = "{n. n < s_threads s \<and> except \<noteq> Some n}"
  from autolock_run [OF assms, of except] obtain held where
    h: "autolock except s = (Inr held, s\<lparr>s_loops := mark True ?A (s_loops s)\<rparr>)" "holds ?A held" by auto
  have "unlock held (s\<lparr>s_loops := mark True ?A (s_loops s)\<rparr>) = (Inr (), s)"
    by (rule trans [OF unlock_run [where ls = "s_loops s" and A = ?A]]) (use assms h in auto)
  with h(1) assms show ?thesis
    by (intro exI conjI) (assumption | simp)+
qed

theorem autolock_exact_witness:
  "\<exists>held s'. autolock (Some 1) (new_server 3 False ''1'' 0 (\<lambda>_. 0) 0 calm_memory) = (Inr held, s') \<and>
     map l_del_locked (s_loops s') = [True, False, True] \<and> unlock held s' = (Inr (), new_server 3 False ''1'' 0 (\<lambda>_. 0) 0 calm_memory)"
proof -
  let ?s = "new_server 3 False ''1'' 0 (\<lambda>_. 0) 0 calm_memory"
  have t: "s_threads ?s = 3" "length (s_loops ?s) = 3" "\<forall>l \<in> set (s_loops ?s). \<not> l_del_locked l"
    by (auto simp: new_server_def start_threads_def new_loop_def)
  have "s_threads ?s \<le> 32" "length (s_loops ?s) = s_threads ?s" unfolding t(1,2) by simp_all
  from autolock_exact [OF this t(3), of "Some 1", unfolded t(1)] obtain held s' where
    s': "autolock (Some 1) ?s = (Inr held, s')" "length (s_loops s') = 3"
    "\<forall>i < 3. l_del_locked (s_loops s' ! i) = (Some 1 \<noteq> Some i)" "unlock held s' = (Inr (), ?s)"
    by blast
  then have "map l_del_locked (s_loops s') = [True, False, True]"
    by (intro nth_equalityI) (auto simp: less_Suc_eq numeral_3_eq_3)
  with s'(1,4) show ?thesis by (intro exI conjI)
qed

end
