(* ===== verification/Clock.thy ===== *)
theory Clock imports Event_Loop Numerals begin

text \<open>
  Clocks: the readings of src/utils.cpp and src/service.cpp as machine integers, the time of day that starts every
  line of the log (\<^verbatim>\<open>ltime\<close>), and the balancer of src/service.cpp over its clock readings.
\<close>

section \<open>Readings\<close>

text \<open>Seconds with microseconds or nanoseconds, as the kernel gives them, in 64 bits; seconds alone in 32.\<close>

definition get_time :: "int \<Rightarrow> int \<Rightarrow> 64 word" where
  "get_time tv_sec tv_usec = word_of_int (tv_sec * 1000000 + tv_usec)"

definition get_time_sec :: "int \<Rightarrow> 32 word" where
  "get_time_sec tv_sec = word_of_int tv_sec"

definition get_ntime :: "int \<Rightarrow> int \<Rightarrow> 64 word" where
  "get_ntime tv_sec tv_nsec = word_of_int tv_sec * 1000000000 + word_of_int tv_nsec"

section \<open>The time of day\<close>

text \<open>What \<^verbatim>\<open>localtime\<close> gives: years since 1900, months from 0.\<close>

record tm =
  tm_year :: int
  tm_mon :: int
  tm_mday :: int
  tm_hour :: int
  tm_min :: int
  tm_sec :: int

definition add_two :: "(int \<Rightarrow> bool) \<Rightarrow> int \<Rightarrow> (buffer, unit) prog" where
  "add_two ok n = thn (whenp (n < 10) (buf_add ok (Some ''0''))) (buf_add_number ok n)"

text \<open>The text is written to the one buffer \<^verbatim>\<open>lbuf\<close> of the program; its pointer is returned.\<close>

definition ltime :: "(int \<Rightarrow> bool) \<Rightarrow> tm \<Rightarrow> (buffer, unit) prog" where
  "ltime ok now =
     thn (modify buf_clear)
    (thn (buf_add_number ok (tm_year now + 1900))
    (thn (buf_add ok (Some ''-''))
    (thn (add_two ok (tm_mon now + 1))
    (thn (buf_add ok (Some ''-''))
    (thn (add_two ok (tm_mday now))
    (thn (buf_add ok (Some '' ''))
    (thn (add_two ok (tm_hour now))
    (thn (buf_add ok (Some '':''))
    (thn (add_two ok (tm_min now))
    (thn (buf_add ok (Some '':''))
    (thn (add_two ok (tm_sec now))
         (buf_add ok (Some '' '')))))))))))))"

definition lbuf :: "(int \<Rightarrow> bool) \<Rightarrow> (exn + unit) \<times> buffer" where
  "lbuf ok = resize ok 22 empty_buffer"

text \<open>A date with a year of four digits.\<close>

definition valid_tm :: "tm \<Rightarrow> bool" where
  "valid_tm t = (1000 \<le> tm_year t + 1900 \<and> tm_year t + 1900 < 10000 \<and> 0 \<le> tm_mon t \<and> tm_mon t < 12 \<and>
     1 \<le> tm_mday t \<and> tm_mday t \<le> 31 \<and> 0 \<le> tm_hour t \<and> tm_hour t < 24 \<and> 0 \<le> tm_min t \<and> tm_min t < 60 \<and>
     0 \<le> tm_sec t \<and> tm_sec t \<le> 60)"

definition two :: "int \<Rightarrow> bytes" where
  "two n = (if n < 10 then ''0'' else []) @ number_bytes n"

abbreviation digit_char :: "int \<Rightarrow> char" where
  "digit_char d \<equiv> char_of_int (d + 48)"

lemma two_digits:
  assumes "0 \<le> n" and "n < 100"
  shows "two n = [digit_char (n div 10), digit_char (n mod 10)]"
proof -
  have zero: "char_of_int 48 = CHR ''0''" by code_simp
  consider "n = 0" | "0 < n" "n < 10" | "10 \<le> n" using assms by linarith
  then show ?thesis
  proof cases
    case 1
    with zero show ?thesis by (simp add: two_def number_bytes_def)
  next
    case 2
    with zero show ?thesis by (simp add: two_def number_bytes_pos digits_loop_step)
  next
    case 3
    then have "0 < n div 10" "n div 10 < 10" using assms by auto
    with 3 show ?thesis by (simp add: two_def number_bytes_pos digits_loop_step)
  qed
qed

lemma atoi_two: "0 \<le> n \<Longrightarrow> n < 100 \<Longrightarrow> atoi (two n) = Inr n"
proof -
  assume n: "0 \<le> n" "n < 100"
  then have d: "0 \<le> n div 10" "n div 10 \<le> 9" "0 \<le> n mod 10" "n mod 10 \<le> 9" by auto
  have "schar (digit_char (n div 10)) = n div 10 + 48" "schar (digit_char (n mod 10)) = n mod 10 + 48"
    using d by (auto intro!: schar_digit_char)
  moreover from this have "digit (digit_char (n div 10))" "digit (digit_char (n mod 10))" using d by (auto simp: digit_def)
  ultimately show ?thesis
    using d n by (simp add: two_digits atoi_digits Let_def to_i8_id to_i64_id not_less [symmetric])
qed

lemma four_digits:
  assumes "1000 \<le> n" and "n < 10000"
  shows "length (number_bytes n) = 4" and "atoi (number_bytes n) = Inr n"
proof -
  have "0 < n" "0 < n div 10" "0 < n div 10 div 10" "0 < n div 10 div 10 div 10" "n div 10 div 10 div 10 < 10"
    using assms by auto
  then show "length (number_bytes n) = 4" by (simp only: number_bytes_pos digits_loop_step) simp
  show "atoi (number_bytes n) = Inr n" using assms by (intro atoi_number_bytes_pos) auto
qed

text \<open>The text of a stamp.\<close>

definition stamp :: "tm \<Rightarrow> bytes" where
  "stamp t = number_bytes (tm_year t + 1900) @ ''-'' @ two (tm_mon t + 1) @ ''-'' @ two (tm_mday t) @ '' '' @
     two (tm_hour t) @ '':'' @ two (tm_min t) @ '':'' @ two (tm_sec t) @ '' ''"

section \<open>Writing a stamp\<close>

text \<open>Writers that append a text.\<close>

definition adds :: "(buffer, unit) prog \<Rightarrow> bytes \<Rightarrow> bool" where
  "adds m xs = (\<forall>b. wf_buffer b \<longrightarrow> (\<exists>b'. m b = (Inr (), b') \<and> wf_buffer b' \<and> b_data b' = b_data b @ xs))"

lemma adds_thn: "adds m xs \<Longrightarrow> adds n ys \<Longrightarrow> adds (thn m n) (xs @ ys)"
  unfolding adds_def by (fastforce simp: thn_run)

lemma adds_bytes: "adds (buf_add (\<lambda>_. True) (Some xs)) xs"
  unfolding adds_def using heap.put_ok by blast

lemma adds_number: "- (2 ^ 63) \<le> n \<Longrightarrow> n < 2 ^ 63 \<Longrightarrow> adds (buf_add_number (\<lambda>_. True) n) (number_bytes n)"
  unfolding adds_def using add_number_ok by blast

lemma adds_two: "0 \<le> n \<Longrightarrow> n < 100 \<Longrightarrow> adds (add_two (\<lambda>_. True) n) (two n)"
proof -
  assume "0 \<le> n" "n < 100"
  then have "adds (buf_add_number (\<lambda>_. True) n) (number_bytes n)" by (intro adds_number) auto
  with adds_thn [OF adds_bytes [of "''0''"] this] show ?thesis
    by (cases "n < 10") (simp_all add: adds_def add_two_def two_def thn_run)
qed

lemma ltime_run:
  assumes "valid_tm t" and "wf_buffer b"
  shows "\<exists>b'. ltime (\<lambda>_. True) t b = (Inr (), b') \<and> wf_buffer b' \<and> b_data b' = stamp t"
proof -
  let ?rest = "thn (buf_add_number (\<lambda>_. True) (tm_year t + 1900))
    (thn (buf_add (\<lambda>_. True) (Some ''-'')) (thn (add_two (\<lambda>_. True) (tm_mon t + 1))
    (thn (buf_add (\<lambda>_. True) (Some ''-'')) (thn (add_two (\<lambda>_. True) (tm_mday t))
    (thn (buf_add (\<lambda>_. True) (Some '' '')) (thn (add_two (\<lambda>_. True) (tm_hour t))
    (thn (buf_add (\<lambda>_. True) (Some '':'')) (thn (add_two (\<lambda>_. True) (tm_min t))
    (thn (buf_add (\<lambda>_. True) (Some '':'')) (thn (add_two (\<lambda>_. True) (tm_sec t))
         (buf_add (\<lambda>_. True) (Some '' ''))))))))))))"
  have "adds ?rest (stamp t)"
    unfolding stamp_def
    by (intro adds_thn adds_bytes adds_number adds_two) (use assms(1) in \<open>simp_all add: valid_tm_def\<close>)
  moreover have "wf_buffer (buf_clear b)" "b_data (buf_clear b) = []"
    using heap.wipe [OF assms(2)] by simp_all
  ultimately obtain b' where "?rest (buf_clear b) = (Inr (), b')" "wf_buffer b'" "b_data b' = stamp t"
    unfolding adds_def by fastforce
  then show ?thesis by (simp add: ltime_def thn_run [where m = "modify buf_clear"])
qed

lemma number_no_zero:
  assumes "0 < n" "n < 2 ^ 63"
  shows "CHR 0x00 \<notin> set (number_bytes n)"
proof -
  from assms have "\<forall>c \<in> set (number_bytes n). digit c"
    using digits_loop_digits [of n "[]"] by (simp add: number_bytes_pos)
  then show ?thesis by (auto simp: digit_def schar_def)
qed

lemma two_no_zero: "0 \<le> n \<Longrightarrow> n < 100 \<Longrightarrow> CHR 0x00 \<notin> set (two n) \<and> length (two n) = 2"
proof -
  assume n: "0 \<le> n" "n < 100"
  then have "CHR 0x00 \<notin> set (number_bytes n)"
    using number_no_zero [of n] by (cases "n = 0") (simp_all add: number_bytes_def)
  then have "CHR 0x00 \<notin> set (two n)" by (simp add: two_def)
  moreover have "length (two n) = 2" using n by (simp add: two_digits)
  ultimately show ?thesis ..
qed

text \<open>The bytes of a view from a position on.\<close>

definition part :: "nat \<Rightarrow> nat \<Rightarrow> bytes \<Rightarrow> bytes" where
  "part i n s = take n (drop i s)"

section \<open>Balancing\<close>

lemma cpu_loads_exact:
  assumes "frame \<noteq> 0" and "\<forall>(u, v) \<in> set us. unat (u - v) * 100 < 2 ^ 64 \<and> unat (u - v) * 100 div unat frame < 2 ^ 31"
  shows "cpu_loads frame us = Inr (map (\<lambda>(u, v). int (unat (u - v) * 100 div unat frame)) us)"
  using assms(2)
proof (induction us)
  case (Cons p us)
  obtain u v where p: "p = (u, v)" by fastforce
  with Cons.prems have b: "unat (u - v) * 100 < 2 ^ 64" "unat (u - v) * 100 div unat frame < 2 ^ 31" by auto
  have "unat ((u - v) * 100) = unat (u - v) * unat (100 :: 64 word)"
    by (rule iffD1 [OF unat_mult_lem]) (use b(1) in simp)
  then have "unat ((u - v) * 100) = unat (u - v) * 100" by simp
  then have "uint ((u - v) * 100 div frame) = int (unat (u - v) * 100 div unat frame)"
    by (metis uint_div_distrib unat_div_distrib uint_nat)
  moreover have "to_i32 (int (unat (u - v) * 100 div unat frame)) = int (unat (u - v) * 100 div unat frame)"
    using b(2) by (intro to_i32_id) (simp_all add: of_nat_less_iff [symmetric] del: of_nat_less_iff)
  ultimately have "cpu_load frame u v = Inr (int (unat (u - v) * 100 div unat frame))"
    using assms(1) by (simp add: cpu_load_def)
  with Cons p show ?case by simp
qed simp

lemma choose_loop_index:
  assumes "cpu \<noteq> []"
  shows "choose_loop cpu < length cpu" and "j < choose_loop cpu \<Longrightarrow> 80 < cpu ! j"
    and "80 < cpu ! choose_loop cpu \<Longrightarrow> i < length cpu \<Longrightarrow> 80 < cpu ! i \<and> cpu ! choose_loop cpu \<le> cpu ! i"
    and "80 < cpu ! choose_loop cpu \<Longrightarrow> j < choose_loop cpu \<Longrightarrow> cpu ! choose_loop cpu < cpu ! j"
proof -
  have "least_of cpu 0 0" using assms by (simp add: least_of_def)
  from balance_loop_spec [OF this] have spec: "case balance_loop cpu 0 0 of
      (m', None) \<Rightarrow> least_of cpu (length cpu) m' \<and> (\<forall>j < length cpu. 80 < cpu ! j)
    | (m', Some k) \<Rightarrow> k < length cpu \<and> cpu ! k \<le> 80 \<and> (\<forall>j < k. 80 < cpu ! j)" by simp
  then show "choose_loop cpu < length cpu" and "j < choose_loop cpu \<Longrightarrow> 80 < cpu ! j"
    and "80 < cpu ! choose_loop cpu \<Longrightarrow> i < length cpu \<Longrightarrow> 80 < cpu ! i \<and> cpu ! choose_loop cpu \<le> cpu ! i"
    and "80 < cpu ! choose_loop cpu \<Longrightarrow> j < choose_loop cpu \<Longrightarrow> cpu ! choose_loop cpu < cpu ! j"
    by (auto simp: choose_loop_def least_of_def split: prod.splits option.splits)
qed

text \<open>The share of the time since the last turn, in percent, that loop \<open>i\<close> was running.\<close>

definition load :: "64 word \<Rightarrow> (nat \<Rightarrow> 64 word) \<Rightarrow> service \<Rightarrow> nat \<Rightarrow> nat" where
  "load now usage sv i = unat (usage i - sv_used sv i) * 100 div unat (now - sv_prev sv)"

lemma balance_run:
  assumes "0 < s_threads s" and "now \<noteq> sv_prev (s_service s)"
    and "\<forall>i < s_threads s. unat (usage i - sv_used (s_service s) i) * 100 < 2 ^ 64 \<and> load now usage (s_service s) i < 2 ^ 31"
  defines "cpu \<equiv> map (\<lambda>i. int (load now usage (s_service s) i)) [0..<s_threads s]"
  shows "balance now usage s = (Inr (), s\<lparr>s_service := (s_service s)\<lparr>sv_prev := now,
    sv_used := (\<lambda>i. if i < s_threads s then usage i else sv_used (s_service s) i)\<rparr>, s_active_loop := choose_loop cpu\<rparr>)"
proof -
  have "cpu_loads (now - sv_prev (s_service s)) (map (\<lambda>i. (usage i, sv_used (s_service s) i)) [0..<s_threads s]) = Inr cpu"
    using assms(2,3) by (subst cpu_loads_exact) (auto simp: cpu_def load_def)
  then show ?thesis by (simp add: balance_def bnd_run thn_run lift_res_def)
qed

section \<open>Properties\<close>

text \<open>
  The stamp of a log line: the date and the time are at fixed places and read back as the numbers they
  are. The text has 20 bytes and none of them is the zero that ends a C string, although \<^verbatim>\<open>ltime\<close> returns it
  as one.
\<close>

theorem ltime_stamp:
  assumes "valid_tm t" and "wf_buffer b"
  shows "\<exists>b'. ltime (\<lambda>_. True) t b = (Inr (), b') \<and> atoi (part 0 4 (b_data b')) = Inr (tm_year t + 1900) \<and>
    atoi (part 5 2 (b_data b')) = Inr (tm_mon t + 1) \<and> atoi (part 8 2 (b_data b')) = Inr (tm_mday t) \<and>
    atoi (part 11 2 (b_data b')) = Inr (tm_hour t) \<and> atoi (part 14 2 (b_data b')) = Inr (tm_min t) \<and>
    atoi (part 17 2 (b_data b')) = Inr (tm_sec t) \<and> length (b_data b') = 20 \<and> CHR 0x00 \<notin> set (b_data b')"
proof -
  have y: "1000 \<le> tm_year t + 1900" "tm_year t + 1900 < 10000" using assms(1) by (auto simp: valid_tm_def)
  have l: "length (two n) = 2" "CHR 0x00 \<notin> set (two n)" if "0 \<le> n \<and> n < 100" for n
    using two_no_zero that by auto
  have r: "0 \<le> tm_mon t + 1 \<and> tm_mon t + 1 < 100" "0 \<le> tm_mday t \<and> tm_mday t < 100" "0 \<le> tm_hour t \<and> tm_hour t < 100"
    "0 \<le> tm_min t \<and> tm_min t < 100" "0 \<le> tm_sec t \<and> tm_sec t < 100" using assms(1) by (auto simp: valid_tm_def)
  have "CHR 0x00 \<notin> set (number_bytes (tm_year t + 1900))" using y by (intro number_no_zero) auto
  with ltime_run [OF assms] r show ?thesis
    by (auto simp: stamp_def part_def four_digits [OF y] l atoi_two)
qed

theorem ltime_stamp_witness:
  "\<exists>b'. ltime (\<lambda>_. True) \<lparr>tm_year = 124, tm_mon = 1, tm_mday = 29, tm_hour = 0, tm_min = 7, tm_sec = 60\<rparr> empty_buffer = (Inr (), b') \<and>
     atoi (part 5 2 (b_data b')) = Inr 2 \<and> length (b_data b') = 20"
proof -
  have "valid_tm \<lparr>tm_year = 124, tm_mon = 1, tm_mday = 29, tm_hour = 0, tm_min = 7, tm_sec = 60\<rparr>" by (simp add: valid_tm_def)
  from ltime_stamp [OF this wf_empty_buffer] show ?thesis by auto
qed

text \<open>
  Claim C38. A turn of the balancer measures each loop over exactly the time since the turn before: new
  connections go to the first loop that was running at most 80 percent of it, and when all were above, to
  the first of the least loaded; the clock readings are kept for the next turn and nothing else changes.
\<close>

theorem balance_correct:
  assumes "0 < s_threads s" and "now \<noteq> sv_prev (s_service s)"
    and "\<forall>i < s_threads s. unat (usage i - sv_used (s_service s) i) * 100 < 2 ^ 64 \<and> load now usage (s_service s) i < 2 ^ 31"
  shows "\<exists>s' a. balance now usage s = (Inr (), s') \<and> a = s_active_loop s' \<and> a < s_threads s \<and>
    (\<forall>j < a. 80 < load now usage (s_service s) j) \<and>
    (load now usage (s_service s) a \<le> 80 \<or>
      (\<forall>i < s_threads s. 80 < load now usage (s_service s) i \<and> load now usage (s_service s) a \<le> load now usage (s_service s) i) \<and>
      (\<forall>j < a. load now usage (s_service s) a < load now usage (s_service s) j)) \<and>
    sv_prev (s_service s') = now \<and> (\<forall>i < s_threads s. sv_used (s_service s') i = usage i) \<and>
    s'\<lparr>s_service := s_service s, s_active_loop := s_active_loop s\<rparr> = s"
proof -
  let ?cpu = "map (\<lambda>i. int (load now usage (s_service s) i)) [0..<s_threads s]"
  let ?a = "choose_loop ?cpu"
  have cpu: "?cpu \<noteq> []" "length ?cpu = s_threads s" using assms(1) by simp_all
  note a = choose_loop_index [OF cpu(1), unfolded cpu(2)]
  have at: "?cpu ! i = int (load now usage (s_service s) i)" if "i < s_threads s" for i using that by simp
  have "80 < load now usage (s_service s) j" if "j < ?a" for j
    using a(2) [OF that] at [of j] a(1) that by simp
  moreover have "load now usage (s_service s) ?a \<le> 80 \<or>
      (\<forall>i < s_threads s. 80 < load now usage (s_service s) i \<and> load now usage (s_service s) ?a \<le> load now usage (s_service s) i) \<and>
      (\<forall>j < ?a. load now usage (s_service s) ?a < load now usage (s_service s) j)"
    using a(3,4) a(1) at by fastforce
  ultimately show ?thesis
    unfolding balance_run [OF assms] using a(1)
    by (intro exI conjI) (rule refl | assumption | simp)+
qed

theorem balance_correct_witness:
  "\<exists>s'. balance 1000 (\<lambda>i. if i = 0 then 950 else 300) (new_server 2 False ''1'' 0 (\<lambda>_. 0) 0 calm_memory) = (Inr (), s') \<and>
     s_active_loop s' = 1 \<and> sv_prev (s_service s') = 1000"
proof -
  let ?s = "new_server 2 False ''1'' 0 (\<lambda>_. 0) 0 calm_memory" and ?u = "\<lambda>i :: nat. if i = 0 then 950 else 300 :: 64 word"
  have s: "s_threads ?s = 2" "s_service ?s = \<lparr>sv_used = (\<lambda>_. 0), sv_prev = 0, sv_clean = 2\<rparr>"
    by (simp_all add: new_server_def start_threads_def)
  have l: "load 1000 ?u (s_service ?s) i = (if i = 0 then 95 else 30)" for i by (simp add: load_def s)
  have "0 < s_threads ?s" "1000 \<noteq> sv_prev (s_service ?s)"
    "\<forall>i < s_threads ?s. unat (?u i - sv_used (s_service ?s) i) * 100 < 2 ^ 64 \<and> load 1000 ?u (s_service ?s) i < 2 ^ 31"
    unfolding l by (simp_all add: s)
  from balance_correct [OF this] obtain s' where s': "balance 1000 ?u ?s = (Inr (), s')" "s_active_loop s' < 2"
    "load 1000 ?u (s_service ?s) (s_active_loop s') \<le> 80 \<or> (\<forall>i < 2. 80 < load 1000 ?u (s_service ?s) i)"
    "sv_prev (s_service s') = 1000" unfolding s(1) by blast
  moreover have "s_active_loop s' = 1"
  proof (rule ccontr)
    assume "s_active_loop s' \<noteq> 1"
    with s'(2) have "s_active_loop s' = 0" by linarith
    with s'(3) show False unfolding l by (auto simp: numeral_2_eq_2 less_Suc_eq)
  qed
  ultimately show ?thesis by blast
qed

end
