(* ===== verification/Kqueue.thy ===== *)
theory Kqueue imports Broker_Runs begin

text \<open>
  The variant of src/server.cpp for kernels with kqueue, which compiles other bodies for the loop and for the two
  functions that register a descriptor. A kernel queue has one filter for reading and one for writing per
  descriptor, each registered or not and enabled or not, where epoll has one mask of the two: the functions are
  compared with their epoll bodies in \<open>Broker_State\<close> and \<open>Event_Loop\<close>. The handlers that the loop calls are those of
  \<open>Event_Loop\<close>, which register with epoll; \<^verbatim>\<open>wake\<close>, which is empty here, is only called for the status \<^verbatim>\<open>migration\<close>
  that no connection takes. The call \<^verbatim>\<open>kevent\<close> itself is the kernel's: it is the parameter \<open>kev\<close>, on a kernel state of any
  type, and what the manual says of it is the hypothesis \<open>kevent_documented\<close>.
\<close>

section \<open>Filters\<close>

datatype kfilter = Evfilt_read | Evfilt_write

datatype kflag = Ev_add_enable | Ev_disable | Ev_delete

text \<open>A call of \<^verbatim>\<open>kevent\<close> with one change and no events: the new state of the kernel, or \<open>None\<close> when it returns \<^verbatim>\<open>-1\<close>.\<close>

type_synonym 'k kevent_call = "nat \<Rightarrow> kfilter \<Rightarrow> kflag \<Rightarrow> 'k \<Rightarrow> 'k option"

definition ev_set :: "'k kevent_call \<Rightarrow> nat \<Rightarrow> kfilter \<Rightarrow> kflag \<Rightarrow> string \<Rightarrow> ('k, unit) prog" where
  "ev_set kev fd f x err = (\<lambda>k. case kev fd f x k of None \<Rightarrow> (Inl (Thrown err), k) | Some k' \<Rightarrow> (Inr (), k'))"

definition kq_set_poll_mode :: "'k kevent_call \<Rightarrow> nat \<Rightarrow> int \<Rightarrow> ('k, unit) prog" where
  "kq_set_poll_mode kev fd status =
     (if status = - 1 then ev_set kev fd Evfilt_read Ev_delete ''kqueue delete read error''
      else
        thn (ev_set kev fd Evfilt_read (if and status 1 \<noteq> 0 then Ev_add_enable else Ev_disable) ''kqueue change read error'')
            (ev_set kev fd Evfilt_write (if and status 2 \<noteq> 0 then Ev_add_enable else Ev_disable) ''kqueue change write error''))"

text \<open>The registration of \<^verbatim>\<open>Loop::accept\<close>, \<open>st\<close> being the mode the connection wants.\<close>

definition kq_accept :: "'k kevent_call \<Rightarrow> nat \<Rightarrow> int \<Rightarrow> ('k, unit) prog" where
  "kq_accept kev fd st =
     (if st = - 1 then throw (Thrown ''accept: connection is closed'')
      else
        thn (ev_set kev fd Evfilt_read (if and st 1 \<noteq> 0 then Ev_add_enable else Ev_disable) ''kqueue change read error'')
            (whenp (and st 2 \<noteq> 0) (ev_set kev fd Evfilt_write Ev_add_enable ''kqueue change write error'')))"

section \<open>The loop\<close>

datatype kq_event = K_eof | K_error | K_read bytes | K_again | K_fail | K_write int

text \<open>\<open>K_read\<close>, \<open>K_again\<close> and \<open>K_fail\<close> are a readable descriptor with what \<^verbatim>\<open>recv\<close> gives, \<open>K_write\<close> a writable one with what
  \<^verbatim>\<open>send\<close> takes.\<close>

definition kq_handle_event :: "nat \<Rightarrow> nat \<Rightarrow> kq_event \<Rightarrow> (server, bool) prog" where
  "kq_handle_event n fd ev = bnd (gets s_fake_fd) (\<lambda>fake.
     if int fd = fake then thn (set_poll_mode n fd (- 1)) (ret False)
     else if ev = K_eof then thn (loop_close n fd) (ret False)
     else if ev = K_error then ret False
     else bnd (gets (\<lambda>s. s_connections s fd)) (\<lambda>x. case x of
        None \<Rightarrow> throw Fault
      | Some c \<Rightarrow> bnd (get_c c) (\<lambda>r.
          if c_nloop r \<noteq> n then ret False
          else (case ev of
              K_read buf \<Rightarrow> thn (handle_recv n fd c buf) (go_loop c)
            | K_write sent \<Rightarrow> thn (handle_send n fd c sent) (go_loop c)
            | K_fail \<Rightarrow> throw (Thrown ''recv error'')
            | _ \<Rightarrow> ret False))))"

fun kq_handle_events :: "nat \<Rightarrow> (nat \<times> kq_event) list \<Rightarrow> bool \<Rightarrow> (server, bool) prog" where
  "kq_handle_events n [] need = ret need"
| "kq_handle_events n ((fd, ev) # evs) need = bnd (kq_handle_event n fd ev) (\<lambda>go.
     kq_handle_events n evs (need \<or> go))"

text \<open>One turn; there is no countdown to the timeouts.\<close>

definition kq_turn :: "nat \<Rightarrow> (nat \<times> kq_event) list \<Rightarrow> (server, unit) prog" where
  "kq_turn n evs =
     (if evs = [] then ret ()
      else
        thn (upd_loop n (\<lambda>l. l\<lparr>l_stat_ioevent := l_stat_ioevent l + word_of_nat (length evs)\<rparr>))
       (bnd (kq_handle_events n evs False) (\<lambda>need_to_migrate.
        thn (perform_to_send n)
       (thn (whenp need_to_migrate (migrate_send n))
       (thn (delete_connections n)
            (migrate_recv n))))))"

section \<open>Comparison with epoll\<close>

text \<open>The filters that are registered, with whether they are enabled.\<close>

type_synonym kq = "nat \<times> kfilter \<Rightarrow> bool option"

text \<open>What the manual of \<^verbatim>\<open>kevent\<close> says for an open descriptor, while the kernel has memory: \<^verbatim>\<open>EV_ADD | EV_ENABLE\<close> registers the
  filter or modifies it, and enables it; \<^verbatim>\<open>EV_DISABLE\<close> and \<^verbatim>\<open>EV_DELETE\<close> fail with \<^verbatim>\<open>ENOENT\<close> for a filter that is not registered,
  and otherwise disable and remove it; no other filter is touched. \<open>view\<close> is the table of filters of a kernel state.\<close>

definition kevent_documented :: "'k kevent_call \<Rightarrow> ('k \<Rightarrow> kq) \<Rightarrow> nat \<Rightarrow> bool" where
  "kevent_documented kev view fd = (\<forall>f k.
     (\<exists>k'. kev fd f Ev_add_enable k = Some k' \<and> view k' = (view k)((fd, f) \<mapsto> True)) \<and>
     (if view k (fd, f) = None then kev fd f Ev_disable k = None \<and> kev fd f Ev_delete k = None
      else (\<exists>k'. kev fd f Ev_disable k = Some k' \<and> view k' = (view k)((fd, f) \<mapsto> False)) \<and>
        (\<exists>k'. kev fd f Ev_delete k = Some k' \<and> view k' = (view k)((fd, f) := None))))"

lemma ev_set_run:
  assumes "kevent_documented kev view fd"
  shows "\<exists>k'. ev_set kev fd f Ev_add_enable err k = (Inr (), k') \<and> view k' = (view k)((fd, f) \<mapsto> True)"
    and "view k (fd, f) = None \<Longrightarrow> ev_set kev fd f Ev_disable err k = (Inl (Thrown err), k)"
    and "view k (fd, f) \<noteq> None \<Longrightarrow>
      \<exists>k'. ev_set kev fd f Ev_disable err k = (Inr (), k') \<and> view k' = (view k)((fd, f) \<mapsto> False)"
    and "view k (fd, f) \<noteq> None \<Longrightarrow>
      \<exists>k'. ev_set kev fd f Ev_delete err k = (Inr (), k') \<and> view k' = (view k)((fd, f) := None)"
proof -
  note doc = assms [unfolded kevent_documented_def, rule_format, of f k]
  from doc show "\<exists>k'. ev_set kev fd f Ev_add_enable err k = (Inr (), k') \<and> view k' = (view k)((fd, f) \<mapsto> True)"
    by (auto simp: ev_set_def)
  from doc show "ev_set kev fd f Ev_disable err k = (Inl (Thrown err), k)" if "view k (fd, f) = None"
    using that by (simp add: ev_set_def)
  from doc show "\<exists>k'. ev_set kev fd f Ev_disable err k = (Inr (), k') \<and> view k' = (view k)((fd, f) \<mapsto> False)"
    and "\<exists>k'. ev_set kev fd f Ev_delete err k = (Inr (), k') \<and> view k' = (view k)((fd, f) := None)"
    if "view k (fd, f) \<noteq> None" using that by (auto simp: ev_set_def)
qed

text \<open>A change of a filter that is registered or gets registered.\<close>

lemma ev_change_run:
  assumes "kevent_documented kev view fd" and "view k (fd, f) \<noteq> None \<or> b"
  shows "\<exists>k'. ev_set kev fd f (if b then Ev_add_enable else Ev_disable) err k = (Inr (), k') \<and>
    view k' = (view k)((fd, f) \<mapsto> b)"
  using ev_set_run(1,3) [OF assms(1)] assms(2) by (cases b) auto

text \<open>The mask that epoll has for a descriptor.\<close>

definition kq_mask :: "kq \<Rightarrow> nat \<Rightarrow> int option" where
  "kq_mask k fd = (case k (fd, Evfilt_read) of
     None \<Rightarrow> None
   | Some rd \<Rightarrow> Some ((if rd then 1 else 0) + (if k (fd, Evfilt_write) = Some True then 2 else 0)))"

lemma kq_mask_other:
  "fd' \<noteq> fd \<Longrightarrow> kq_mask (k((fd, f) := x)) fd' = kq_mask k fd'"
  by (simp add: kq_mask_def)

lemma small_mode:
  assumes "0 \<le> st" and "st \<le> (3 :: int)"
  shows "st = (if and st 1 \<noteq> 0 then 1 else 0) + (if and st 2 \<noteq> 0 then 2 else 0)" and "and st 3 = st"
proof -
  from assms have st: "st = 0 \<or> st = 1 \<or> st = 2 \<or> st = 3" by linarith
  then show "st = (if and st 1 \<noteq> 0 then 1 else 0) + (if and st 2 \<noteq> 0 then 2 else 0)" by auto
  from st show "and st 3 = st" by auto
qed

definition to_epoll :: "kq_event \<Rightarrow> event" where
  "to_epoll ev = (case ev of K_eof \<Rightarrow> Ev_error | K_read buf \<Rightarrow> Ev_recv buf | K_write n \<Rightarrow> Ev_send n
     | K_fail \<Rightarrow> Ev_fail | _ \<Rightarrow> Ev_again)"

lemma kq_event_same: "ev \<noteq> K_error \<Longrightarrow> kq_handle_event n fd ev = handle_event n fd (to_epoll ev)"
  by (cases ev) (simp_all add: kq_handle_event_def handle_event_def to_epoll_def cong: if_cong option.case_cong)

lemma kq_events_same:
  "\<forall>x \<in> set evs. snd x \<noteq> K_error \<Longrightarrow> kq_handle_events n evs need = handle_events n (map (map_prod id to_epoll) evs) need"
  by (induction evs arbitrary: need) (auto simp: kq_event_same)

text \<open>But for loop 0, which alone looks for timeouts, a turn is the same.\<close>

lemma kq_turn_same:
  assumes "n \<noteq> 0" and "evs \<noteq> []" and "\<forall>x \<in> set evs. snd x \<noteq> K_error"
  shows "kq_turn n evs = loop_turn n (map (map_prod id to_epoll) evs)"
  using assms kq_events_same [OF assms(3)] by (simp add: kq_turn_def loop_turn_def loop_tail_def countdown_def whenp_def)

section \<open>Properties\<close>

text \<open>The filters that \<^verbatim>\<open>set_poll_mode\<close> is to change are there, or are added by it.\<close>

definition can_set :: "nat \<Rightarrow> int \<Rightarrow> kq \<Rightarrow> bool" where
  "can_set fd st k = ((k (fd, Evfilt_read) \<noteq> None \<or> st \<noteq> - 1 \<and> and st 1 \<noteq> 0) \<and>
     (st = - 1 \<or> k (fd, Evfilt_write) \<noteq> None \<or> and st 2 \<noteq> 0))"

lemma kq_set_run:
  assumes "kevent_documented kev view fd" and "0 \<le> st" "st \<le> 3" "can_set fd st (view k)"
  shows "\<exists>k'. kq_set_poll_mode kev fd st k = (Inr (), k') \<and>
    view k' = (view k)((fd, Evfilt_read) \<mapsto> and st 1 \<noteq> 0, (fd, Evfilt_write) \<mapsto> and st 2 \<noteq> 0)"
proof -
  have st: "st \<noteq> - 1" using assms(2) by simp
  obtain k1 where k1: "ev_set kev fd Evfilt_read (if and st 1 \<noteq> 0 then Ev_add_enable else Ev_disable)
      ''kqueue change read error'' k = (Inr (), k1)" "view k1 = (view k)((fd, Evfilt_read) \<mapsto> and st 1 \<noteq> 0)"
    using ev_change_run [OF assms(1), where k = k and f = Evfilt_read and b = "and st 1 \<noteq> 0"] assms(4) st
    by (auto simp: can_set_def)
  obtain k2 where k2: "ev_set kev fd Evfilt_write (if and st 2 \<noteq> 0 then Ev_add_enable else Ev_disable)
      ''kqueue change write error'' k1 = (Inr (), k2)" "view k2 = (view k1)((fd, Evfilt_write) \<mapsto> and st 2 \<noteq> 0)"
    using ev_change_run [OF assms(1), where k = k1 and f = Evfilt_write and b = "and st 2 \<noteq> 0"] assms(4) st k1(2)
    by (auto simp: can_set_def)
  have "kq_set_poll_mode kev fd st k = (Inr (), k2)"
    using st k1(1) k2(1) by (simp only: kq_set_poll_mode_def if_False thn_run prod.case sum.case)
  with k1(2) k2(2) show ?thesis by auto
qed

text \<open>
  Claim C39. Let \<^verbatim>\<open>kevent\<close> do what its manual says. Changing the mode of a registered descriptor then refines the epoll
  variant: when the filters the call changes exist or are added by it, both succeed and the filters for reading and
  writing hold the mask that epoll holds, for this descriptor and every other. Where the filter for writing was
  never added, as after \<^verbatim>\<open>accept\<close>, asking for reading alone fails with kqueue while epoll succeeds; and deleting
  leaves the filter for writing registered.
\<close>

theorem kq_set_poll_mode_refines:
  assumes "kevent_documented kev view fd"
    and "n < length (s_loops s)" and "l_poll (s_loops s ! n) = kq_mask (view k)" and "kq_mask (view k) fd \<noteq> None"
    and "st = - 1 \<or> 0 \<le> st \<and> st \<le> 3"
  shows "if can_set fd st (view k)
    then \<exists>s' k'. set_poll_mode n fd st s = (Inr (), s') \<and> kq_set_poll_mode kev fd st k = (Inr (), k') \<and>
      l_poll (s_loops s' ! n) = kq_mask (view k') \<and>
      (st = - 1 \<longrightarrow> view k' (fd, Evfilt_write) = view k (fd, Evfilt_write))
    else fst (kq_set_poll_mode kev fd st k) = Inl (Thrown ''kqueue change write error'') \<and>
      fst (set_poll_mode n fd st s) = Inr ()"
proof -
  have reg: "l_poll (s_loops s ! n) fd \<noteq> None" "view k (fd, Evfilt_read) \<noteq> None"
    using assms(3,4) by (auto simp: kq_mask_def split: option.splits)
  show ?thesis
  proof (cases "st = - 1")
    case True
    with reg have "can_set fd st (view k)" by (simp add: can_set_def)
    moreover from ev_set_run(4) [OF assms(1) reg(2)] obtain k' where
      "kq_set_poll_mode kev fd st k = (Inr (), k')" "view k' = (view k)((fd, Evfilt_read) := None)"
      using True by (auto simp: kq_set_poll_mode_def)
    moreover have "(kq_mask (view k))(fd := None) = kq_mask ((view k)((fd, Evfilt_read) := None))"
      by (rule ext) (simp add: kq_mask_def)
    ultimately show ?thesis
      using True reg assms(2,3) by (simp add: set_poll_mode_def bnd_run runs)
  next
    case False
    with assms(5) have st: "0 \<le> st" "st \<le> 3" by auto
    show ?thesis
    proof (cases "can_set fd st (view k)")
      case True
      have "(kq_mask (view k))(fd \<mapsto> st) =
          kq_mask ((view k)((fd, Evfilt_read) \<mapsto> and st 1 \<noteq> 0, (fd, Evfilt_write) \<mapsto> and st 2 \<noteq> 0))"
        using small_mode(1) [OF st] by (intro ext) (simp add: kq_mask_def)
      moreover from kq_set_run [OF assms(1) st True] obtain k' where "kq_set_poll_mode kev fd st k = (Inr (), k')"
        "view k' = (view k)((fd, Evfilt_read) \<mapsto> and st 1 \<noteq> 0, (fd, Evfilt_write) \<mapsto> and st 2 \<noteq> 0)" by blast
      ultimately show ?thesis using True False reg assms(2,3) small_mode(2) [OF st]
        by (simp add: set_poll_mode_def bnd_run runs)
    next
      case no: False
      with reg False have w: "view k (fd, Evfilt_write) = None" "and st 2 = 0" by (auto simp: can_set_def)
      obtain k1 where k1: "ev_set kev fd Evfilt_read (if and st 1 \<noteq> 0 then Ev_add_enable else Ev_disable)
          ''kqueue change read error'' k = (Inr (), k1)" "view k1 = (view k)((fd, Evfilt_read) \<mapsto> and st 1 \<noteq> 0)"
        using ev_change_run [OF assms(1), where k = k and f = Evfilt_read and b = "and st 1 \<noteq> 0"] reg(2) by auto
      with w have "view k1 (fd, Evfilt_write) = None" by simp
      from ev_set_run(2) [OF assms(1) this] k1(1) w(2) False
      have "fst (kq_set_poll_mode kev fd st k) = Inl (Thrown ''kqueue change write error'')"
        by (simp add: kq_set_poll_mode_def thn_run)
      with no False reg assms(2) show ?thesis by (simp add: set_poll_mode_def bnd_run runs)
    qed
  qed
qed

text \<open>A kernel that is the table of the filters.\<close>

definition table_kevent :: "kq kevent_call" where
  "table_kevent fd f x k = (case x of
     Ev_add_enable \<Rightarrow> Some (k((fd, f) \<mapsto> True))
   | Ev_disable \<Rightarrow> (if k (fd, f) = None then None else Some (k((fd, f) \<mapsto> False)))
   | Ev_delete \<Rightarrow> (if k (fd, f) = None then None else Some (k((fd, f) := None))))"

theorem kq_set_poll_mode_refines_witness:
  "\<exists>s k'. fst (set_poll_mode 0 5 3 s) = Inr () \<and> kq_set_poll_mode table_kevent 5 3 [(5, Evfilt_read) \<mapsto> True] = (Inr (), k') \<and>
     kq_mask k' 5 = Some 3 \<and>
     fst (kq_set_poll_mode table_kevent 5 1 [(5, Evfilt_read) \<mapsto> True]) = Inl (Thrown ''kqueue change write error'')"
proof -
  let ?k = "[(5, Evfilt_read) \<mapsto> True] :: kq"
  let ?s = "(new_server 1 False ''1'' 0 (\<lambda>_. 0) 0 calm_memory)\<lparr>s_loops := [new_loop\<lparr>l_poll := kq_mask ?k\<rparr>]\<rparr>"
  have doc: "kevent_documented table_kevent (\<lambda>k. k) 5" by (simp add: kevent_documented_def table_kevent_def)
  have h: "0 < length (s_loops ?s)" "l_poll (s_loops ?s ! 0) = kq_mask ?k" "kq_mask ?k 5 \<noteq> None"
    by (simp_all add: kq_mask_def)
  have can: "can_set 5 3 ?k" "\<not> can_set 5 1 ?k" by (simp_all add: can_set_def)
  from kq_set_poll_mode_refines [where view = "\<lambda>k. k" and k = ?k, OF doc h, of 3] can obtain s' k' where 3: "set_poll_mode 0 5 3 ?s = (Inr (), s')"
    "kq_set_poll_mode table_kevent 5 3 ?k = (Inr (), k')" by auto
  moreover have "kq_mask k' 5 = Some 3"
    using 3(2) kq_set_run [where view = "\<lambda>k. k" and k = ?k, OF doc _ _ can(1)] by (auto simp: kq_mask_def)
  moreover have "fst (kq_set_poll_mode table_kevent 5 1 ?k) = Inl (Thrown ''kqueue change write error'')"
    using kq_set_poll_mode_refines [where view = "\<lambda>k. k" and k = ?k, OF doc h, of 1] can by auto
  ultimately show ?thesis by (intro exI [of _ ?s] exI [of _ k']) simp
qed

end
