(* ===== verification/Diagnostics.thy ===== *)
theory Diagnostics imports Clock begin

text \<open>
  What the program tells its operator, and the parts compiled only for debug builds: the exception objects of
  src/exception.h and how src/exception.cpp prints them, the traceback, the signal handler, the line \<^verbatim>\<open>header_completed\<close>
  logs for a request, the counted heap of src/memory.cpp and the two requests of a debug build.

  Library functions are parameters: \<open>names\<close> is what \<^verbatim>\<open>backtrace_symbols\<close> returns, \<open>demangle\<close> is
  \<^verbatim>\<open>__cxa_demangle\<close>, \<open>now\<close> the C string \<^verbatim>\<open>ltime()\<close> returns, \<open>alloc\<close> where \<^verbatim>\<open>malloc\<close> places a block.
\<close>

section \<open>Output streams\<close>

text \<open>\<^verbatim>\<open>std::cout\<close>: inserting a null pointer to characters sets \<^verbatim>\<open>badbit\<close>, after which nothing is written.\<close>

record stream =
  st_out :: bytes
  st_bad :: bool

definition stream_text :: "bytes option \<Rightarrow> (stream, unit) prog" where
  "stream_text t = (\<lambda>s. (Inr (), (case t of
     None \<Rightarrow> s\<lparr>st_bad := True\<rparr>
   | Some xs \<Rightarrow> if st_bad s then s else s\<lparr>st_out := st_out s @ xs\<rparr>)))"

text \<open>The C string at the start of a buffer. One without a zero is read past its end.\<close>

definition stream_ptr :: "buffer \<Rightarrow> (stream, unit) prog" where
  "stream_ptr b = (case b_block b of
     None \<Rightarrow> stream_text None
   | Some _ \<Rightarrow> (if CHR 0x00 \<in> set (b_data b) then stream_text (Some (takeWhile (\<lambda>c. c \<noteq> CHR 0x00) (b_data b)))
              else throw Fault))"

section \<open>Exceptions\<close>

text \<open>\<open>x_trace\<close> is there only in a debug build; the null pointers of the constructor's defaults are \<open>None\<close>.\<close>

record exception =
  x_reason :: "bytes option"
  x_file :: "bytes option"
  x_line :: int
  x_func :: "bytes option"
  x_trace :: "buffer option"

definition x_what :: "exception \<Rightarrow> bytes" where
  "x_what x = (case x_reason x of Some r \<Rightarrow> r | None \<Rightarrow> ''Exception'')"

definition quote_mark :: bytes where
  "quote_mark = [CHR 0x27]"

definition print_exception :: "bytes \<Rightarrow> bytes \<Rightarrow> exception \<Rightarrow> (stream, unit) prog" where
  "print_exception now msg x =
     thn (stream_text (Some now))
    (thn (stream_text (Some msg))
    (thn (stream_text (Some ('' '' @ quote_mark)))
    (thn (stream_text (x_reason x))
    (thn (stream_text (Some quote_mark))
    (thn (case x_file x of
            Some f \<Rightarrow>
              thn (stream_text (Some '', file ''))
             (thn (stream_text (Some f))
             (thn (stream_text (Some '':''))
             (thn (stream_text (Some (number_bytes (x_line x))))
             (thn (stream_text (Some '' ''))
             (thn (stream_text (x_func x))
                  (stream_text (Some [CHR 0x0A])))))))
          | None \<Rightarrow> stream_text (Some [CHR 0x0A]))
         (case x_trace x of None \<Rightarrow> ret () | Some b \<Rightarrow> stream_ptr b))))))"

text \<open>The handlers of exceptions in \<^verbatim>\<open>main\<close> and \<^verbatim>\<open>Loop::_loop_safe\<close> (bit 0 of \<^verbatim>\<open>log\<close>) and around \<^verbatim>\<open>on_recv\<close> and \<^verbatim>\<open>on_send\<close>
  (bit 1); after the second the thread of the loop has ended.\<close>

definition report :: "int \<Rightarrow> int \<Rightarrow> bytes \<Rightarrow> bytes \<Rightarrow> exception \<Rightarrow> (stream, unit) prog" where
  "report log level now msg x = whenp (and log level \<noteq> 0) (print_exception now msg x)"

definition loop_safe :: "int \<Rightarrow> bytes \<Rightarrow> exn + unit \<Rightarrow> (exn \<Rightarrow> exception) \<Rightarrow> (stream, unit) prog" where
  "loop_safe log now outcome obj = (case outcome of
     Inr _ \<Rightarrow> ret ()
   | Inl e \<Rightarrow> (if is_exception e then report log 1 now ''Exception in loop'' (obj e) else throw e))"

section \<open>The traceback\<close>

text \<open>One frame, \<^verbatim>\<open>file(symbol+offset) [address]\<close>. \<open>bname\<close> is the buffer the symbol is copied to; its address goes to
  \<^verbatim>\<open>__cxa_demangle\<close>, which reads up to the zero. No name has a zero in it.\<close>

definition trace_name :: "(int \<Rightarrow> bool) \<Rightarrow> (bytes \<Rightarrow> bytes option) \<Rightarrow> bytes \<Rightarrow> (buffer \<times> buffer, unit) prog" where
  "trace_name ok demangle name = (\<lambda>(bname, r).
     case split_left CHR ''('' name of (file, rest) \<Rightarrow>
     case split_left CHR ''+'' rest of (symb, rest) \<Rightarrow>
     case split_left CHR '')'' rest of (off, _) \<Rightarrow>
     (case thn (buf_set ok (Some symb)) (buf_add ok (Some [CHR 0x00])) bname of
       (Inl e, bname) \<Rightarrow> (Inl e, (bname, r))
     | (Inr _, bname) \<Rightarrow>
        (case thn (case demangle (takeWhile (\<lambda>c. c \<noteq> CHR 0x00) (b_data bname)) of
             Some func \<Rightarrow>
               thn (buf_add ok (Some file))
              (thn (buf_add_lit ok '': '')
              (thn (buf_add_lit ok func)
              (thn (buf_add_lit ok '' +'')
                   (buf_add ok (Some off)))))
           | None \<Rightarrow> buf_add_lit ok name)
           (buf_add_lit ok [CHR 0x0A]) r of
          (x, r) \<Rightarrow> (x, (bname, r)))))"

definition on_second :: "('b, 'a) prog \<Rightarrow> ('c \<times> 'b, 'a) prog" where
  "on_second m = (\<lambda>(c, b). case m b of (x, b) \<Rightarrow> (x, (c, b)))"

definition get_traceback ::
    "(int \<Rightarrow> bool) \<Rightarrow> bytes list option \<Rightarrow> (bytes \<Rightarrow> bytes option) \<Rightarrow> (buffer, unit) prog" where
  "get_traceback ok names demangle = (case names of
     None \<Rightarrow> ret ()
   | Some names \<Rightarrow> (\<lambda>r.
       case resize ok 256 empty_buffer of
         (Inl e, _) \<Rightarrow> (Inl e, r)
       | (Inr _, bname) \<Rightarrow>
          (case thn (for_each (drop 1 names) (trace_name ok demangle)) (on_second (buf_add ok (Some [CHR 0x00])))
              (bname, r) of
            (x, (_, r)) \<Rightarrow> (x, r))))"

text \<open>The constructor of an exception, and the handler of a memory fault: it ends the program, \<open>1\<close> being its code.\<close>

definition new_exception :: "bool \<Rightarrow> (int \<Rightarrow> bool) \<Rightarrow> bytes list option \<Rightarrow> (bytes \<Rightarrow> bytes option) \<Rightarrow>
    bytes option \<Rightarrow> bytes option \<Rightarrow> int \<Rightarrow> bytes option \<Rightarrow> exn + exception" where
  "new_exception debug ok names demangle reason file line func =
     (let x = \<lparr>x_reason = reason, x_file = file, x_line = line, x_func = func, x_trace = None\<rparr> in
      if \<not> debug then Inr x
      else (case get_traceback ok names demangle empty_buffer of
          (Inl e, _) \<Rightarrow> Inl e
        | (Inr _, r) \<Rightarrow> Inr (x\<lparr>x_trace := Some r\<rparr>)))"

definition fatal_error ::
    "(int \<Rightarrow> bool) \<Rightarrow> bytes list option \<Rightarrow> (bytes \<Rightarrow> bytes option) \<Rightarrow> int \<Rightarrow> (stream, int) prog" where
  "fatal_error ok names demangle sig =
     (case get_traceback ok names demangle empty_buffer of
       (Inl e, _) \<Rightarrow> throw e
     | (Inr _, trace) \<Rightarrow>
         thn (stream_text (Some ''Error: signal ''))
        (thn (stream_text (Some (number_bytes sig)))
        (thn (stream_text (Some [CHR 0x0A]))
        (thn (stream_ptr trace)
        (thn (stream_text (Some [CHR 0x0A]))
             (ret 1))))))"

text \<open>The table of signal handlers; \<open>sigsegv\<close> is the number of the signal on the platform.\<close>

datatype sig_handler = Sig_default | Sig_fatal_error

definition catch_fatal :: "int \<Rightarrow> (int \<Rightarrow> sig_handler) \<Rightarrow> (int \<Rightarrow> sig_handler)" where
  "catch_fatal sigsegv tab = tab(sigsegv := Sig_fatal_error)"

section \<open>The line logged for a request\<close>

text \<open>With bit 5 of \<^verbatim>\<open>log\<close>: the time since \<open>start\<close> (0 when none was noted), the body up to 150 bytes, and everything
  \<^verbatim>\<open>char\<close> counts as below 32 replaced. The final zero ends the C string that is printed.\<close>

definition duration_text :: "(int \<Rightarrow> bool) \<Rightarrow> 64 word \<Rightarrow> 64 word \<Rightarrow> (buffer, unit) prog" where
  "duration_text ok now start =
     whenp (start \<noteq> 0)
       (let dur = to_i64 (uint ((now - start) div 1000)) in
        if dur \<ge> 10000 then thn (buf_add_number ok (c_div dur 1000)) (buf_add_lit ok ''sec '')
        else thn (buf_add_number ok dur) (buf_add_lit ok ''ms ''))"

definition body_text :: "(int \<Rightarrow> bool) \<Rightarrow> bytes \<Rightarrow> (buffer, unit) prog" where
  "body_text ok body =
     (if length body > 150 then thn (buf_add ok (Some (take 147 body))) (buf_add_lit ok ''...'')
      else whenp (body \<noteq> []) (buf_add ok (Some body)))"

definition mask_controls :: "bytes \<Rightarrow> bytes" where
  "mask_controls = map (\<lambda>c. if schar c < 32 then CHR ''.'' else c)"

definition logged_text :: "(int \<Rightarrow> bool) \<Rightarrow> 64 word \<Rightarrow> 64 word \<Rightarrow> bytes \<Rightarrow> (buffer, unit) prog" where
  "logged_text ok now start body =
     thn (resize ok 250)
    (thn (duration_text ok now start)
    (thn (body_text ok body)
    (thn (modify (\<lambda>b. b\<lparr>b_data := mask_controls (b_data b)\<rparr>))
         (buf_add ok (Some [CHR 0x0A, CHR 0x00])))))"

definition log_request :: "(int \<Rightarrow> bool) \<Rightarrow> bytes \<Rightarrow> 64 word \<Rightarrow> 64 word \<Rightarrow> bytes option \<Rightarrow> bytes \<Rightarrow> (stream, unit) prog" where
  "log_request ok time now start path body =
     (case logged_text ok now start body empty_buffer of
       (Inl e, _) \<Rightarrow> throw e
     | (Inr _, repr) \<Rightarrow>
         bnd (lift_res (as_string (- 1) path)) (\<lambda>path.
         thn (stream_text (Some time))
        (thn (stream_text (Some path))
        (thn (stream_text (Some '' ''))
        (thn (stream_text (Some (number_bytes (int (length body)))))
        (thn (stream_text (Some ''b ''))
             (stream_ptr repr)))))))"

section \<open>The counted heap\<close>

text \<open>\<^verbatim>\<open>_malloc\<close> counts before it asks for memory, \<^verbatim>\<open>_free\<close> before it gives it back. \<open>h_live\<close> holds the sizes of the
  blocks in use. Giving back a block that is not in use is a fault.\<close>

record dheap =
  h_live :: "nat \<rightharpoonup> 32 word"
  h_count :: "32 word"

definition start_heap :: dheap where
  "start_heap = \<lparr>h_live = (\<lambda>_. None), h_count = 0\<rparr>"

type_synonym placing = "(nat \<rightharpoonup> 32 word) \<Rightarrow> 32 word \<Rightarrow> nat option"

definition dbg_malloc :: "placing \<Rightarrow> 32 word \<Rightarrow> (dheap, nat option) prog" where
  "dbg_malloc alloc n =
     thn (modify (\<lambda>h. h\<lparr>h_count := h_count h + 1\<rparr>))
         (\<lambda>h. case alloc (h_live h) n of
            None \<Rightarrow> (Inr None, h)
          | Some p \<Rightarrow> (Inr (Some p), h\<lparr>h_live := (h_live h)(p \<mapsto> n)\<rparr>))"

definition dbg_free :: "nat option \<Rightarrow> (dheap, unit) prog" where
  "dbg_free ptr =
     thn (modify (\<lambda>h. h\<lparr>h_count := h_count h - 1\<rparr>))
         (\<lambda>h. case ptr of
            None \<Rightarrow> (Inr (), h)
          | Some p \<Rightarrow> (if h_live h p = None then (Inl Fault, h) else (Inr (), h\<lparr>h_live := (h_live h)(p := None)\<rparr>)))"

text \<open>The size of \<^verbatim>\<open>operator new\<close> has 64 bits, the parameter of \<^verbatim>\<open>_malloc\<close> 32.\<close>

definition operator_new :: "placing \<Rightarrow> 64 word \<Rightarrow> (dheap, nat option) prog" where
  "operator_new alloc n = dbg_malloc alloc (ucast n)"

definition operator_delete :: "nat option \<Rightarrow> (dheap, unit) prog" where
  "operator_delete ptr = dbg_free ptr"

definition get_memory_allocated :: "dheap \<Rightarrow> int" where
  "get_memory_allocated h = sint (h_count h)"

section \<open>The requests of a debug build\<close>

definition rpc_migrate :: "nat \<Rightarrow> (server, unit) prog" where
  "rpc_migrate c =
     thn (send_status c ''200 OK'')
    (thn (send_done c)
    (thn (upd_c c (\<lambda>r. r\<lparr>c_need_loop := c_nloop r + 1\<rparr>))
    (thn (bnd (gets s_threads) (\<lambda>threads.
            upd_c c (\<lambda>r. r\<lparr>c_need_loop := (if c_need_loop r \<ge> threads then 0 else c_need_loop r)\<rparr>)))
         (upd_c c (\<lambda>r. r\<lparr>c_go_loop := True\<rparr>)))))"

definition memory_text :: "(int \<Rightarrow> bool) \<Rightarrow> dheap \<Rightarrow> (buffer, unit) prog" where
  "memory_text ok h =
     thn (resize ok 32)
    (thn (buf_add_lit ok ''Memory allocated: '')
    (thn (buf_add_number ok (get_memory_allocated h))
         (buf_add_lit ok [CHR 0x0A])))"

definition debug_memory :: "(int \<Rightarrow> bool) \<Rightarrow> dheap \<Rightarrow> nat \<Rightarrow> (server, unit) prog" where
  "debug_memory ok h c = (case memory_text ok h empty_buffer of
     (Inl e, _) \<Rightarrow> throw e
   | (Inr _, r) \<Rightarrow> thn (send_status c ''200 OK'') (send_done_body c (b_data r)))"

text \<open>What stands between the request \<^verbatim>\<open>echo\<close> and the modes of a worker in such a build; every other path goes on as
  in a release build.\<close>

definition header_completed_debug :: "(int \<Rightarrow> bool) \<Rightarrow> dheap \<Rightarrow> nat \<Rightarrow> (server, unit) prog" where
  "header_completed_debug ok h c = bnd (get_c c) (\<lambda>r.
     if c_path r = ''rpc/migrate'' \<or> c_path r = ''debug'' then
       thn (upd_loop (c_nloop r) (\<lambda>l. l\<lparr>l_stat_request := l_stat_request l + 1\<rparr>))
      (thn (upd_c c (\<lambda>r. r\<lparr>c_keep_alive := (c_http_version r = 11)\<rparr>))
      (if c_path r = ''rpc/migrate'' then rpc_migrate c else debug_memory ok h c))
     else header_completed c)"

section \<open>Texts\<close>

text \<open>What one frame of the traceback becomes.\<close>

definition trace_line :: "(bytes \<Rightarrow> bytes option) \<Rightarrow> bytes \<Rightarrow> bytes" where
  "trace_line demangle name =
     (let (file, rest) = split_left CHR ''('' name; (symb, rest) = split_left CHR ''+'' rest;
          off = fst (split_left CHR '')'' rest)
      in (case demangle symb of Some func \<Rightarrow> file @ '': '' @ func @ '' +'' @ off | None \<Rightarrow> name) @ [CHR 0x0A])"

definition trace_text :: "(bytes \<Rightarrow> bytes option) \<Rightarrow> bytes list \<Rightarrow> bytes" where
  "trace_text demangle names = concat (map (trace_line demangle) (drop 1 names))"

text \<open>C strings, and a demangler that gives some.\<close>

definition c_string :: "bytes \<Rightarrow> bool" where
  "c_string xs = (CHR 0x00 \<notin> set xs)"

definition gives_strings :: "(bytes \<Rightarrow> bytes option) \<Rightarrow> bool" where
  "gives_strings demangle = (\<forall>s f. demangle s = Some f \<longrightarrow> c_string f)"

lemma adds_lit: "adds (buf_add_lit (\<lambda>_. True) xs) xs"
  unfolding adds_def by (auto intro: buf_add_lit_ok)

lemma adds_ret: "adds (ret ()) []"
  by (simp add: adds_def)

lemma adds_resize: "0 \<le> n \<Longrightarrow> adds (resize (\<lambda>_. True) n) []"
  unfolding adds_def using resize_ok [of _ "\<lambda>_. True" n] by (metis append_Nil2)

lemma adds_option:
  "(\<And>x. z = Some x \<Longrightarrow> adds (f x) (g x)) \<Longrightarrow> (z = None \<Longrightarrow> adds n ys) \<Longrightarrow>
   adds (case z of Some x \<Rightarrow> f x | None \<Rightarrow> n) (case z of Some x \<Rightarrow> g x | None \<Rightarrow> ys)"
  by (cases z) auto

lemma addsD: "adds m xs \<Longrightarrow> wf_buffer b \<Longrightarrow> \<exists>b'. m b = (Inr (), b') \<and> wf_buffer b' \<and> b_data b' = b_data b @ xs"
  by (simp add: adds_def)

lemma split_left_parts: "split_left a s = (x, y) \<Longrightarrow> set x \<subseteq> set s \<and> set y \<subseteq> set s"
proof -
  have "split_left_loop i a cs s = (x, y) \<Longrightarrow> set x \<subseteq> set s \<and> set y \<subseteq> set s" for i cs
    by (induction i a cs s rule: split_left_loop.induct)
       (auto split: if_splits dest: in_set_takeD in_set_dropD)
  then show "split_left a s = (x, y) \<Longrightarrow> set x \<subseteq> set s \<and> set y \<subseteq> set s" by (simp add: split_left_def)
qed

lemma trace_name_run:
  assumes "c_string name" and "wf_buffer bname" and "wf_buffer r"
  shows "\<exists>bname' r'. trace_name (\<lambda>_. True) demangle name (bname, r) = (Inr (), (bname', r')) \<and>
    wf_buffer bname' \<and> wf_buffer r' \<and> b_data r' = b_data r @ trace_line demangle name"
proof -
  obtain fl rest1 where 1: "split_left CHR ''('' name = (fl, rest1)" by fastforce
  obtain symb rest2 where 2: "split_left CHR ''+'' rest1 = (symb, rest2)" by fastforce
  obtain off rest3 where 3: "split_left CHR '')'' rest2 = (off, rest3)" by fastforce
  have zero: "CHR 0x00 \<notin> set symb"
    using split_left_parts [OF 1] split_left_parts [OF 2] assms(1) by (auto simp: c_string_def)
  have "wf_buffer (buf_clear bname)" "b_data (buf_clear bname) = []" using heap.wipe [OF assms(2)] by simp_all
  with addsD [OF adds_thn [OF adds_bytes adds_bytes], of "buf_clear bname" symb "[CHR 0x00]"]
  obtain bn where bn: "thn (buf_set (\<lambda>_. True) (Some symb)) (buf_add (\<lambda>_. True) (Some [CHR 0x00])) bname = (Inr (), bn)"
    "wf_buffer bn" "b_data bn = symb @ [CHR 0x00]"
    by (auto simp: buf_set_def thn_run)
  have name: "takeWhile (\<lambda>c. c \<noteq> CHR 0x00) (b_data bn) = symb" using zero bn(3) by simp
  let ?m = "thn (case demangle symb of
       Some func \<Rightarrow> thn (buf_add (\<lambda>_. True) (Some fl)) (thn (buf_add_lit (\<lambda>_. True) '': '')
         (thn (buf_add_lit (\<lambda>_. True) func) (thn (buf_add_lit (\<lambda>_. True) '' +'') (buf_add (\<lambda>_. True) (Some off)))))
     | None \<Rightarrow> buf_add_lit (\<lambda>_. True) name) (buf_add_lit (\<lambda>_. True) [CHR 0x0A])"
  have "adds ?m (trace_line demangle name)"
    unfolding trace_line_def Let_def 1 2 3 prod.case fst_conv
    by (intro adds_thn adds_option adds_bytes adds_lit)
  from addsD [OF this assms(3)] obtain r' where r': "?m r = (Inr (), r')" "wf_buffer r'"
    "b_data r' = b_data r @ trace_line demangle name" by blast
  have "trace_name (\<lambda>_. True) demangle name (bname, r) = (Inr (), (bn, r'))"
    unfolding trace_name_def using bn(1) r'(1) by (simp only: 1 2 3 name prod.case sum.case)
  with bn(2) r' show ?thesis by blast
qed

lemma trace_names_run:
  assumes "\<forall>n \<in> set names. c_string n" and "wf_buffer bname" and "wf_buffer r"
  shows "\<exists>bname' r'. for_each names (trace_name (\<lambda>_. True) demangle) (bname, r) = (Inr (), (bname', r')) \<and>
    wf_buffer bname' \<and> wf_buffer r' \<and> b_data r' = b_data r @ concat (map (trace_line demangle) names)"
  using assms
proof (induction names arbitrary: bname r)
  case (Cons n names)
  from trace_name_run [of n bname r demangle] Cons.prems obtain b1 r1 where
    1: "trace_name (\<lambda>_. True) demangle n (bname, r) = (Inr (), (b1, r1))" "wf_buffer b1" "wf_buffer r1"
      "b_data r1 = b_data r @ trace_line demangle n" by auto
  from Cons.IH [of b1 r1] Cons.prems 1 show ?case by (auto simp: thn_run)
qed simp

lemma get_traceback_run:
  assumes "\<forall>n \<in> set names. c_string n" and "wf_buffer r"
  shows "\<exists>r'. get_traceback (\<lambda>_. True) (Some names) demangle r = (Inr (), r') \<and> wf_buffer r' \<and>
    b_data r' = b_data r @ trace_text demangle names @ [CHR 0x00]"
proof -
  from resize_ok [of empty_buffer "\<lambda>_. True" 256] obtain b0 k where
    0: "resize (\<lambda>_. True) 256 empty_buffer = (Inr (), b0)" "wf_buffer b0" by auto
  from assms(1) have "\<forall>n \<in> set (drop 1 names). c_string n" by (auto dest: in_set_dropD)
  from trace_names_run [OF this 0(2) assms(2), of demangle] obtain b1 r1 where
    1: "for_each (drop 1 names) (trace_name (\<lambda>_. True) demangle) (b0, r) = (Inr (), (b1, r1))" "wf_buffer r1"
      "b_data r1 = b_data r @ trace_text demangle names" by (auto simp: trace_text_def)
  from buf_add_ok [OF 1(2), of "\<lambda>_. True" "[CHR 0x00]"] obtain r2 where
    2: "buf_add (\<lambda>_. True) (Some [CHR 0x00]) r1 = (Inr (), r2)" "wf_buffer r2" "b_data r2 = b_data r1 @ [CHR 0x00]" by auto
  have "get_traceback (\<lambda>_. True) (Some names) demangle r = (Inr (), r2)"
    by (simp add: get_traceback_def 0(1) thn_run 1(1) [simplified] on_second_def 2(1))
  with 2 1(3) show ?thesis by simp
qed

lemma trace_text_string:
  assumes "\<forall>n \<in> set names. c_string n" and "gives_strings demangle"
  shows "c_string (trace_text demangle names)"
proof -
  have "c_string (trace_line demangle n)" if n: "c_string n" for n
  proof -
    obtain fl rest1 where 1: "split_left CHR ''('' n = (fl, rest1)" by fastforce
    obtain symb rest2 where 2: "split_left CHR ''+'' rest1 = (symb, rest2)" by fastforce
    obtain off rest3 where 3: "split_left CHR '')'' rest2 = (off, rest3)" by fastforce
    have "c_string fl" "c_string off"
      using split_left_parts [OF 1] split_left_parts [OF 2] split_left_parts [OF 3] n by (auto simp: c_string_def)
    with n assms(2) show ?thesis
      by (auto simp: trace_line_def 1 2 3 gives_strings_def c_string_def split: option.splits)
  qed
  then show ?thesis using assms(1) by (auto simp: trace_text_def c_string_def dest!: in_set_dropD)
qed

lemma stream_text_open: "\<not> st_bad s \<Longrightarrow> stream_text (Some xs) s = (Inr (), s\<lparr>st_out := st_out s @ xs\<rparr>)"
  by (simp add: stream_text_def)

lemma stream_ptr_open:
  assumes "\<not> st_bad s" and "b_data b = xs @ [CHR 0x00]" and "c_string xs" and "wf_buffer b"
  shows "stream_ptr b s = (Inr (), s\<lparr>st_out := st_out s @ xs\<rparr>)"
proof -
  have "b_block b \<noteq> None" using assms(2,4) by (cases "b_block b") (auto simp: wf_buffer_def)
  with assms show ?thesis by (auto simp: stream_ptr_def c_string_def stream_text_open)
qed

text \<open>What is printed for an exception before the traceback.\<close>

definition headline :: "bytes \<Rightarrow> bytes \<Rightarrow> bytes \<Rightarrow> (bytes \<times> int \<times> bytes) option \<Rightarrow> bytes" where
  "headline now msg reason place = now @ msg @ '' '' @ quote_mark @ reason @ quote_mark @
     (case place of None \<Rightarrow> [] | Some (f, n, func) \<Rightarrow> '', file '' @ f @ '':'' @ number_bytes n @ '' '' @ func) @ [CHR 0x0A]"

lemma print_run:
  assumes "\<not> st_bad s" and "x_reason x = Some reason"
    and "x_file x = map_option fst place" and "\<And>f n func. place = Some (f, n, func) \<Longrightarrow> x_line x = n \<and> x_func x = Some func"
    and "x_trace x = None \<and> tr = [] \<or> (\<exists>b. x_trace x = Some b \<and> wf_buffer b \<and> b_data b = tr @ [CHR 0x00] \<and> c_string tr)"
  shows "print_exception now msg x s = (Inr (), s\<lparr>st_out := st_out s @ headline now msg reason place @ tr\<rparr>)"
proof -
  have tail: "(case x_trace x of None \<Rightarrow> ret () | Some b \<Rightarrow> stream_ptr b) s' = (Inr (), s'\<lparr>st_out := st_out s' @ tr\<rparr>)"
    if "\<not> st_bad s'" for s'
    using assms(5)
  proof
    assume "x_trace x = None \<and> tr = []"
    then show ?thesis by simp
  next
    assume "\<exists>b. x_trace x = Some b \<and> wf_buffer b \<and> b_data b = tr @ [CHR 0x00] \<and> c_string tr"
    with that stream_ptr_open show ?thesis by fastforce
  qed
  show ?thesis
    using assms(1-4)
    by (cases place) (auto simp: print_exception_def thn_run stream_text_open tail headline_def)
qed

section \<open>Balance of the heap\<close>

text \<open>What the program does with the heap, and how many of its requests for memory failed. A failed one ends the handler
  that made it, by an exception that is caught further out, and not the program.\<close>

datatype heap_op = Op_malloc "32 word" | Op_new "64 word" | Op_free nat | Op_delete nat

fun heap_step :: "placing \<Rightarrow> heap_op \<Rightarrow> (dheap, nat) prog" where
  "heap_step alloc (Op_malloc n) = bnd (dbg_malloc alloc n) (\<lambda>p. ret (if p = None then 1 else 0))"
| "heap_step alloc (Op_new n) = bnd (operator_new alloc n) (\<lambda>p. ret (if p = None then 1 else 0))"
| "heap_step alloc (Op_free p) = thn (dbg_free (Some p)) (ret 0)"
| "heap_step alloc (Op_delete p) = thn (operator_delete (Some p)) (ret 0)"

fun heap_run :: "placing \<Rightarrow> heap_op list \<Rightarrow> (dheap, nat) prog" where
  "heap_run alloc [] = ret 0"
| "heap_run alloc (x # xs) = bnd (heap_step alloc x) (\<lambda>k. bnd (heap_run alloc xs) (\<lambda>n. ret (k + n)))"

text \<open>\<^verbatim>\<open>malloc\<close> places a block where none is.\<close>

definition places_fresh :: "placing \<Rightarrow> bool" where
  "places_fresh alloc = (\<forall>m n p. alloc m n = Some p \<longrightarrow> m p = None)"

text \<open>The count is that of the blocks in use and of \<open>k\<close> failed requests.\<close>

definition counted :: "nat \<Rightarrow> dheap \<Rightarrow> bool" where
  "counted k h = (finite (dom (h_live h)) \<and> h_count h = word_of_nat (card (dom (h_live h)) + k))"

lemma counted_malloc:
  assumes "places_fresh alloc" and "counted k h" and "dbg_malloc alloc n h = (Inr x, h')"
  shows "counted (k + (if x = None then 1 else 0)) h'"
proof (cases x)
  case None
  with assms(3) have "h' = h\<lparr>h_count := h_count h + 1\<rparr>" by (auto simp: dbg_malloc_def split: option.splits)
  with None assms(2) show ?thesis by (simp add: counted_def algebra_simps)
next
  case (Some p)
  with assms(3) have *: "alloc (h_live h) n = Some p"
    "h' = h\<lparr>h_count := h_count h + 1, h_live := (h_live h)(p \<mapsto> n)\<rparr>"
    by (auto simp: dbg_malloc_def split: option.splits)
  with assms(1) have "h_live h p = None" by (auto simp: places_fresh_def)
  then have "p \<notin> dom (h_live h)" by auto
  with * assms(2) \<open>h_live h p = None\<close> Some show ?thesis by (simp add: counted_def algebra_simps)
qed

lemma counted_free:
  assumes "counted k h" and "dbg_free (Some p) h = (Inr (), h')"
  shows "counted k h'"
proof -
  from assms(2) have *: "h_live h p \<noteq> None" "h' = h\<lparr>h_count := h_count h - 1, h_live := (h_live h)(p := None)\<rparr>"
    by (auto simp: dbg_free_def split: if_splits)
  then have "p \<in> dom (h_live h)" by auto
  with assms(1) have "Suc (card (dom (h_live h) - {p})) = card (dom (h_live h))"
    by (intro card_Suc_Diff1) (simp_all add: counted_def)
  then have "word_of_nat (card (dom (h_live h)) + k) - 1 = (word_of_nat (card (dom (h_live h) - {p}) + k) :: 32 word)"
    by (metis add_Suc add_diff_cancel_left' of_nat_Suc)
  with * assms(1) show ?thesis by (auto simp: counted_def)
qed

lemma heap_step_counted:
  assumes "places_fresh alloc" and "counted k h" and "heap_step alloc x h = (Inr m, h')"
  shows "counted (k + m) h'"
  using assms(3)
  by (cases x) (auto simp: bnd_run thn_run operator_new_def operator_delete_def
      split: prod.splits sum.splits if_splits dest!: counted_malloc [OF assms(1,2)] counted_free [OF assms(2)])

lemma heap_run_counted:
  "places_fresh alloc \<Longrightarrow> counted k h \<Longrightarrow> heap_run alloc xs h = (Inr n, h') \<Longrightarrow> counted (k + n) h'"
proof (induction xs arbitrary: k n h)
  case (Cons x xs)
  from Cons.prems(3) obtain m h1 l where "heap_step alloc x h = (Inr m, h1)"
    and more: "heap_run alloc xs h1 = (Inr l, h')" and n: "n = m + l"
    by (auto simp: bnd_run split: prod.splits sum.splits)
  from Cons.IH [OF Cons.prems(1) heap_step_counted [OF Cons.prems(1,2) this(1)] more] n
  show ?case by (simp add: add.assoc)
qed simp

lemma sint_small: "0 \<le> x \<Longrightarrow> x < 2 ^ 31 \<Longrightarrow> sint (word_of_int x :: 32 word) = x"
  by (simp add: int_word_sint)

section \<open>Masked lines\<close>

lemma mask_controls_ok: "c \<in> set (mask_controls xs) \<Longrightarrow> 32 \<le> schar c"
  by (auto simp: mask_controls_def schar_def)

lemma mask_controls_id: "\<forall>c \<in> set xs. 32 \<le> schar c \<Longrightarrow> mask_controls xs = xs"
  by (induction xs) (auto simp: mask_controls_def)

lemma mask_append: "mask_controls (xs @ ys) = mask_controls xs @ mask_controls ys"
  by (simp add: mask_controls_def)

lemma length_mask [simp]: "length (mask_controls xs) = length xs"
  by (simp add: mask_controls_def)

definition shown_body :: "bytes \<Rightarrow> bytes" where
  "shown_body body = (if length body > 150 then take 147 body @ ''...'' else body)"

lemma adds_body: "adds (body_text (\<lambda>_. True) body) (shown_body body)"
  using adds_thn [OF adds_bytes [of "take 147 body"] adds_lit [of "''...''"]] adds_bytes [of body] adds_ret
  by (cases "body = []") (auto simp: body_text_def shown_body_def)

lemma c_div_thousand: "10000 \<le> n \<Longrightarrow> n < 2 ^ 63 \<Longrightarrow> - (2 ^ 63) \<le> c_div n 1000 \<and> c_div n 1000 < 2 ^ 63"
proof -
  assume n: "10000 \<le> n" "n < 2 ^ 63"
  then have "c_div n 1000 = n div 1000" by (simp add: c_div_def)
  moreover have "0 \<le> n div 1000" "n div 1000 < n" using n(1) by (simp_all add: int_div_less_self)
  ultimately show ?thesis using n by simp
qed

lemma adds_number_unit:
  assumes "- (2 ^ 63) \<le> n \<and> n < 2 ^ 63" and "length xs \<le> 4"
  shows "adds (thn (buf_add_number (\<lambda>_. True) n) (buf_add_lit (\<lambda>_. True) xs)) (number_bytes n @ xs) \<and>
    length (number_bytes n @ xs) \<le> 24"
  using adds_thn [OF adds_number adds_lit] add_number_ok [OF _ _ wf_empty_buffer, of n] assms by auto

lemma adds_duration: "\<exists>d. adds (duration_text (\<lambda>_. True) now start) d \<and> length d \<le> 24 \<and> (start = 0 \<longrightarrow> d = [])"
proof (cases "start = 0")
  case True
  then show ?thesis by (intro exI [of _ "[]"]) (simp add: duration_text_def adds_ret)
next
  case False
  let ?dur = "to_i64 (uint ((now - start) div 1000))"
  have range: "- (2 ^ 63) \<le> ?dur \<and> ?dur < 2 ^ 63" by (simp add: wrap_signed_def)
  have long: "- (2 ^ 63) \<le> c_div ?dur 1000 \<and> c_div ?dur 1000 < 2 ^ 63" if "10000 \<le> ?dur"
    using c_div_thousand [OF that] range by blast
  have d: "duration_text (\<lambda>_. True) now start = (if 10000 \<le> ?dur
      then thn (buf_add_number (\<lambda>_. True) (c_div ?dur 1000)) (buf_add_lit (\<lambda>_. True) ''sec '')
      else thn (buf_add_number (\<lambda>_. True) ?dur) (buf_add_lit (\<lambda>_. True) ''ms ''))"
    unfolding duration_text_def Let_def using False by (simp only: whenp_simps simp_thms)
  have "length ''sec '' \<le> 4" "length ''ms '' \<le> 4" by simp_all
  with adds_number_unit [OF long, of "''sec ''"] adds_number_unit [OF range, of "''ms ''"] False show ?thesis
    unfolding d by (cases "10000 \<le> ?dur") (simp only: if_True if_False, blast)+
qed

lemma logged_text_run:
  "\<exists>b t. logged_text (\<lambda>_. True) now start body empty_buffer = (Inr (), b) \<and> wf_buffer b \<and>
     b_data b = t @ [CHR 0x0A, CHR 0x00] \<and> length t \<le> 174 \<and> (\<forall>c \<in> set t. 32 \<le> schar c) \<and>
     (start = 0 \<longrightarrow> t = mask_controls (shown_body body))"
proof -
  from adds_duration [of now start] obtain d where
    d: "adds (duration_text (\<lambda>_. True) now start) d" "length d \<le> 24" "start = 0 \<longrightarrow> d = []" by blast
  have "0 \<le> (250 :: int)" by simp
  from addsD [OF adds_thn [OF adds_resize [OF this] adds_thn [OF d(1) adds_body]] wf_empty_buffer, of body]
  obtain b1 where b1: "thn (resize (\<lambda>_. True) 250) (thn (duration_text (\<lambda>_. True) now start) (body_text (\<lambda>_. True) body))
      empty_buffer = (Inr (), b1)" "wf_buffer b1" "b_data b1 = d @ shown_body body" by (auto simp: empty_buffer_def)
  let ?b2 = "b1\<lparr>b_data := mask_controls (b_data b1)\<rparr>"
  have "wf_buffer ?b2" using b1(2) by (auto simp: wf_buffer_def b_size_def mask_controls_def split: option.splits)
  from buf_add_ok [OF this, of "\<lambda>_. True" "[CHR 0x0A, CHR 0x00]"] obtain b3 where
    b3: "buf_add (\<lambda>_. True) (Some [CHR 0x0A, CHR 0x00]) ?b2 = (Inr (), b3)" "wf_buffer b3"
      "b_data b3 = mask_controls (d @ shown_body body) @ [CHR 0x0A, CHR 0x00]" by (auto simp: b1(3))
  have "logged_text (\<lambda>_. True) now start body empty_buffer = (Inr (), b3)"
    using b1(1) b3(1) by (auto simp: logged_text_def thn_run split: prod.splits sum.splits)
  moreover have "length (d @ shown_body body) \<le> 174" using d(2) by (auto simp: shown_body_def)
  ultimately show ?thesis using b3(2,3) d(3) mask_controls_ok
    by (intro exI [of _ b3] exI [of _ "mask_controls (d @ shown_body body)"]) auto
qed

lemma mask_string: "\<forall>c \<in> set t. 32 \<le> schar c \<Longrightarrow> c_string t \<and> CHR 0x0A \<notin> set t"
  by (auto simp: c_string_def schar_def)

section \<open>Properties\<close>

text \<open>
  Everything an exception carries is printed, on one line when the program was not built for debugging; in a debug
  build the frames of the stack follow it, one line each, without the innermost one, with the function's name
  demangled where it can be. The zero that ends the traceback is not printed.
\<close>

theorem exception_printed:
  assumes "\<not> st_bad s" and "\<forall>n \<in> set names. c_string n" and "gives_strings demangle"
    and "new_exception debug (\<lambda>_. True) (Some names) demangle (Some reason) (map_option fst place)
      (case place of None \<Rightarrow> 0 | Some (_, n, _) \<Rightarrow> n) (map_option (snd \<circ> snd) place) = Inr x"
  shows "x_what x = reason \<and> print_exception now msg x s = (Inr (), s\<lparr>st_out := st_out s @
    headline now msg reason place @ (if debug then trace_text demangle names else [])\<rparr>)"
proof -
  let ?tr = "if debug then trace_text demangle names else []"
  from get_traceback_run [OF assms(2) wf_empty_buffer, of demangle] obtain r where
    r: "get_traceback (\<lambda>_. True) (Some names) demangle empty_buffer = (Inr (), r)" "wf_buffer r"
      "b_data r = trace_text demangle names @ [CHR 0x00]" by (auto simp: empty_buffer_def)
  then have x: "x_reason x = Some reason" "x_file x = map_option fst place"
    "x_line x = (case place of None \<Rightarrow> 0 | Some (_, n, _) \<Rightarrow> n)" "x_func x = map_option (snd \<circ> snd) place"
    "x_trace x = (if debug then Some r else None)"
    using assms(4) by (auto simp: new_exception_def Let_def split: if_splits)
  have "x_trace x = None \<and> ?tr = [] \<or> (\<exists>b. x_trace x = Some b \<and> wf_buffer b \<and> b_data b = ?tr @ [CHR 0x00] \<and> c_string ?tr)"
    using r x(5) trace_text_string [OF assms(2,3)] by simp
  from print_run [OF assms(1) x(1,2) _ this] x(1,3,4) show ?thesis by (simp add: x_what_def)
qed

text \<open>
  A logged request takes one line: what is printed of the body has no line break and no control character, at most
  174 bytes with the time before it, and a body without such characters is shown as it is up to 150 bytes.
\<close>

theorem request_logged:
  assumes "\<not> st_bad s"
  shows "\<exists>t. log_request (\<lambda>_. True) time now start (Some path) body s = (Inr (), s\<lparr>st_out := st_out s @
      time @ path @ '' '' @ number_bytes (int (length body)) @ ''b '' @ t @ [CHR 0x0A]\<rparr>) \<and>
    length t \<le> 174 \<and> (\<forall>c \<in> set t. 32 \<le> schar c) \<and>
    (start = 0 \<and> length body \<le> 150 \<and> (\<forall>c \<in> set body. 32 \<le> schar c) \<longrightarrow> t = body)"
proof -
  from logged_text_run [of now start body] obtain b t where
    b: "logged_text (\<lambda>_. True) now start body empty_buffer = (Inr (), b)" "wf_buffer b"
      "b_data b = (t @ [CHR 0x0A]) @ [CHR 0x00]" and t: "length t \<le> 174" "\<forall>c \<in> set t. 32 \<le> schar c"
      "start = 0 \<longrightarrow> t = mask_controls (shown_body body)" by auto
  have "c_string (t @ [CHR 0x0A])" using mask_string [OF t(2)] by (simp add: c_string_def)
  from stream_ptr_open [OF _ b(3) this b(2)] assms
  have "log_request (\<lambda>_. True) time now start (Some path) body s = (Inr (), s\<lparr>st_out := st_out s @
      time @ path @ '' '' @ number_bytes (int (length body)) @ ''b '' @ t @ [CHR 0x0A]\<rparr>)"
    by (simp add: log_request_def b(1) bnd_run thn_run stream_text_open as_string_def)
  with t mask_controls_id [of body] show ?thesis by (intro exI [of _ t]) (auto simp: shown_body_def)
qed

text \<open>
  Claim C35. The number a debug build reports, for a program that gives back only blocks it has, is the number of blocks
  in use and of all its requests for memory that failed, as long as this is less than \<open>2 ^ 31\<close>; so it is the number of
  blocks exactly as long as none failed. Its text reads back as that number.
\<close>

theorem memory_counted:
  assumes "places_fresh alloc" and "heap_run alloc xs start_heap = (Inr failed, h)"
    and "card (dom (h_live h)) + failed < 2 ^ 31"
  shows "get_memory_allocated h = int (card (dom (h_live h))) + int failed \<and>
    (get_memory_allocated h = int (card (dom (h_live h))) \<longleftrightarrow> failed = 0) \<and>
    (\<exists>b. memory_text (\<lambda>_. True) h empty_buffer = (Inr (), b) \<and>
      b_data b = ''Memory allocated: '' @ number_bytes (int (card (dom (h_live h))) + int failed) @ [CHR 0x0A])"
proof -
  have "counted 0 start_heap" by (simp add: counted_def start_heap_def)
  from heap_run_counted [OF assms(1) this assms(2)] have c: "h_count h = word_of_nat (card (dom (h_live h)) + failed)"
    by (simp add: counted_def)
  have n: "get_memory_allocated h = int (card (dom (h_live h))) + int failed"
    using sint_small [of "int (card (dom (h_live h)) + failed)"] assms(3) by (simp add: get_memory_allocated_def c)
  have "adds (thn (resize (\<lambda>_. True) 32) (thn (buf_add_lit (\<lambda>_. True) ''Memory allocated: '')
      (thn (buf_add_number (\<lambda>_. True) (get_memory_allocated h)) (buf_add_lit (\<lambda>_. True) [CHR 0x0A]))))
      ([] @ ''Memory allocated: '' @ number_bytes (get_memory_allocated h) @ [CHR 0x0A])"
    by (intro adds_thn adds_lit adds_number adds_resize) (use n assms(3) in simp_all)
  from addsD [OF this wf_empty_buffer] n show ?thesis by (auto simp: memory_text_def empty_buffer_def)
qed

text \<open>A heap with room for two blocks.\<close>

definition two_places :: placing where
  "two_places m n = (if m 2 = None then Some 2 else if m 3 = None then Some 3 else None)"

theorem memory_counted_witness:
  "\<exists>h. heap_run two_places [Op_malloc 8, Op_new 16, Op_malloc 4, Op_free 2] start_heap = (Inr 1, h) \<and>
     card (dom (h_live h)) = 1 \<and> get_memory_allocated h = 2"
proof -
  let ?h = "\<lparr>h_live = [3 \<mapsto> 16], h_count = 2\<rparr>"
  have "places_fresh two_places" by (simp add: places_fresh_def two_places_def split: if_splits)
  moreover have run: "heap_run two_places [Op_malloc 8, Op_new 16, Op_malloc 4, Op_free 2] start_heap = (Inr 1, ?h)"
    by (simp add: bnd_run thn_run operator_new_def dbg_malloc_def dbg_free_def two_places_def start_heap_def fun_upd_twist)
  ultimately have "get_memory_allocated ?h = int (card (dom (h_live ?h))) + int 1"
    using memory_counted [of two_places "[Op_malloc 8, Op_new 16, Op_malloc 4, Op_free 2]" 1 ?h] by simp
  moreover have "card (dom (h_live ?h)) = 1" by simp
  ultimately show ?thesis using run by (intro exI [of _ ?h]) simp
qed

text \<open>Apart from two paths a debug build answers as a release build does.\<close>

theorem debug_answers_same:
  assumes "s_conns s c = Some r" and "c_path r \<notin> {''rpc/migrate'', ''debug''}"
  shows "header_completed_debug ok h c s = header_completed c s"
  using assms by (simp add: header_completed_debug_def get_c_def bnd_run)

end
