(* ===== verification/Loop_Moves.thy ===== *)
theory Loop_Moves imports Diagnostics Broker_Runs begin

text \<open>
  A connection that changes its loop: \<^verbatim>\<open>go_loop\<close> and \<^verbatim>\<open>need_loop\<close> are set by the handlers (a client follows
  its worker, a debug build moves a connection on request), \<^verbatim>\<open>_migrate_send\<close> moves it after the events of a turn.
\<close>

section \<open>Who polls a descriptor\<close>

definition polled_by :: "nat \<Rightarrow> server \<Rightarrow> nat set" where
  "polled_by fd s = {n. n < length (s_loops s) \<and> l_poll (s_loops s ! n) fd \<noteq> None}"

definition moved :: "nat \<Rightarrow> connect \<Rightarrow> connect" where
  "moved m r = r\<lparr>c_go_loop := False, c_nloop := m, c_need_loop := m\<rparr>"

definition poll_moved :: "nat \<Rightarrow> nat \<Rightarrow> nat \<Rightarrow> int \<Rightarrow> loop list \<Rightarrow> loop list" where
  "poll_moved n m fd st ls = (let ls = ls[n := (ls ! n)\<lparr>l_poll := (l_poll (ls ! n))(fd := None)\<rparr>]
     in ls[m := (ls ! m)\<lparr>l_poll := (l_poll (ls ! m))(fd \<mapsto> and st 3)\<rparr>])"

lemma migrate_one_run:
  assumes "s_conns s c = Some r" and "c_nloop r = n" and "c_go_loop r" and "c_need_loop r = m" "m \<noteq> n"
    and "n < length (s_loops s)" "m < length (s_loops s)" and "\<not> is_closed r" and "c_status r \<noteq> Migration"
    and "polled_by (c_fd r) s = {n}"
  shows "migrate_one n c s = (Inr (), put_c c (moved m r) (s\<lparr>s_loops := poll_moved n m (c_fd r) (c_socket_status r) (s_loops s)\<rparr>))"
proof -
  have "n \<in> polled_by (c_fd r) s" "m \<notin> polled_by (c_fd r) s" using assms(5,10) by simp_all
  then have p: "l_poll (s_loops s ! n) (c_fd r) \<noteq> None" "l_poll (s_loops s ! m) (c_fd r) = None"
    using assms(7) by (simp_all add: polled_by_def)
  have st: "c_socket_status r \<noteq> - 1" using assms(8) by (auto simp: is_closed_def)
  show ?thesis
    using assms(1-9) p st
    by (simp add: migrate_one_def loop_accept_def set_poll_mode_def bnd_run thn_run runs moved_def poll_moved_def Let_def put_c_def)
qed

text \<open>
  Claim C34. A connection that is to go to another loop is taken from the poll set of its own and put into that of the other,
  to be polled for what it waits for: from then on this loop and no other polls its descriptor and handles its events.
  It does not ask to go anywhere; no other descriptor is touched.
\<close>

theorem migrate_moves:
  assumes "s_conns s c = Some r" and "c_nloop r = n" and "c_go_loop r" and "c_need_loop r = m" "m \<noteq> n"
    and "n < length (s_loops s)" "m < length (s_loops s)" and "\<not> is_closed r" and "c_status r \<noteq> Migration"
    and "polled_by (c_fd r) s = {n}"
  shows "\<exists>s'. migrate_one n c s = (Inr (), s') \<and> polled_by (c_fd r) s' = {m} \<and>
    l_poll (s_loops s' ! m) (c_fd r) = Some (and (c_socket_status r) 3) \<and>
    s_conns s' = (s_conns s)(c \<mapsto> r\<lparr>c_go_loop := False, c_nloop := m, c_need_loop := m\<rparr>) \<and>
    (\<forall>fd. fd \<noteq> c_fd r \<longrightarrow> polled_by fd s' = polled_by fd s)"
proof -
  let ?s = "put_c c (moved m r) (s\<lparr>s_loops := poll_moved n m (c_fd r) (c_socket_status r) (s_loops s)\<rparr>)"
  have "k \<notin> polled_by (c_fd r) s" if "k \<noteq> n" for k using that assms(10) by simp
  then have others: "k < length (s_loops s) \<Longrightarrow> k \<noteq> n \<Longrightarrow> l_poll (s_loops s ! k) (c_fd r) = None" for k
    by (simp add: polled_by_def)
  have "k \<in> polled_by (c_fd r) ?s \<longleftrightarrow> k = m" for k
    using others [of k] assms(5-7) by (auto simp: polled_by_def poll_moved_def Let_def nth_list_update)
  then have "polled_by (c_fd r) ?s = {m}" by auto
  moreover have "k \<in> polled_by fd ?s \<longleftrightarrow> k \<in> polled_by fd s" if "fd \<noteq> c_fd r" for fd k
    using that assms(5-7) by (auto simp: polled_by_def poll_moved_def Let_def nth_list_update)
  then have "\<forall>fd. fd \<noteq> c_fd r \<longrightarrow> polled_by fd ?s = polled_by fd s" by blast
  moreover have "l_poll (s_loops ?s ! m) (c_fd r) = Some (and (c_socket_status r) 3)" using assms(7) by (simp add: poll_moved_def Let_def)
  ultimately show ?thesis using migrate_one_run [OF assms] by (intro exI [of _ ?s]) (simp add: moved_def)
qed

text \<open>A state with two loops, the connection in the first.\<close>

definition two_loops :: server where
  "two_loops = (let s = new_server 2 False ''1'' 0 (\<lambda>_. 0) 0 calm_memory; l = s_loops s ! 0 in
     s\<lparr>s_conns := [2 \<mapsto> new_connect \<lparr>jk_keep_alive = True, jk_fail = False, jk_noid = False, jk_length = 0, jk_version = 11\<rparr> 5
         \<lparr>c_link := 1, c_go_loop := True, c_need_loop := 1\<rparr>],
       s_loops := (s_loops s)[0 := l\<lparr>l_poll := [5 \<mapsto> 1]\<rparr>]\<rparr>)"

theorem migrate_moves_witness:
  "\<exists>s'. migrate_one 0 2 two_loops = (Inr (), s') \<and> polled_by 5 s' = {1}"
proof -
  let ?r = "new_connect \<lparr>jk_keep_alive = True, jk_fail = False, jk_noid = False, jk_length = 0, jk_version = 11\<rparr> 5
         \<lparr>c_link := 1, c_go_loop := True, c_need_loop := 1\<rparr>"
  have r: "s_conns two_loops 2 = Some ?r" "length (s_loops two_loops) = 2"
    by (simp_all add: two_loops_def new_server_def start_threads_def)
  have "l_poll (s_loops two_loops ! 0) 5 = Some 1" "l_poll (s_loops two_loops ! 1) 5 = None"
    by (simp_all add: two_loops_def new_server_def start_threads_def new_loop_def)
  then have "k \<in> polled_by 5 two_loops \<longleftrightarrow> k = 0" for k
    using r(2) by (cases "k = 0") (auto simp: polled_by_def less_Suc_eq numeral_2_eq_2)
  then have "polled_by 5 two_loops = {0}" by auto
  with migrate_moves [of two_loops 2 ?r 0 1] r show ?thesis by (auto simp: new_connect_def is_closed_def)
qed

section \<open>A move on request\<close>

text \<open>In a debug build the request \<^verbatim>\<open>rpc/migrate\<close> asks for the next loop, in a circle.\<close>

lemma rpc_migrate_run:
  assumes "s_conns s c = Some r" and "\<not> is_closed r" and "c_nloop r < length (s_loops s)"
  shows "rpc_migrate c s = (Inr (), put_c c ((emitted (response (c_keep_alive r) ''200 OK'' [] []) r)
    \<lparr>c_need_loop := (if s_threads s \<le> c_nloop r + 1 then 0 else c_nloop r + 1), c_go_loop := True\<rparr>)
      (emit c (response (c_keep_alive r) ''200 OK'' [] []) s))"
  using assms
  by (simp add: rpc_migrate_def thn_run bnd_run runs response_def buffered_conns is_closed_def)

text \<open>With as many loops as threads this is another loop whenever there is one.\<close>

theorem next_loop:
  assumes "s_conns s c = Some r" and "\<not> is_closed r" and "c_nloop r < s_threads s" and "length (s_loops s) = s_threads s" "1 < s_threads s"
  shows "\<exists>s' r'. rpc_migrate c s = (Inr (), s') \<and> s_conns s' c = Some r' \<and> c_go_loop r' \<and>
    c_need_loop r' = (c_nloop r + 1) mod s_threads s \<and> c_need_loop r' \<noteq> c_nloop r"
proof -
  have "(if s_threads s \<le> c_nloop r + 1 then 0 else c_nloop r + 1) = (c_nloop r + 1) mod s_threads s"
    using assms(3) by (auto simp: not_le le_Suc_eq)
  moreover have "(c_nloop r + 1) mod s_threads s \<noteq> c_nloop r" using assms(3,5) by (auto simp: mod_Suc)
  ultimately show ?thesis using rpc_migrate_run [OF assms(1,2)] assms(3,4) by simp
qed

end
