(* ===== verification/Spec2Isabelle.thy ===== *)
theory Spec2Isabelle imports Numerals Mapper NetFilters Json_Text Json_Scan Worker_List Broker_Calls Broker_Shape Broker_Ids
  Broker_Names Broker_Cleaning Broker_Timeouts Broker_Arrivals Broker_Losses Broker_Publishing
  Http_Messages Http_Sending Http_Calls Http_Worker_Mode Http_Dispatcher Startup Clock Kqueue Diagnostics Loop_Moves begin

text \<open>
  A verification development for ijson, a message broker over HTTP (sources under src/src). Clients send
  JSON-RPC requests to named queues, workers ask the queues for requests and send results back; the broker
  pairs the two, keeps the requests that find no worker, and delivers each result to its client.

  \<^bold>\<open>The program and its model.\<close> Every theory opens with the files it models; definitions carry the names of
  the functions they translate. Stateful code is a program of type \<open>('s, 'a) prog\<close>: a function from the state to
  an outcome and the state, where the outcome is a result or a C++ exception; \<open>Fault\<close> stands for an access
  outside an object or through a dead pointer and \<open>Deadlock\<close> for a mutex that is never released.

  \<^item> Data types of the program: \<open>Slices\<close> (views, buffer.h), \<open>Buffers\<close> (the growing buffer with its capacity,
    buffer.h), \<open>Numerals\<close> (printing and reading numbers), \<open>Json_Text\<close> and \<open>Json_Scan\<close> (json.cpp), \<open>Mapper\<close> (the trie
    from queue names to queue numbers, mapper.cpp), \<open>NetFilters\<close> (netfilter.cpp), \<open>Worker_List\<close> (the ring of
    registered workers with its pointers, workerlist.cpp).
  \<^item> The broker: \<open>Broker_State\<close> (connections, links, socket modes, responses, deferred deletion: connect.h, server.h,
    utils.cpp), \<open>Broker_Queues\<close> (queue lines by name and the two handlers that pair requests with workers,
    server.cpp), \<open>Broker_Rpc\<close> (results and disconnects), \<open>Http_Request\<close> (the handlers of complete requests) and
    \<open>Http_Conn\<close> (receiving and sending, connect.cpp), \<open>Loop_Locks\<close> (the locks over the loops, utils.cpp),
    \<open>Event_Loop\<close> (the loops, timeouts, migration with the descriptor that wakes a loop, accepting, the service thread
    with its freeing, cleaning and balancing, and the program as the step relation \<open>broker_step\<close> with its reachable
    states), \<open>Startup\<close> (main.cpp, the listening socket, \<open>main_run\<close>), \<open>Balance\<close> (the choice of the active loop,
    service.cpp), \<open>Clock\<close> (the readings of the clocks and the stamp of a log line, utils.cpp),
    \<open>Kqueue\<close> (the bodies of server.cpp compiled for kqueue, compared with those for epoll), \<open>Diagnostics\<close> (the exception
    objects and what they print, the traceback, the line logged for a request, the counted heap and the requests of a
    debug build: exception.cpp, memory.cpp, connect.cpp).

  \<^bold>\<open>What is shown.\<close>

  \<^item> Invariants. \<open>Broker_Invariant\<close> states as locales what a predicate on the state needs for every handler and every
    step to keep it, and goes through the handlers once; \<open>Broker_Order\<close> interprets it for the order of the waiting
    requests and \<open>Broker_Shape\<close> for the shape of the queue lines and for the status \<open>Migration\<close> that no connection takes.
  \<^item> Pairing. \<open>Broker_Runs\<close> has the rewrite rules that run a handler on a known state, \<open>Broker_Dispatch\<close> the relation
    between the states before and after a search, \<open>Broker_Calls\<close> what client and worker receive on each branch, up to
    the round trip of a request and its result; \<open>Broker_Names\<close> follows a queue from its creation to its deletion over
    the contract of the trie (locale \<open>queue_index\<close>, interpreted in \<open>Mapper\<close>), \<open>Broker_Ids\<close> the generated ids,
    \<open>Broker_Cleaning\<close> the cleaning of the queues and what a disconnect does to another client with the same id,
    \<open>Broker_Timeouts\<close> which workers a look at the timeouts tells, \<open>Broker_Arrivals\<close> that requests wait in the stable sort of their arrivals by priority,
    \<open>Broker_Losses\<close> what the client of a worker that goes away is told, \<open>Broker_Publishing\<close> whom a published message
    reaches and how often it is counted.
  \<^item> HTTP. \<open>Http_Calls\<close> composes reading and handling: from the bytes of a request and of its result to the bytes the
    client and the worker are sent, for a worker that waits and for one that comes later. \<open>Http_Worker_Mode\<close> does so for
    workers in worker mode: one turn of such a worker, and by induction any number of calls to a queue such workers wait
    for, under the invariant \<open>serving\<close>, with the turns they take. \<open>Http_Dispatcher\<close> has the specification of such a queue,
    a dispatcher with a list of free workers and a list of waiting calls, and shows by a simulation (locale
    \<open>packet_simulation\<close>) that the server refines it for calls and results in any order. \<open>Http_Messages\<close> reads a request back field
    by field, \<open>Http_Splits\<close> compares a request in one packet with the same in two (and shows what goes wrong with an
    option kept over packets, and in three), \<open>Http_Sending\<close> says which bytes go out and that all of them do.
  \<^item> Start and service. \<open>Startup\<close> bounds what the command line can start and shows the locks over the loops exact for it;
    \<open>Clock\<close> shows that a turn of the balancer measures exactly the time since the last one; \<open>Loop_Moves\<close> that a
    connection that changes its loop is polled by one loop at a time.
  \<^item> Diagnostics. \<open>Diagnostics\<close> has the texts printed for exceptions and requests as functions of their data, and the
    count of the heap blocks over any sequence of allocations, failed ones included.
  \<^item> Data types. Refinement of the trie and of the ring to maps and lists, of the in-place JSON loops to recursive
    functions; round trips of numbers, JSON texts and escapes; safety and termination of the scanner and the ring.

  States at which the theorems are applied are in \<open>Demo_State\<close>; \<open>Prelude\<close> has the program combinators, the machine
  integers and the rules for preserved predicates.

  \<^bold>\<open>Bounds and fuel.\<close> Loops over data are structural recursions or have a measure. Fuel is used where the code
  consumes a view: \<open>recv_lines\<close> is given one turn more than there are bytes, every turn consumes a line, and running
  out of turns, the end \<open>Endless\<close>, is told apart from the ends the code has and never happens (\<open>receiving_ends\<close>); the scanner and the ring have their own such lemmas. The search for a free slot
  in \<open>get_queue\<close> counts in 16 bits; \<open>place_queue\<close> is \<open>Deadlock\<close> where the code's loop does not end. Machine integers have
  their width: lengths and statistics that only grow are words or integers with the wrap-around written out.

  \<^bold>\<open>What is not modelled, and why.\<close>

  \<^item> Interleaving inside a handler. Loops run in threads; a step of the model is one handler of one of them.
    Mutexes that a handler may leave locked, or find locked, are part of the state; those taken around single
    accesses have no state.
  \<^item> Addresses of views. A view is the list of its bytes. Two views live longer than what they point to, and these are
    modelled by what they may read, an answer of the memory in the state: \<^verbatim>\<open>header_option\<close> kept over packets
    (\<open>stale_option\<close>), and the rest that \<^verbatim>\<open>on_recv\<close> appends to the buffer it is a part of (\<open>add_rest\<close>: a fault when the block
    is moved).
  \<^item> System calls (sockets, epoll, clock, random numbers): their results are inputs. The log output of the handlers, other than what
    \<open>Diagnostics\<close> models, changes no state the model has. \<^verbatim>\<open>kevent\<close> is a parameter of \<open>Kqueue\<close>, and what its manual says the
    hypothesis \<open>kevent_documented\<close> there.
  \<^item> \<^verbatim>\<open>inet_addr\<close> is a parameter of \<open>new_net_filter\<close> and \<open>main_args\<close>; nothing is assumed of it. \<^verbatim>\<open>backtrace_symbols\<close>,
    the demangler and the placing of heap blocks are parameters of \<open>Diagnostics\<close>; the theorems assume of them only that they
    give C strings and that a block, if one is given, is placed where none is.
  \<^item> Members without an initialiser (\<^verbatim>\<open>keep_alive\<close>, \<^verbatim>\<open>noid\<close>, \<^verbatim>\<open>fail_on_disconnect\<close>, \<^verbatim>\<open>content_length\<close>) hold arbitrary values,
    the argument \<open>junk\<close> of \<open>new_connect\<close>; so does the result that \<open>give_message\<close> returns for a request without a client.
\<close>

end
